(* ===== verification/Json.thy ===== *)
theory Json
  imports Prelude "HOL-Library.Word" "HOL-Library.Multiset"
begin

text \<open>
  JSON values, their canonical text and the content-addressed cache key
  (\<open>crates/domarinn-core/src/cache.rs\<close> and \<open>cache_key.rs\<close>).

  The number and string formatters of \<open>serde_json\<close> and the digest of \<open>sha2\<close> are not part of the
  repository: they are arguments \<open>num_text\<close>, \<open>str_text\<close> and \<open>sha256\<close> of the definitions, and what
  the code relies on is the predicate \<open>json_text_ok\<close> and the named hypotheses of the theorems.
\<close>

unbundle bit_operations_syntax

section \<open>Model\<close>

text \<open>\<open>serde_json::Number\<close>: an unsigned, a negative or a floating-point number (its IEEE bits).\<close>

datatype number = PosInt u64 | NegInt int | Float "64 word"

text \<open>\<open>serde_json::Value\<close>; an object keeps its members in insertion order.\<close>

datatype json =
    JNull
  | JBool bool
  | JNumber number
  | JString string
  | JArray "json list"
  | JObject "(string \<times> json) list"

fun join :: "string \<Rightarrow> string list \<Rightarrow> string" where
  "join sep [] = []"
| "join sep [x] = x"
| "join sep (x # y # ys) = x @ sep @ join sep (y # ys)"

primrec write_canonical :: "(number \<Rightarrow> string) \<Rightarrow> (string \<Rightarrow> string) \<Rightarrow> json \<Rightarrow> string" where
  "write_canonical num_text str_text JNull = ''null''"
| "write_canonical num_text str_text (JBool b) = (if b then ''true'' else ''false'')"
| "write_canonical num_text str_text (JNumber n) = num_text n"
| "write_canonical num_text str_text (JString s) = str_text s"
| "write_canonical num_text str_text (JArray items) =
     ''['' @ join '','' (map (write_canonical num_text str_text) items) @ '']''"
| "write_canonical num_text str_text (JObject members) =
     ''{'' @ join '','' (map (\<lambda>(k, text). str_text k @ '':'' @ text)
        (sort_key fst (map (map_prod id (write_canonical num_text str_text)) members))) @ ''}''"

definition canonical_json :: "(number \<Rightarrow> string) \<Rightarrow> (string \<Rightarrow> string) \<Rightarrow> json \<Rightarrow> string" where
  "canonical_json num_text str_text value = write_canonical num_text str_text value"

definition from_digit :: "8 word \<Rightarrow> char" where
  "from_digit d = (if d < 10 then char_of (unat d + 48) else char_of (unat d + 87))"

definition hex_lower :: "8 word list \<Rightarrow> string" where
  "hex_lower bytes = concat (map (\<lambda>b. [from_digit (drop_bit 4 b), from_digit (b AND 15)]) bytes)"

datatype CacheKey = CacheKey string

text \<open>The hash is a parameter, together with the formatters: the interface of the two crates.\<close>

record hashing =
  num_text :: "number \<Rightarrow> string"
  str_text :: "string \<Rightarrow> string"
  sha256 :: "string \<Rightarrow> 8 word list"

definition compute :: "hashing \<Rightarrow> json \<Rightarrow> CacheKey" where
  "compute h parts =
     (let canonical = canonical_json (num_text h) (str_text h) parts;
          digest = sha256 h canonical
      in CacheKey (''sha256:'' @ hex_lower digest))"

definition is_ascii_hexdigit :: "char \<Rightarrow> bool" where
  "is_ascii_hexdigit c = (let n = (of_char c :: nat)
     in (48 \<le> n \<and> n \<le> 57) \<or> (65 \<le> n \<and> n \<le> 70) \<or> (97 \<le> n \<and> n \<le> 102))"

definition is_ascii_uppercase :: "char \<Rightarrow> bool" where
  "is_ascii_uppercase c = (let n = (of_char c :: nat) in 65 \<le> n \<and> n \<le> 90)"

definition is_valid :: "string \<Rightarrow> bool" where
  "is_valid s = (case strip_prefix s ''sha256:'' of
       None \<Rightarrow> False
     | Some hex \<Rightarrow> length hex = 64
         \<and> list_all (\<lambda>b. is_ascii_hexdigit b \<and> \<not> is_ascii_uppercase b) hex)"

definition request_cache_key ::
  "hashing \<Rightarrow> json \<Rightarrow> u32 \<Rightarrow> string option \<Rightarrow> string option \<Rightarrow> CacheKey" where
  "request_cache_key h request rep provider_salt case_salt =
     (let parts = [(''request'', request), (''repeat'', JNumber (PosInt rep))];
          parts = (case provider_salt of None \<Rightarrow> parts
                   | Some salt \<Rightarrow> parts @ [(''provider_salt'', JString salt)]);
          parts = (case case_salt of None \<Rightarrow> parts
                   | Some salt \<Rightarrow> parts @ [(''case_salt'', JString salt)])
      in compute h (JObject parts))"

section \<open>Equality of JSON values\<close>

text \<open>Two objects are equal as JSON when they have the same members in any order: \<open>json_norm\<close>
  sorts the members at every level, and \<open>json_wf\<close> says that member names are distinct (a map) and
  that numbers are ones \<open>serde_json\<close> can hold.\<close>

primrec json_norm :: "json \<Rightarrow> json" where
  "json_norm JNull = JNull"
| "json_norm (JBool b) = JBool b"
| "json_norm (JNumber n) = JNumber n"
| "json_norm (JString s) = JString s"
| "json_norm (JArray items) = JArray (map json_norm items)"
| "json_norm (JObject members) = JObject (sort_key fst (map (map_prod id json_norm) members))"

fun valid_number :: "number \<Rightarrow> bool" where
  "valid_number (PosInt n) = (n \<le> u64_max)"
| "valid_number (NegInt i) = (i < 0 \<and> - (2 ^ 63) \<le> i)"
| "valid_number (Float b) = True"

primrec json_wf :: "json \<Rightarrow> bool" where
  "json_wf JNull = True"
| "json_wf (JBool b) = True"
| "json_wf (JNumber n) = valid_number n"
| "json_wf (JString s) = True"
| "json_wf (JArray items) = list_all id (map json_wf items)"
| "json_wf (JObject members) =
     (distinct (map fst members) \<and> list_all snd (map (map_prod id json_wf) members))"

text \<open>What canonical keys rely on: distinct numbers have distinct texts made of number characters,
  and a string literal opens with a quote and ends where its own closing quote is.\<close>

definition num_char :: "char \<Rightarrow> bool" where
  "num_char c \<longleftrightarrow> c \<in> set ''0123456789+-.eE''"

definition json_text_ok :: "(number \<Rightarrow> string) \<Rightarrow> (string \<Rightarrow> string) \<Rightarrow> bool" where
  "json_text_ok nt st \<longleftrightarrow>
     inj_on nt {n. valid_number n}
   \<and> (\<forall>n. nt n \<noteq> [] \<and> list_all num_char (nt n))
   \<and> (\<forall>s. \<exists>r. st s = CHR 0x22 # r)
   \<and> (\<forall>s t r r'. st s @ r = st t @ r' \<longrightarrow> s = t \<and> r = r')"


section \<open>Canonical text\<close>

lemma insort_key_apsnd: "insort_key fst (apsnd f x) (map (apsnd f) xs) = map (apsnd f) (insort_key fst x xs)"
  by (induction xs) auto

lemma sort_key_apsnd: "sort_key fst (map (apsnd f) xs) = map (apsnd f) (sort_key fst xs)"
  by (induction xs) (simp_all add: insort_key_apsnd)

lemma write_object:
  "write_canonical nt st (JObject ms) = ''{'' @ join '',''
     (map (\<lambda>(k, v). st k @ '':'' @ write_canonical nt st v) (sort_key fst ms)) @ ''}''"
  by (simp only: write_canonical.simps apsnd_def [symmetric] sort_key_apsnd map_map)
    (simp add: comp_def split_def)

lemma norm_object: "json_norm (JObject ms) = JObject (map (apsnd json_norm) (sort_key fst ms))"
  by (simp only: json_norm.simps apsnd_def [symmetric] sort_key_apsnd)

lemma sort_sorted_members: "sort_key fst (sort_key fst ms) = sort_key fst ms"
  by (simp add: sort_key_id_if_sorted)

text \<open>Normalising does not change the canonical text.\<close>

lemma write_canonical_norm: "write_canonical nt st (json_norm v) = write_canonical nt st v"
proof (induction v)
  case (JArray items)
  then have "map (write_canonical nt st \<circ> json_norm) items = map (write_canonical nt st) items"
    by (intro map_cong) auto
  then show ?case by (simp only: json_norm.simps write_canonical.simps map_map)
next
  case (JObject ms)
  have "(case apsnd json_norm x of (k, v) \<Rightarrow> st k @ '':'' @ write_canonical nt st v)
      = (case x of (k, v) \<Rightarrow> st k @ '':'' @ write_canonical nt st v)"
    if "x \<in> set (sort_key fst ms)" for x
    using JObject [of x "snd x"] that by (cases x) auto
  then have "map ((\<lambda>(k, v). st k @ '':'' @ write_canonical nt st v) \<circ> apsnd json_norm) (sort_key fst ms)
      = map (\<lambda>(k, v). st k @ '':'' @ write_canonical nt st v) (sort_key fst ms)"
    by (intro map_cong) auto
  then show ?case
    by (simp only: norm_object write_object sort_key_apsnd sort_sorted_members map_map)
qed simp_all

text \<open>A member list in any order gives the same normal form.\<close>

lemma json_norm_member_order:
  assumes "mset ms = mset ms'" "distinct (map fst ms)"
  shows "json_norm (JObject ms) = json_norm (JObject ms')"
proof -
  have "inj_on fst (set ms)" using assms(2) by (simp add: distinct_map)
  then have "sort_key fst ms = sort_key fst ms'"
    using assms(1) by (intro sort_key_inj_key_eq) (simp_all add: mset_sort)
  then show ?thesis by (simp only: norm_object)
qed

section \<open>Decoding the canonical text\<close>

text \<open>What may follow a value in a canonical text.\<close>

fun stop :: "string \<Rightarrow> bool" where
  "stop [] = True"
| "stop (c # cs) = (c = CHR '','' \<or> c = CHR '']'' \<or> c = CHR ''}'')"

lemma join_Cons: "join sep (x # xs) = x @ concat (map (\<lambda>y. sep @ y) xs)"
  by (induction xs arbitrary: x) simp_all

lemma seq_tail_decode:
  assumes "\<And>x y r r'. x \<in> set xs \<Longrightarrow> Q y \<Longrightarrow> stop r \<Longrightarrow> stop r' \<Longrightarrow> w x @ r = w y @ r' \<Longrightarrow> N x = N y \<and> r = r'"
    and "list_all Q ys" "cl = CHR '']'' \<or> cl = CHR ''}''"
    and "concat (map (\<lambda>x. '','' @ w x) xs) @ cl # r = concat (map (\<lambda>x. '','' @ w x) ys) @ cl # r'"
  shows "map N xs = map N ys \<and> r = r'"
  using assms
proof (induction xs arbitrary: ys)
  case Nil
  then show ?case by (cases ys) auto
next
  case (Cons x xs)
  show ?case
  proof (cases ys)
    case Nil
    with Cons.prems show ?thesis by auto
  next
    case (Cons y ys')
    let ?tl = "\<lambda>zs r. concat (map (\<lambda>x. '','' @ w x) zs) @ cl # r"
    have st: "stop (?tl zs q)" for zs q using Cons.prems(3) by (cases zs) auto
    have eq: "w x @ ?tl xs r = w y @ ?tl ys' r'" using Cons.prems(4) \<open>ys = y # ys'\<close> by simp
    have "Q y" using Cons.prems(2) \<open>ys = y # ys'\<close> by simp
    then have hd: "N x = N y \<and> ?tl xs r = ?tl ys' r'"
      using Cons.prems(1) [of x y, OF _ _ st st eq] by simp
    have "map N xs = map N ys' \<and> r = r'"
    proof (rule Cons.IH)
      show "list_all Q ys'" using Cons.prems(2) \<open>ys = y # ys'\<close> by simp
      show "?tl xs r = ?tl ys' r'" using hd by blast
    qed (use Cons.prems in auto)
    with hd \<open>ys = y # ys'\<close> show ?thesis by simp
  qed
qed

lemma seq_decode:
  assumes "\<And>x y r r'. x \<in> set xs \<Longrightarrow> Q y \<Longrightarrow> stop r \<Longrightarrow> stop r' \<Longrightarrow> w x @ r = w y @ r' \<Longrightarrow> N x = N y \<and> r = r'"
    and "list_all Q ys" "cl = CHR '']'' \<or> cl = CHR ''}''"
    and first: "\<And>x. \<exists>c cs. w x = c # cs \<and> c \<noteq> CHR '']'' \<and> c \<noteq> CHR ''}''"
    and eq: "join '','' (map w xs) @ cl # r = join '','' (map w ys) @ cl # r'"
  shows "map N xs = map N ys \<and> r = r'"
proof -
  have empty: "cl # q \<noteq> join '','' (map w (z # zs)) @ cl # q'" for z zs q q'
    using first [of z] assms(3) by (auto simp: join_Cons)
  show ?thesis
  proof (cases xs; cases ys)
    fix x xs' y ys' assume xs: "xs = x # xs'" and ys: "ys = y # ys'"
    have "map N (x # xs') = map N (y # ys') \<and> r = r'"
    proof (rule seq_tail_decode)
      show "concat (map (\<lambda>x. '','' @ w x) (x # xs')) @ cl # r
          = concat (map (\<lambda>x. '','' @ w x) (y # ys')) @ cl # r'"
        using eq by (simp add: xs ys join_Cons comp_def)
    qed (use assms(1-3) xs ys in auto)
    then show ?thesis by (simp add: xs ys)
  qed (use eq empty empty [symmetric] in auto)
qed

lemma num_char_delims [simp]:
  "\<not> num_char (CHR '','')" "\<not> num_char (CHR '']'')" "\<not> num_char (CHR ''}'')"
  "\<not> num_char (CHR ''['')" "\<not> num_char (CHR ''{'')" "\<not> num_char (CHR 0x22)"
  "\<not> num_char (CHR ''n'')" "\<not> num_char (CHR ''t'')" "\<not> num_char (CHR ''f'')"
  by (simp_all add: num_char_def)

lemma json_text_ok_num:
  assumes "json_text_ok nt st"
  obtains c cs where "nt n = c # cs" "num_char c" "list_all num_char (nt n)"
proof -
  from assms have "nt n \<noteq> []" "list_all num_char (nt n)" unfolding json_text_ok_def by blast+
  then show thesis using that by (cases "nt n") auto
qed

lemma json_text_ok_str:
  assumes "json_text_ok nt st"
  obtains cs where "st s = CHR 0x22 # cs"
  using assms unfolding json_text_ok_def by blast

lemma json_text_ok_str_decode:
  "json_text_ok nt st \<Longrightarrow> st s @ r = st t @ r' \<Longrightarrow> s = t \<and> r = r'"
  unfolding json_text_ok_def by blast

lemma number_decode:
  assumes "json_text_ok nt st" "valid_number m" "valid_number n" "stop r" "stop r'"
    "nt m @ r = nt n @ r'"
  shows "m = n \<and> r = r'"
proof -
  have none: "takeWhile num_char q = []" if "stop q" for q using that by (cases q) auto
  have self: "takeWhile num_char (nt k @ q) = nt k" if "stop q" for k q
  proof -
    have "\<forall>c\<in>set (nt k). num_char c" by (rule json_text_ok_num [OF assms(1), of k]) (simp add: list_all_iff)
    then show ?thesis using none [OF that] by (simp add: takeWhile_append2)
  qed
  have "nt m = nt n" using self [OF assms(4), of m] self [OF assms(5), of n] assms(6) by simp
  moreover have "inj_on nt {n. valid_number n}" using assms(1) unfolding json_text_ok_def by blast
  ultimately show ?thesis using assms(2,3,6) by (auto dest: inj_onD)
qed

lemma write_first_char:
  assumes "json_text_ok nt st"
  shows "\<exists>c cs. write_canonical nt st v = c # cs \<and> c \<noteq> CHR '']'' \<and> c \<noteq> CHR ''}''"
proof (cases v)
  case (JNumber n)
  obtain c cs where "nt n = c # cs" "num_char c" by (rule json_text_ok_num [OF assms])
  then show ?thesis using JNumber by auto
next
  case (JString s)
  obtain cs where "st s = CHR 0x22 # cs" by (rule json_text_ok_str [OF assms])
  then show ?thesis using JString by auto
qed auto

text \<open>The first character of a canonical text tells the kind of value.\<close>

lemma write_kind:
  assumes "json_text_ok nt st"
  shows "\<exists>c cs. write_canonical nt st v = c # cs \<and>
    (case v of JNull \<Rightarrow> c = CHR ''n'' | JBool b \<Rightarrow> c = (if b then CHR ''t'' else CHR ''f'')
     | JNumber n \<Rightarrow> num_char c | JString s \<Rightarrow> c = CHR 0x22
     | JArray xs \<Rightarrow> c = CHR ''['' | JObject ms \<Rightarrow> c = CHR ''{'')"
proof (cases v)
  case (JNumber n)
  obtain c cs where "nt n = c # cs" "num_char c" by (rule json_text_ok_num [OF assms])
  then show ?thesis using JNumber by auto
next
  case (JString s)
  obtain cs where "st s = CHR 0x22 # cs" by (rule json_text_ok_str [OF assms])
  then show ?thesis using JString by auto
qed auto

lemma write_decode:
  assumes ok: "json_text_ok nt st"
  shows "json_wf v \<Longrightarrow> json_wf v' \<Longrightarrow> stop r \<Longrightarrow> stop r' \<Longrightarrow>
    write_canonical nt st v @ r = write_canonical nt st v' @ r' \<Longrightarrow> json_norm v = json_norm v' \<and> r = r'"
proof (induction v arbitrary: v' r r')
  case JNull
  then show ?case using write_kind [OF ok, of v'] by (cases v') (auto split: if_splits)
next
  case (JBool b)
  then show ?case using write_kind [OF ok, of v'] by (cases v'; cases b) (auto split: if_splits)
next
  case (JNumber n)
  then show ?case using write_kind [OF ok, of "JNumber n"] write_kind [OF ok, of v']
    by (cases v') (auto dest: number_decode [OF ok] split: if_splits)
next
  case (JString s)
  then show ?case using write_kind [OF ok, of "JString s"] write_kind [OF ok, of v']
    by (cases v') (auto dest: json_text_ok_str_decode [OF ok] split: if_splits)
next
  case (JArray xs)
  show ?case
  proof (cases v')
    case (JArray ys)
    have "map json_norm xs = map json_norm ys \<and> r = r'"
    proof (rule seq_decode)
      show "join '','' (map (write_canonical nt st) xs) @ CHR '']'' # r
          = join '','' (map (write_canonical nt st) ys) @ CHR '']'' # r'"
        using JArray.prems(5) JArray by simp
      show "list_all json_wf ys" using JArray.prems(2) JArray by (simp add: list_all_iff)
      show "json_norm x = json_norm y \<and> q = q'"
        if "x \<in> set xs" "json_wf y" "stop q" "stop q'"
          "write_canonical nt st x @ q = write_canonical nt st y @ q'" for x y q q'
        using JArray.IH [OF that(1) _ that(2-5)] JArray.prems(1) that(1) by (auto simp: list_all_iff)
    qed (use write_first_char [OF ok] in simp_all)
    then show ?thesis using JArray by simp
  qed (use JArray.prems write_kind [OF ok, of v'] in \<open>auto split: if_splits\<close>)
next
  case (JObject ms)
  show ?case
  proof (cases v')
    case (JObject ns)
    let ?w = "\<lambda>(k, v). st k @ '':'' @ write_canonical nt st v"
    have "map (apsnd json_norm) (sort_key fst ms) = map (apsnd json_norm) (sort_key fst ns) \<and> r = r'"
    proof (rule seq_decode [where w = ?w])
      show "join '','' (map ?w (sort_key fst ms)) @ CHR ''}'' # r
          = join '','' (map ?w (sort_key fst ns)) @ CHR ''}'' # r'"
        using JObject.prems(5) JObject by (simp add: write_object del: write_canonical.simps)
      show "list_all (json_wf \<circ> snd) (sort_key fst ns)"
        using JObject.prems(2) JObject by (auto simp: list_all_iff)
      show "apsnd json_norm x = apsnd json_norm y \<and> q = q'"
        if "x \<in> set (sort_key fst ms)" "(json_wf \<circ> snd) y" "stop q" "stop q'" "?w x @ q = ?w y @ q'"
        for x y q q'
      proof -
        obtain k u where x: "x = (k, u)" by (cases x)
        obtain k' u' where y: "y = (k', u')" by (cases y)
        have "k = k' \<and> write_canonical nt st u @ q = write_canonical nt st u' @ q'"
          using json_text_ok_str_decode [OF ok, of k "CHR '':'' # write_canonical nt st u @ q"
              k' "CHR '':'' # write_canonical nt st u' @ q'"] that(5) x y by simp
        moreover have "json_wf u" "(k, u) \<in> set ms"
          using JObject.prems(1) that(1) x by (auto simp: list_all_iff)
        ultimately show ?thesis
          using JObject.IH [of "(k, u)" u u' q q'] that(2-4) x y by auto
      qed
      show "\<exists>c cs. ?w x = c # cs \<and> c \<noteq> CHR '']'' \<and> c \<noteq> CHR ''}''" for x
        by (cases x, rule json_text_ok_str [OF ok, where s = "fst x"]) auto
    qed simp
    then show ?thesis using JObject by (simp only: norm_object)
  qed (use JObject.prems write_kind [OF ok, of v'] in \<open>auto split: if_splits\<close>)
qed


section \<open>Canonical text identifies a value\<close>

text \<open>A concrete pair of formatters that meets \<open>json_text_ok\<close>: numbers in unary behind a sign or a
  point, strings with every character marked. It shows that the hypothesis can hold.\<close>

fun unary_num :: "number \<Rightarrow> string" where
  "unary_num (PosInt n) = replicate (Suc n) (CHR ''0'')"
| "unary_num (NegInt i) = CHR ''-'' # replicate (nat (- i)) (CHR ''0'')"
| "unary_num (Float b) = CHR ''.'' # replicate (unat b) (CHR ''0'')"

definition marked_str :: "string \<Rightarrow> string" where
  "marked_str s = CHR 0x22 # concat (map (\<lambda>c. [CHR ''c'', c]) s) @ [CHR 0x22]"

lemma marked_decode:
  "concat (map (\<lambda>c. [CHR ''c'', c]) s) @ CHR 0x22 # r = concat (map (\<lambda>c. [CHR ''c'', c]) t) @ CHR 0x22 # r'
   \<Longrightarrow> s = t \<and> r = r'"
proof (induction s arbitrary: t)
  case Nil
  then show ?case by (cases t) auto
next
  case (Cons c s)
  then show ?case by (cases t) auto
qed

lemma unary_text_ok: "json_text_ok unary_num marked_str"
proof -
  have "m = n" if "valid_number m" "valid_number n" "unary_num m = unary_num n" for m n
    using that by (cases m; cases n) (auto simp: replicate_eq_replicate dest: replicate_eq_replicate [THEN iffD1] intro: word_unat_eq_iff [THEN iffD2])
  moreover have "unary_num n \<noteq> [] \<and> list_all num_char (unary_num n)" for n
    by (cases n) (auto simp: list_all_iff num_char_def)
  moreover have "s = t \<and> r = r'" if "marked_str s @ r = marked_str t @ r'" for s t r r'
    using marked_decode [of s r t r'] that by (simp add: marked_str_def)
  moreover have "\<exists>r. marked_str s = CHR 0x22 # r" for s by (simp add: marked_str_def)
  ultimately show ?thesis unfolding json_text_ok_def inj_on_def by blast
qed

text \<open>Two JSON values have the same canonical text exactly when they are equal as JSON, that is up to
  the order of object members: the text forgets member order and nothing else.\<close>

theorem canonical_json_identifies:
  assumes "json_text_ok nt st" "json_wf v" "json_wf v'"
  shows "canonical_json nt st v = canonical_json nt st v' \<longleftrightarrow> json_norm v = json_norm v'"
proof
  assume "canonical_json nt st v = canonical_json nt st v'"
  then show "json_norm v = json_norm v'"
    using write_decode [OF assms, of "[]" "[]"] by (simp add: canonical_json_def)
next
  assume "json_norm v = json_norm v'"
  then show "canonical_json nt st v = canonical_json nt st v'"
    using write_canonical_norm [of nt st v] write_canonical_norm [of nt st v']
    by (simp add: canonical_json_def)
qed

theorem canonical_json_identifies_witness:
  "canonical_json unary_num marked_str (JObject [(''b'', JNull), (''a'', JArray [JBool True])])
     = canonical_json unary_num marked_str (JObject [(''a'', JArray [JBool True]), (''b'', JNull)])
   \<and> canonical_json unary_num marked_str (JArray [JNull, JNull])
     \<noteq> canonical_json unary_num marked_str (JArray [JNull])"
  using canonical_json_identifies [OF unary_text_ok,
      of "JObject [(''b'', JNull), (''a'', JArray [JBool True])]" "JObject [(''a'', JArray [JBool True]), (''b'', JNull)]"]
    canonical_json_identifies [OF unary_text_ok, of "JArray [JNull, JNull]" "JArray [JNull]"]
  by simp

section \<open>Cache keys\<close>

lemma unat_lt_256: "unat (b :: 8 word) < 256"
  using unsigned_less [of b] by simp

lemma nibbles: "unat (drop_bit 4 (b :: 8 word)) = unat b div 16" "unat (b AND 15) = unat b mod 16"
proof -
  show "unat (drop_bit 4 b) = unat b div 16"
    using unat_drop_bit_eq [of 4 b] by (simp add: drop_bit_eq_div)
  have "b AND 15 = take_bit 4 b" by (simp add: take_bit_eq_mask mask_numeral)
  then show "unat (b AND 15) = unat b mod 16" by (simp add: take_bit_eq_mod unat_mod_distrib)
qed

lemma from_digit_cases:
  assumes "unat d < 16"
  shows "from_digit d = (if unat d < 10 then char_of (unat d + 48) else char_of (unat d + 87))"
  by (simp add: from_digit_def word_less_nat_alt)

lemma from_digit_inj:
  assumes "unat d < 16" "unat e < 16" "from_digit d = from_digit e"
  shows "d = e"
proof -
  have "(of_char (from_digit d) :: nat) = of_char (from_digit e)" using assms(3) by simp
  then have "unat d = unat e"
    using assms(1,2) by (auto simp: from_digit_cases split: if_splits)
  then show ?thesis by (rule word_unat_eq_iff [THEN iffD2])
qed

lemma from_digit_hex:
  assumes "unat d < 16"
  shows "is_ascii_hexdigit (from_digit d)" "\<not> is_ascii_uppercase (from_digit d)"
  using assms by (auto simp: from_digit_cases is_ascii_hexdigit_def is_ascii_uppercase_def Let_def)

lemma nibble_bounds: "unat (drop_bit 4 (b :: 8 word)) < 16" "unat (b AND 15) < 16"
  using unat_lt_256 [of b] by (simp_all add: nibbles)

lemma hex_lower_inj: "hex_lower xs = hex_lower ys \<Longrightarrow> xs = ys"
proof (induction xs arbitrary: ys)
  case Nil
  then show ?case by (cases ys) (auto simp: hex_lower_def)
next
  case (Cons x xs)
  then obtain y ys' where ys: "ys = y # ys'" by (cases ys) (auto simp: hex_lower_def)
  with Cons.prems have "from_digit (drop_bit 4 x) = from_digit (drop_bit 4 y)"
    "from_digit (x AND 15) = from_digit (y AND 15)" and rest: "hex_lower xs = hex_lower ys'"
    by (simp_all add: hex_lower_def)
  then have "drop_bit 4 x = drop_bit 4 y" "x AND 15 = y AND 15"
    by (auto intro: from_digit_inj nibble_bounds)
  then have "unat x div 16 = unat y div 16" "unat x mod 16 = unat y mod 16"
    by (metis nibbles)+
  then have "unat x = unat y" by (metis div_mult_mod_eq)
  then show ?case using Cons.IH [OF rest] ys by (simp add: word_unat_eq_iff)
qed

lemma length_hex_lower: "length (hex_lower bs) = 2 * length bs"
  by (induction bs) (simp_all add: hex_lower_def)

lemma hex_lower_digits: "list_all (\<lambda>b. is_ascii_hexdigit b \<and> \<not> is_ascii_uppercase b) (hex_lower bs)"
  by (induction bs) (simp_all add: hex_lower_def from_digit_hex nibble_bounds)

text \<open>The object a request key is computed from.\<close>

definition key_parts :: "json \<Rightarrow> u32 \<Rightarrow> string option \<Rightarrow> string option \<Rightarrow> json" where
  "key_parts request rep provider_salt case_salt = JObject
     ([(''request'', request), (''repeat'', JNumber (PosInt rep))]
      @ (case provider_salt of None \<Rightarrow> [] | Some salt \<Rightarrow> [(''provider_salt'', JString salt)])
      @ (case case_salt of None \<Rightarrow> [] | Some salt \<Rightarrow> [(''case_salt'', JString salt)]))"

lemma digest_valid:
  assumes "length (sha256 h x) = 32"
  shows "is_valid (''sha256:'' @ hex_lower (sha256 h x))"
proof -
  have "strip_prefix (''sha256:'' @ s) ''sha256:'' = Some s" for s by (simp add: strip_prefix_Some)
  then show ?thesis using assms hex_lower_digits
    by (simp add: is_valid_def length_hex_lower del: strip_prefix.simps)
qed

lemma request_cache_key_parts:
  "request_cache_key h request rep ps cs = compute h (key_parts request rep ps cs)"
  by (simp add: request_cache_key_def key_parts_def Let_def split: option.split)

lemma key_parts_inj:
  "json_norm (key_parts r n ps cs) = json_norm (key_parts r' n' ps' cs')
   \<Longrightarrow> json_norm r = json_norm r' \<and> n = n' \<and> ps = ps' \<and> cs = cs'"
  by (cases ps; cases cs; cases ps'; cases cs') (auto simp: key_parts_def norm_object simp del: json_norm.simps(6))

text \<open>C25: A cache key identifies the exchange it was computed from. As long as SHA-256 does not collide on
  the two canonical texts, equal keys mean that the canonical requests are equal as JSON and that the
  repeat index, the provider salt and the case salt are all equal, so a hit never replays the answer
  of another request, another trial or another salt. The key is well-formed (\<open>is_valid\<close>) whenever the
  digest has 32 bytes.\<close>

theorem request_cache_key_identifies:
  assumes "json_text_ok (num_text h) (str_text h)"
    and "json_wf r" "json_wf r'" "n \<le> u64_max" "n' \<le> u64_max"
    and no_collision: "\<And>a b. a = canonical_json (num_text h) (str_text h) (key_parts r n ps cs)
      \<Longrightarrow> b = canonical_json (num_text h) (str_text h) (key_parts r' n' ps' cs')
      \<Longrightarrow> sha256 h a = sha256 h b \<Longrightarrow> a = b"
    and "\<And>x. length (sha256 h x) = 32"
  shows "(request_cache_key h r n ps cs = request_cache_key h r' n' ps' cs'
      \<longleftrightarrow> json_norm r = json_norm r' \<and> n = n' \<and> ps = ps' \<and> cs = cs')
    \<and> (\<exists>s. request_cache_key h r n ps cs = CacheKey s \<and> is_valid s)"
proof -
  have wf: "json_wf (key_parts r n ps cs)" "json_wf (key_parts r' n' ps' cs')"
    using assms(2-5) by (auto simp: key_parts_def split: option.split)
  have "json_norm r = json_norm r' \<and> n = n' \<and> ps = ps' \<and> cs = cs'"
    if "request_cache_key h r n ps cs = request_cache_key h r' n' ps' cs'"
  proof -
    have "canonical_json (num_text h) (str_text h) (key_parts r n ps cs)
        = canonical_json (num_text h) (str_text h) (key_parts r' n' ps' cs')"
      using that no_collision [OF refl refl]
      by (simp add: request_cache_key_parts compute_def Let_def) (blast dest: hex_lower_inj)
    then have "json_norm (key_parts r n ps cs) = json_norm (key_parts r' n' ps' cs')"
      using write_decode [OF assms(1) wf, of "[]" "[]"] by (simp add: canonical_json_def)
    then show ?thesis by (rule key_parts_inj)
  qed
  moreover have "request_cache_key h r n ps cs = request_cache_key h r' n ps cs"
    if "json_norm r = json_norm r'"
  proof -
    have "json_norm (key_parts r n ps cs) = json_norm (key_parts r' n ps cs)"
      using that by (cases ps; cases cs) (auto simp: key_parts_def norm_object simp del: json_norm.simps(6))
    then show ?thesis
      by (metis request_cache_key_parts compute_def canonical_json_def write_canonical_norm)
  qed
  moreover have "is_valid (''sha256:'' @ hex_lower (sha256 h x))" for x
    using assms(7) by (rule digest_valid)
  ultimately show ?thesis by (auto simp: request_cache_key_parts compute_def Let_def)
qed


text \<open>Formatters and a 32-byte digest that tells texts of different length apart.\<close>

definition length_hashing :: hashing where
  "length_hashing = \<lparr>num_text = unary_num, str_text = marked_str,
     sha256 = (\<lambda>x. word_of_nat (length x) # replicate 31 0)\<rparr>"

theorem request_cache_key_identifies_witness:
  "request_cache_key length_hashing JNull 0 None None
     \<noteq> request_cache_key length_hashing (JBool False) 0 None None"
proof -
  have "sha256 length_hashing (canonical_json unary_num marked_str (key_parts JNull 0 None None))
      \<noteq> sha256 length_hashing (canonical_json unary_num marked_str (key_parts (JBool False) 0 None None))"
    by (simp add: length_hashing_def canonical_json_def key_parts_def marked_str_def write_object
        del: write_canonical.simps(6))
  then show ?thesis
    using request_cache_key_identifies [of length_hashing JNull "JBool False" 0 0 None None None None]
    by (auto simp: length_hashing_def unary_text_ok)
qed

end
