(* ===== verification/Values.thy ===== *)
theory Values
  imports Json
begin

text \<open>
  The shared vocabulary of the engine (\<open>crates/domarinn-types/src\<close>): outputs, token usage, statuses,
  the open string types \<open>ErrorClass\<close> and \<open>EmptyReason\<close> with their classifiers, and the provider
  error. Functions of \<open>serde_json\<close> that the code calls are gathered in the record \<open>serde\<close>.
\<close>

section \<open>Model\<close>

subsection \<open>Outputs and usage (\<open>types.rs\<close>)\<close>

text \<open>\<open>Value::to_string\<close>, \<open>serde_json::from_str\<close>, and the byte length \<open>serde_json::to_vec\<close> gives
  (\<open>None\<close> when serialisation fails).\<close>

record serde =
  to_string :: "json \<Rightarrow> string"
  from_str :: "string \<Rightarrow> json option"
  to_vec_len :: "json \<Rightarrow> nat option"

datatype Output = Text string | Json json

definition as_text :: "serde \<Rightarrow> Output \<Rightarrow> string" where
  "as_text sd out = (case out of Text s \<Rightarrow> s | Json v \<Rightarrow> to_string sd v)"

definition as_json :: "serde \<Rightarrow> Output \<Rightarrow> json option" where
  "as_json sd out = (case out of Json v \<Rightarrow> Some v | Text s \<Rightarrow> from_str sd s)"

record TokenUsage =
  input_tokens :: u64
  output_tokens :: u64
  cache_read_tokens :: "u64 option"
  cache_write_tokens :: "u64 option"
  cache_write_1h_tokens :: "u64 option"

definition usage_total :: "TokenUsage \<Rightarrow> u64" where
  "usage_total u = saturating_add (saturating_add (input_tokens u) (output_tokens u))
                     (unwrap_or (cache_read_tokens u) 0)"

definition billable_total :: "TokenUsage \<Rightarrow> u64" where
  "billable_total u = saturating_add (usage_total u) (unwrap_or (cache_write_tokens u) 0)"

record ToolCall =
  tc_id :: "string option"
  tc_name :: string
  tc_arguments :: json

subsection \<open>Statuses (\<open>result.rs\<close>)\<close>

datatype CaseStatus = Pass | Fail | Error | Skip | XFail | XPass

definition status_as_str :: "CaseStatus \<Rightarrow> string" where
  "status_as_str s = (case s of Pass \<Rightarrow> ''pass'' | Fail \<Rightarrow> ''fail'' | Error \<Rightarrow> ''error''
     | Skip \<Rightarrow> ''skip'' | XFail \<Rightarrow> ''xfail'' | XPass \<Rightarrow> ''xpass'')"

definition status_from_str :: "string \<Rightarrow> string + CaseStatus" where
  "status_from_str s =
     (if s = ''pass'' then Inr Pass else if s = ''fail'' then Inr Fail
      else if s = ''error'' then Inr Error else if s = ''skip'' then Inr Skip
      else if s = ''xfail'' then Inr XFail else if s = ''xpass'' then Inr XPass
      else Inl (''invalid case status '' @ [CHR 0x27] @ s @ [CHR 0x27]
                @ ''; expected one of: pass, fail, error, skip, xfail, xpass''))"

datatype AssertStatus = APass | AFail | AError | ASkipped

definition from_pass :: "bool \<Rightarrow> AssertStatus" where
  "from_pass p = (if p then APass else AFail)"

subsection \<open>Error classes (\<open>error_class.rs\<close>)\<close>

type_synonym ErrorClass = string

definition PROVIDER_REQUEST :: ErrorClass where "PROVIDER_REQUEST = ''provider_request''"
definition PROVIDER_AUTH :: ErrorClass where "PROVIDER_AUTH = ''provider_auth''"
definition PROVIDER_RATE_LIMIT :: ErrorClass where "PROVIDER_RATE_LIMIT = ''provider_rate_limit''"
definition PROVIDER_UNAVAILABLE :: ErrorClass where "PROVIDER_UNAVAILABLE = ''provider_unavailable''"
definition PROVIDER_TIMEOUT :: ErrorClass where "PROVIDER_TIMEOUT = ''provider_timeout''"
definition PROVIDER_PROTOCOL :: ErrorClass where "PROVIDER_PROTOCOL = ''provider_protocol''"
definition EXEC_FAILED :: ErrorClass where "EXEC_FAILED = ''exec_failed''"
definition CHECKER_FAILED :: ErrorClass where "CHECKER_FAILED = ''checker_failed''"
definition RENDER_FAILED :: ErrorClass where "RENDER_FAILED = ''render_failed''"
definition GRADER_FAILED :: ErrorClass where "GRADER_FAILED = ''grader_failed''"
definition GRADER_UNAVAILABLE :: ErrorClass where "GRADER_UNAVAILABLE = ''grader_unavailable''"
definition GRADER_MISSING :: ErrorClass where "GRADER_MISSING = ''grader_missing''"
definition ASSERT_FAILED :: ErrorClass where "ASSERT_FAILED = ''assert_failed''"
definition CACHE_MISS :: ErrorClass where "CACHE_MISS = ''cache_miss''"
definition CACHE_UNAVAILABLE :: ErrorClass where "CACHE_UNAVAILABLE = ''cache_unavailable''"

lemmas error_class_defs = PROVIDER_REQUEST_def PROVIDER_AUTH_def PROVIDER_RATE_LIMIT_def
  PROVIDER_UNAVAILABLE_def PROVIDER_TIMEOUT_def PROVIDER_PROTOCOL_def EXEC_FAILED_def
  CHECKER_FAILED_def RENDER_FAILED_def GRADER_FAILED_def GRADER_UNAVAILABLE_def GRADER_MISSING_def
  ASSERT_FAILED_def CACHE_MISS_def CACHE_UNAVAILABLE_def

definition is_infrastructure :: "ErrorClass \<Rightarrow> bool" where
  "is_infrastructure c =
     (starts_with c ''provider_'' \<or> starts_with c ''cache_'' \<or> c = EXEC_FAILED)"

datatype GateFault = Suite | Harness

definition gate_fault :: "ErrorClass \<Rightarrow> GateFault" where
  "gate_fault c =
     (if c = GRADER_MISSING \<or> c = RENDER_FAILED \<or> c = ASSERT_FAILED \<or> c = CHECKER_FAILED
      then Suite else Harness)"

definition ERROR_PRECEDENCE :: "ErrorClass list" where
  "ERROR_PRECEDENCE = [GRADER_MISSING, GRADER_UNAVAILABLE, GRADER_FAILED, CHECKER_FAILED, ASSERT_FAILED]"

definition error_most_specific :: "ErrorClass list \<Rightarrow> ErrorClass option" where
  "error_most_specific candidates =
     (let harness = filter (\<lambda>c. gate_fault c = Harness) candidates;
          pool = (if harness = [] then candidates else harness)
      in or_else (find_map (\<lambda>want. find (\<lambda>c. c = want) pool) ERROR_PRECEDENCE) (first_opt pool))"

subsection \<open>Empty reasons (\<open>empty.rs\<close>)\<close>

type_synonym EmptyReason = string

definition THINKING_ONLY :: EmptyReason where "THINKING_ONLY = ''thinking_only''"
definition TRUNCATED :: EmptyReason where "TRUNCATED = ''truncated''"
definition REFUSAL :: EmptyReason where "REFUSAL = ''refusal''"
definition CONTENT_FILTER :: EmptyReason where "CONTENT_FILTER = ''content_filter''"
definition NO_CONTENT_BLOCKS :: EmptyReason where "NO_CONTENT_BLOCKS = ''no_content_blocks''"
definition EMPTY_BODY :: EmptyReason where "EMPTY_BODY = ''empty_body''"
definition OUTPUT_EXPR_EMPTY :: EmptyReason where "OUTPUT_EXPR_EMPTY = ''output_expr_empty''"
definition TOOL_USE_ONLY :: EmptyReason where "TOOL_USE_ONLY = ''tool_use_only''"
definition BLANK :: EmptyReason where "BLANK = ''blank''"

lemmas empty_reason_defs = THINKING_ONLY_def TRUNCATED_def REFUSAL_def CONTENT_FILTER_def
  NO_CONTENT_BLOCKS_def EMPTY_BODY_def OUTPUT_EXPR_EMPTY_def TOOL_USE_ONLY_def BLANK_def

definition CLAMP_MAX :: nat where "CLAMP_MAX = 64"

definition clamped :: "EmptyReason \<Rightarrow> string" where
  "clamped r = (let cleaned = filter (\<lambda>c. \<not> is_control c) r
     in if length cleaned \<le> CLAMP_MAX then cleaned else take CLAMP_MAX cleaned)"

definition EMPTY_PRECEDENCE :: "EmptyReason list" where
  "EMPTY_PRECEDENCE = [REFUSAL, CONTENT_FILTER, TRUNCATED, TOOL_USE_ONLY, THINKING_ONLY,
     NO_CONTENT_BLOCKS, EMPTY_BODY, OUTPUT_EXPR_EMPTY, BLANK]"

definition empty_most_specific :: "EmptyReason list \<Rightarrow> EmptyReason option" where
  "empty_most_specific candidates =
     or_else (find_map (\<lambda>want. find (\<lambda>c. c = want) candidates) EMPTY_PRECEDENCE) (first_opt candidates)"

definition from_stop_reason :: "string \<Rightarrow> EmptyReason option" where
  "from_stop_reason stop_reason =
     (let s = to_ascii_lowercase (trim stop_reason)
      in if s \<in> {''max_tokens'', ''length'', ''content_length''} then Some TRUNCATED
         else if s = ''refusal'' then Some REFUSAL
         else if s \<in> {''content_filter'', ''safety''} then Some CONTENT_FILTER
         else if s \<in> {''tool_use'', ''tool_calls'', ''function_call''} then Some TOOL_USE_ONLY
         else None)"

definition classify_blank :: "Output \<Rightarrow> EmptyReason option" where
  "classify_blank out =
     then_some (case out of
         Text s \<Rightarrow> trim s = []
       | Json v \<Rightarrow> (case v of JNull \<Rightarrow> True | JString s \<Rightarrow> trim s = [] | JArray a \<Rightarrow> a = []
                     | JObject ms \<Rightarrow> ms = [] | _ \<Rightarrow> False))
       BLANK"

subsection \<open>Provider errors (\<open>provider.rs\<close>)\<close>

datatype ProviderError =
    Retriable (err_source: string) (retry_after: "duration option") (err_class: ErrorClass)
      (err_details: "json option")
  | Fatal (err_source: string) (err_class: ErrorClass) (err_details: "json option")

section \<open>Lemmas\<close>

lemma usage_total_le [simp]: "usage_total u \<le> u64_max" "billable_total u \<le> u64_max"
  by (simp_all add: usage_total_def billable_total_def)

lemma find_eq: "find (\<lambda>c. c = want) xs = (if want \<in> set xs then Some want else None)"
  by (induction xs) auto

lemma precedence_pick:
  "find_map (\<lambda>want. find (\<lambda>c. c = want) xs) ps = find (\<lambda>p. p \<in> set xs) ps"
  by (induction ps) (auto simp: find_eq)

lemma pick_in_pool: "or_else (find (\<lambda>p. p \<in> set pool) ps) (first_opt pool) = Some c \<Longrightarrow> c \<in> set pool"
  by (cases "find (\<lambda>p. p \<in> set pool) ps"; cases pool) (auto dest: find_SomeD)

lemma error_most_specific_None: "error_most_specific cs = None \<longleftrightarrow> cs = []"
proof -
  define pool where "pool = (if filter (\<lambda>c. gate_fault c = Harness) cs = [] then cs
    else filter (\<lambda>c. gate_fault c = Harness) cs)"
  have "error_most_specific cs = or_else (find (\<lambda>p. p \<in> set pool) ERROR_PRECEDENCE) (first_opt pool)"
    by (simp add: error_most_specific_def precedence_pick Let_def pool_def)
  moreover have "pool = [] \<longleftrightarrow> cs = []" by (auto simp: pool_def)
  ultimately show ?thesis by (cases pool) (auto simp: or_else_def find_None_iff split: option.splits)
qed

text \<open>The class that explains an errored case is one of the classes the case collected (and there is one
  as soon as one was collected), a harness fault is never reported as a suite fault, and among the
  classes of the winning tier the first one of the precedence list wins.\<close>

theorem error_most_specific_sound:
  "(error_most_specific cs = None \<longleftrightarrow> cs = [])
   \<and> (\<forall>c. error_most_specific cs = Some c \<longrightarrow>
        c \<in> set cs
      \<and> ((\<exists>d\<in>set cs. gate_fault d = Harness) \<longrightarrow> gate_fault c = Harness)
      \<and> (\<forall>i j. i < j \<and> j < length ERROR_PRECEDENCE \<and> c = ERROR_PRECEDENCE ! j
            \<and> ERROR_PRECEDENCE ! i \<in> set cs \<longrightarrow> gate_fault (ERROR_PRECEDENCE ! i) \<noteq> gate_fault c))"
proof -
  define pool where "pool = (if filter (\<lambda>c. gate_fault c = Harness) cs = [] then cs
    else filter (\<lambda>c. gate_fault c = Harness) cs)"
  have res: "error_most_specific cs = or_else (find (\<lambda>p. p \<in> set pool) ERROR_PRECEDENCE) (first_opt pool)"
    by (simp add: error_most_specific_def precedence_pick Let_def pool_def)
  have sub: "set pool \<subseteq> set cs" by (auto simp: pool_def)
  have tier: "gate_fault c = Harness" if "c \<in> set pool" "\<exists>d\<in>set cs. gate_fault d = Harness" for c
    using that by (auto simp: pool_def filter_empty_conv split: if_splits)
  have same: "d \<in> set pool" if "c \<in> set pool" "d \<in> set cs" "gate_fault d = gate_fault c" for c d
    using that by (auto simp: pool_def filter_empty_conv split: if_splits)
  have dist: "distinct ERROR_PRECEDENCE" by (simp add: ERROR_PRECEDENCE_def error_class_defs)
  have first: "gate_fault (ERROR_PRECEDENCE ! i) \<noteq> gate_fault c"
    if some: "error_most_specific cs = Some c" and ij: "i < j" "j < length ERROR_PRECEDENCE"
      "c = ERROR_PRECEDENCE ! j" "ERROR_PRECEDENCE ! i \<in> set cs" for c i j
  proof
    assume eq: "gate_fault (ERROR_PRECEDENCE ! i) = gate_fault c"
    have "c \<in> set pool" using some res pick_in_pool by metis
    with same [OF this ij(4) eq] have inp: "ERROR_PRECEDENCE ! i \<in> set pool" by simp
    moreover have "ERROR_PRECEDENCE ! i \<in> set ERROR_PRECEDENCE" using ij by simp
    ultimately have "find (\<lambda>p. p \<in> set pool) ERROR_PRECEDENCE \<noteq> None"
      unfolding find_None_iff by blast
    then have "find (\<lambda>p. p \<in> set pool) ERROR_PRECEDENCE = Some c" using some res by auto
    then obtain m where m: "m < length ERROR_PRECEDENCE" "c = ERROR_PRECEDENCE ! m"
        "\<forall>k<m. ERROR_PRECEDENCE ! k \<notin> set pool"
      by (auto simp: find_Some_iff)
    then have "m = j" using ij dist by (metis nth_eq_iff_index_eq)
    then show False using m(3) ij(1) inp by blast
  qed
  have inpool: "c \<in> set pool" if "error_most_specific cs = Some c" for c
    using that pick_in_pool [of pool ERROR_PRECEDENCE c] by (simp add: res)
  show ?thesis using error_most_specific_None [of cs] sub inpool tier first by blast
qed

theorem error_most_specific_sound_witness:
  "error_most_specific [GRADER_MISSING, EXEC_FAILED] = Some EXEC_FAILED \<and> gate_fault EXEC_FAILED = Harness"
proof -
  have r: "error_most_specific [GRADER_MISSING, EXEC_FAILED] = Some EXEC_FAILED"
    by (simp add: error_most_specific_def ERROR_PRECEDENCE_def gate_fault_def error_class_defs)
  moreover have "\<exists>d\<in>set [GRADER_MISSING, EXEC_FAILED]. gate_fault d = Harness"
    by (simp add: gate_fault_def error_class_defs)
  ultimately show ?thesis using error_most_specific_sound [of "[GRADER_MISSING, EXEC_FAILED]"] by blast
qed

text \<open>The status parser inverts the printer, and accepts nothing else.\<close>

lemma status_round_trip: "status_from_str s = Inr st \<longleftrightarrow> s = status_as_str st"
  by (cases st) (auto simp: status_from_str_def status_as_str_def split: if_splits)

end
