(* ===== verification/Pricing.thy ===== *)
theory Pricing
  imports Values
begin

text \<open>
  Model prices and the cost of a call (\<open>crates/domarinn-core/src/pricing.rs\<close>). Money is a whole number
  of micro-dollars. The rate table is the parsed \<open>pricing.yaml\<close>, a parameter of the lookups. The two
  functions that may warn return the warning beside their result.
\<close>

section \<open>Model\<close>

type_synonym MicroUsd = u64

definition u128_max :: nat where
  "u128_max = 2 ^ 128 - 1"

text \<open>\<open>f64::round\<close> on a positive number, then the saturating cast to an integer type.\<close>

definition round_cast :: "nat \<Rightarrow> f64 \<Rightarrow> nat" where
  "round_cast bound x = min (nat \<lfloor>x + 1/2\<rfloor>) bound"

definition to_usd :: "MicroUsd \<Rightarrow> f64" where
  "to_usd m = of_nat m / 1000000"

definition from_usd :: "f64 \<Rightarrow> MicroUsd" where
  "from_usd usd = (if usd \<le> 0 then 0 else round_cast u64_max (usd * 1000000))"

definition micro_sum :: "MicroUsd list \<Rightarrow> MicroUsd" where
  "micro_sum ms = fold (\<lambda>m acc. saturating_add acc m) ms 0"

record ModelRate =
  rate_input :: f64
  rate_output :: f64
  rate_cache_read :: "f64 option"
  rate_cache_write_5m :: "f64 option"
  rate_cache_write_1h :: "f64 option"
  rate_as_of :: string

record EmbeddingRate =
  emb_input :: f64
  emb_as_of :: string

text \<open>The families are iterated in key order, so they are an association list.\<close>

record RateTable =
  tbl_exact :: "string \<rightharpoonup> ModelRate"
  tbl_families :: "(string \<times> ModelRate) list"
  tbl_embeddings :: "string \<rightharpoonup> EmbeddingRate"

definition BEDROCK_PREFIXES :: "string list" where
  "BEDROCK_PREFIXES = [''us.anthropic.'', ''eu.anthropic.'', ''apac.anthropic.'', ''anthropic.'']"

fun split_once :: "char \<Rightarrow> string \<Rightarrow> (string \<times> string) option" where
  "split_once c [] = None"
| "split_once c (x # xs) = (if x = c then Some ([], xs)
     else map_option (\<lambda>(a, b). (x # a, b)) (split_once c xs))"

definition rsplit_once :: "char \<Rightarrow> string \<Rightarrow> (string \<times> string) option" where
  "rsplit_once c s = map_option (\<lambda>(a, b). (rev b, rev a)) (split_once c (rev s))"

definition normalize :: "string \<Rightarrow> string" where
  "normalize id0 =
     (let id1 = trim id0;
          id2 = unwrap_or (find_map (strip_prefix id1) BEDROCK_PREFIXES) id1
      in case split_once (CHR ''@'') id2 of Some (base, _) \<Rightarrow> base | None \<Rightarrow> id2)"

definition is_ascii_digit :: "char \<Rightarrow> bool" where
  "is_ascii_digit c = (let n = (of_char c :: nat) in 48 \<le> n \<and> n \<le> 57)"

definition digits :: "string \<Rightarrow> nat \<Rightarrow> bool" where
  "digits s n = (length s = n \<and> list_all is_ascii_digit s)"

definition strip_snapshot_date :: "string \<Rightarrow> string option" where
  "strip_snapshot_date mid = (case rsplit_once (CHR ''-'') mid of None \<Rightarrow> None
     | Some (base, tail) \<Rightarrow>
         if digits tail 8 then Some base
         else if digits tail 2 then
           (case rsplit_once (CHR ''-'') base of None \<Rightarrow> None
            | Some (base, month) \<Rightarrow>
                (case rsplit_once (CHR ''-'') base of None \<Rightarrow> None
                 | Some (base, year) \<Rightarrow> if digits month 2 \<and> digits year 4 then Some base else None))
         else None)"

text \<open>\<open>max_by_key\<close>: the last of the elements with the largest key.\<close>

definition max_by_key :: "('a \<Rightarrow> nat) \<Rightarrow> 'a list \<Rightarrow> 'a option" where
  "max_by_key f xs = fold (\<lambda>x best. case best of None \<Rightarrow> Some x
     | Some y \<Rightarrow> if f y \<le> f x then Some x else Some y) xs None"

definition built_in_rate :: "RateTable \<Rightarrow> string \<Rightarrow> ModelRate option" where
  "built_in_rate tbl model_id =
     (let mid = normalize model_id
      in case tbl_exact tbl mid of Some rate \<Rightarrow> Some rate
       | None \<Rightarrow>
           (case Option.bind (strip_snapshot_date mid) (tbl_exact tbl) of Some rate \<Rightarrow> Some rate
            | None \<Rightarrow> map_option snd (max_by_key (\<lambda>(prefix, _). length prefix)
                (filter (\<lambda>(prefix, _). starts_with mid prefix) (tbl_families tbl)))))"

definition built_in_embedding_rate :: "RateTable \<Rightarrow> string \<Rightarrow> EmbeddingRate option" where
  "built_in_embedding_rate tbl model_id =
     (let mid = normalize model_id
      in or_else (tbl_embeddings tbl mid) (Option.bind (strip_snapshot_date mid) (tbl_embeddings tbl)))"

text \<open>The product is taken in \<open>u128\<close>, where it wraps.\<close>

definition component_cost :: "u64 \<Rightarrow> f64 option \<Rightarrow> MicroUsd option" where
  "component_cost tokens usd_per_mtok = (case usd_per_mtok of None \<Rightarrow> None
     | Some rate \<Rightarrow>
         if tokens = 0 then Some 0
         else let micro_per_mtok = (if rate * 1000000 \<le> 0 then 0 else round_cast u128_max (rate * 1000000));
                  prod = tokens * micro_per_mtok mod 2 ^ 128;
                  micros = (prod + 999999) div 1000000
              in Some (min micros u64_max))"

definition add_component :: "u64 \<Rightarrow> f64 option \<Rightarrow> MicroUsd option \<Rightarrow> MicroUsd option" where
  "add_component tokens rate acc = Option.bind acc (\<lambda>total_so_far.
     map_option (saturating_add total_so_far) (component_cost tokens rate))"

definition cost_of :: "TokenUsage \<Rightarrow> ModelRate \<Rightarrow> MicroUsd option" where
  "cost_of usage rate =
     (let t1 = component_cost (input_tokens usage) (Some (rate_input rate));
          t2 = add_component (output_tokens usage) (Some (rate_output rate)) t1;
          t3 = (case cache_read_tokens usage of
                  Some r \<Rightarrow> (if r > 0 then add_component r (rate_cache_read rate) t2 else t2)
                | None \<Rightarrow> t2)
      in case cache_write_tokens usage of
           Some wr \<Rightarrow>
             if wr > 0 then
               (let long = min (unwrap_or (cache_write_1h_tokens usage) 0) wr;
                    short = wr - long;
                    t4 = (if short > 0 then add_component short (rate_cache_write_5m rate) t3 else t3)
                in if long > 0 then add_component long (rate_cache_write_1h rate) t4 else t4)
             else t3
         | None \<Rightarrow> t3)"

text \<open>\<open>pricing:\<close> of a provider.\<close>

record PricingCfg =
  pc_input_per_mtok :: "f64 option"
  pc_output_per_mtok :: "f64 option"
  pc_cache_read_per_mtok :: "f64 option"
  pc_cache_write_per_mtok :: "f64 option"
  pc_cache_write_1h_per_mtok :: "f64 option"

definition resolve_rate :: "RateTable \<Rightarrow> string \<Rightarrow> PricingCfg option \<Rightarrow> bool \<times> ModelRate option" where
  "resolve_rate tbl model_id override_cfg =
     (case (built_in_rate tbl model_id, override_cfg) of
        (None, None) \<Rightarrow> (True, None)
      | (Some base, None) \<Rightarrow> (False, Some base)
      | (base, Some cfg) \<Rightarrow>
          (case (or_else (pc_input_per_mtok cfg) (map_option rate_input base),
                 or_else (pc_output_per_mtok cfg) (map_option rate_output base)) of
             (Some inp, Some outp) \<Rightarrow>
               (False, Some \<lparr>rate_input = inp, rate_output = outp,
                  rate_cache_read = or_else (pc_cache_read_per_mtok cfg) (Option.bind base rate_cache_read),
                  rate_cache_write_5m = or_else (pc_cache_write_per_mtok cfg) (Option.bind base rate_cache_write_5m),
                  rate_cache_write_1h = or_else (pc_cache_write_1h_per_mtok cfg) (Option.bind base rate_cache_write_1h),
                  rate_as_of = unwrap_or (map_option rate_as_of base) ''configured''\<rparr>)
           | _ \<Rightarrow> (True, None)))"

definition resolve_embedding_rate :: "RateTable \<Rightarrow> string \<Rightarrow> PricingCfg option \<Rightarrow> bool \<times> ModelRate option" where
  "resolve_embedding_rate tbl model_id override_cfg =
     (let built_in = built_in_embedding_rate tbl model_id;
          over = Option.bind override_cfg pc_input_per_mtok
      in case or_else over (map_option emb_input built_in) of
           None \<Rightarrow> (False, None)
         | Some inp \<Rightarrow>
             (built_in = None \<and> over = None,
              Some \<lparr>rate_input = inp, rate_output = 0, rate_cache_read = None, rate_cache_write_5m = None,
                    rate_cache_write_1h = None,
                    rate_as_of = unwrap_or (map_option emb_as_of built_in) ''configured''\<rparr>))"

section \<open>The cost of a call\<close>

text \<open>The components a call bills: tokens with the rate that prices them.\<close>

definition billed :: "TokenUsage \<Rightarrow> ModelRate \<Rightarrow> (u64 \<times> f64 option) list" where
  "billed u r =
     (let rd = unwrap_or (cache_read_tokens u) 0;
          wr = unwrap_or (cache_write_tokens u) 0;
          long = min (unwrap_or (cache_write_1h_tokens u) 0) wr
      in [(input_tokens u, Some (rate_input r)), (output_tokens u, Some (rate_output r))]
         @ filter (\<lambda>(t, _). t > 0)
             [(rd, rate_cache_read r), (wr - long, rate_cache_write_5m r), (long, rate_cache_write_1h r)])"

fun cost_fold :: "(u64 \<times> f64 option) list \<Rightarrow> MicroUsd option \<Rightarrow> MicroUsd option" where
  "cost_fold [] acc = acc"
| "cost_fold ((t, r) # cs) acc = cost_fold cs (add_component t r acc)"

lemma saturating_add_0: "m \<le> u64_max \<Longrightarrow> saturating_add 0 m = m"
  by (simp add: saturating_add_def)

lemma component_cost_le: "component_cost t r = Some m \<Longrightarrow> m \<le> u64_max"
  by (auto simp: component_cost_def Let_def split: option.splits if_splits)

lemma add_component_zero: "add_component t r (Some 0) = component_cost t r"
  by (cases "component_cost t r") (simp_all add: add_component_def saturating_add_0 component_cost_le)

lemma cost_of_fold: "cost_of u r = cost_fold (billed u r) (Some 0)"
  by (simp add: cost_of_def billed_def Let_def add_component_zero split: option.splits)

text \<open>The exact price of the components in dollars, at rates rounded to whole micro-dollars per million.\<close>

definition micro_rate :: "f64 \<Rightarrow> nat" where
  "micro_rate r = nat \<lfloor>r * 1000000 + 1/2\<rfloor>"

definition exact_micros :: "(u64 \<times> f64 option) list \<Rightarrow> f64" where
  "exact_micros cs = sum_list (map (\<lambda>(t, r). of_nat t * of_nat (micro_rate (the r)) / 1000000) cs)"

definition sane :: "u64 \<times> f64 option \<Rightarrow> bool" where
  "sane c = (fst c \<le> u64_max \<and> (case snd c of None \<Rightarrow> True | Some r \<Rightarrow> 0 \<le> r \<and> r \<le> 10 ^ 12))"

lemma micro_rate_le:
  assumes "0 \<le> r" and "r \<le> 10 ^ 12"
  shows "micro_rate r \<le> 10 ^ 18"
proof -
  have "r * 1000000 + 1/2 < 10 ^ 18 + 1" using assms by (simp add: field_simps)
  then have "\<lfloor>r * 1000000 + 1/2\<rfloor> < 10 ^ 18 + 1" by (simp add: floor_less_iff)
  then have "\<lfloor>r * 1000000 + 1/2\<rfloor> \<le> 10 ^ 18" by linarith
  then show ?thesis unfolding micro_rate_def nat_le_iff by simp
qed

lemma ceil_div_real: "of_nat ((n + 999999) div 1000000) < of_nat n / 1000000 + (1::real)"
  "of_nat n / 1000000 \<le> (of_nat ((n + 999999) div 1000000) :: real)"
proof -
  have "(n + 999999) div 1000000 * 1000000 < n + 1000000" by linarith
  then have "real ((n + 999999) div 1000000 * 1000000) < real (n + 1000000)" by (simp only: of_nat_less_iff)
  then show "of_nat ((n + 999999) div 1000000) < of_nat n / 1000000 + (1::real)" by simp
  have "n \<le> (n + 999999) div 1000000 * 1000000" by linarith
  then have "real n \<le> real ((n + 999999) div 1000000 * 1000000)" by (simp only: of_nat_le_iff)
  then show "of_nat n / 1000000 \<le> (of_nat ((n + 999999) div 1000000) :: real)" by simp
qed

lemma component_cost_exact:
  assumes "sane (t, Some r)"
  shows "component_cost t (Some r) = Some (min ((t * micro_rate r + 999999) div 1000000) u64_max)"
proof (cases "t = 0")
  case False
  have r: "0 \<le> r" "r \<le> 10 ^ 12" and t: "t \<le> u64_max" using assms by (simp_all add: sane_def)
  have mr: "micro_rate r \<le> 10 ^ 18" by (rule micro_rate_le [OF r])
  then have "micro_rate r \<le> u128_max" by (simp add: u128_max_def)
  then have m: "(if r * 1000000 \<le> 0 then 0 else round_cast u128_max (r * 1000000)) = micro_rate r"
    using r by (auto simp: round_cast_def micro_rate_def)
  have "t * micro_rate r \<le> u64_max * 10 ^ 18" using t mr by (rule mult_le_mono)
  also have "\<dots> < 2 ^ 128" by (simp add: u64_max_def)
  finally have "t * micro_rate r mod 2 ^ 128 = t * micro_rate r" by simp
  then show ?thesis using False by (simp only: component_cost_def option.case Let_def m if_False)
qed (simp add: component_cost_def)

lemma add_component_Some:
  assumes "sane (t, r)" and "acc \<le> u64_max"
  shows "add_component t r (Some acc) = (case r of None \<Rightarrow> None
    | Some q \<Rightarrow> Some (min (acc + (t * micro_rate q + 999999) div 1000000) u64_max))"
proof (cases r)
  case None
  then show ?thesis by (simp add: add_component_def component_cost_def)
next
  case (Some q)
  then show ?thesis using assms
    by (simp add: add_component_def component_cost_exact saturating_add_def min_def)
qed

lemma cost_fold_None [simp]: "cost_fold cs None = None"
  by (induction cs) (auto simp: add_component_def)

lemma cost_fold_sound:
  assumes "list_all sane cs" and "acc \<le> u64_max"
  shows "(cost_fold cs (Some acc) = None \<longleftrightarrow> (\<exists>(t, r) \<in> set cs. r = None))
    \<and> (\<forall>m. cost_fold cs (Some acc) = Some m \<longrightarrow> m \<le> u64_max
        \<and> of_nat m \<le> of_nat acc + exact_micros cs + of_nat (length cs)
        \<and> (m = u64_max \<or> of_nat acc + exact_micros cs \<le> of_nat m))"
  using assms
proof (induction cs arbitrary: acc)
  case Nil
  then show ?case by (simp add: exact_micros_def)
next
  case (Cons c cs)
  obtain t r where c: "c = (t, r)" by fastforce
  have sane: "sane (t, r)" using Cons.prems c by simp
  show ?case
  proof (cases r)
    case None
    then show ?thesis using add_component_Some [OF sane Cons.prems(2)] by (auto simp: c)
  next
    case (Some q)
    let ?k = "(t * micro_rate q + 999999) div 1000000"
    let ?acc = "min (acc + ?k) u64_max"
    have add: "add_component t r (Some acc) = Some ?acc"
      using add_component_Some [OF sane Cons.prems(2)] Some by simp
    have IH: "(cost_fold cs (Some ?acc) = None \<longleftrightarrow> (\<exists>(t, r) \<in> set cs. r = None))
      \<and> (\<forall>m. cost_fold cs (Some ?acc) = Some m \<longrightarrow> m \<le> u64_max
          \<and> of_nat m \<le> of_nat ?acc + exact_micros cs + of_nat (length cs)
          \<and> (m = u64_max \<or> of_nat ?acc + exact_micros cs \<le> of_nat m))"
      using Cons.IH [of ?acc] Cons.prems(1) by simp
    have nn: "0 \<le> exact_micros cs"
      unfolding exact_micros_def by (rule sum_list_map_nonneg) auto
    have ex: "exact_micros (c # cs) = of_nat (t * micro_rate q) / 1000000 + exact_micros cs"
      by (simp add: exact_micros_def c Some)
    note k = ceil_div_real [of "t * micro_rate q"]
    have up: "of_nat ?acc \<le> of_nat acc + of_nat (t * micro_rate q) / 1000000 + (1::real)"
      using k(1) by (simp add: min_def)
    have low: "?acc = u64_max \<or> of_nat acc + of_nat (t * micro_rate q) / 1000000 \<le> (of_nat ?acc :: real)"
      using k(2) by (auto simp: min_def)
    define acc' where "acc' = ?acc"
    note IH = IH [folded acc'_def] and up = up [folded acc'_def] and low = low [folded acc'_def] and add = add [folded acc'_def]
    have bound: "m = u64_max \<or> of_nat acc + exact_micros (c # cs) \<le> of_nat m"
      if "m \<le> u64_max" "m = u64_max \<or> of_nat acc' + exact_micros cs \<le> of_nat m" for m
      using that low nn ex by (cases "acc' = u64_max") auto
    have above: "of_nat m \<le> of_nat acc + exact_micros (c # cs) + of_nat (length (c # cs))"
      if "of_nat m \<le> of_nat acc' + exact_micros cs + (of_nat (length cs) :: real)" for m :: nat
      using that up ex by simp
    have "(\<exists>(t, r) \<in> set (c # cs). r = None) \<longleftrightarrow> (\<exists>(t, r) \<in> set cs. r = None)" by (simp add: c Some)
    then show ?thesis using IH bound above add by (simp only: cost_fold.simps c Some prod.case) blast
  qed
qed

text \<open>The cost of a call is unknown exactly when a component that was reported has no rate (never a
  partial total). When it is known it never undercuts the exact price of the tokens, with cache writes
  split between the short and the long rate, and exceeds it by less than a micro-dollar per component,
  unless it saturates at the largest representable amount.\<close>

theorem cost_of_bounds:
  assumes "list_all sane (billed u r)"
  shows "(cost_of u r = None \<longleftrightarrow> (\<exists>(t, q) \<in> set (billed u r). q = None))
    \<and> (\<forall>m. cost_of u r = Some m \<longrightarrow> m \<le> u64_max
        \<and> of_nat m \<le> exact_micros (billed u r) + of_nat (length (billed u r))
        \<and> (m = u64_max \<or> exact_micros (billed u r) \<le> of_nat m))"
  using cost_fold_sound [OF assms, of 0] by (simp add: cost_of_fold)

definition demo_usage :: TokenUsage where
  "demo_usage = \<lparr>input_tokens = 3, output_tokens = 2, cache_read_tokens = None, cache_write_tokens = Some 5,
     cache_write_1h_tokens = Some 9\<rparr>"

definition demo_rate :: ModelRate where
  "demo_rate = \<lparr>rate_input = 2, rate_output = 3, rate_cache_read = None, rate_cache_write_5m = None,
     rate_cache_write_1h = Some 4, rate_as_of = ''2026-01''\<rparr>"

lemma billed_demo: "billed demo_usage demo_rate = [(3, Some 2), (2, Some 3), (5, Some 4)]"
  by (simp add: billed_def demo_usage_def demo_rate_def)

theorem cost_of_bounds_witness: "cost_of demo_usage demo_rate \<noteq> None"
  using cost_of_bounds [of demo_usage demo_rate] by (simp add: billed_demo sane_def u64_max_def)

text \<open>A component is rounded up to a whole micro-dollar, not half up: one token at ten cents per
  million costs a tenth of a micro-dollar and is billed as one.\<close>

theorem component_rounds_up: "component_cost 1 (Some (1/10)) = Some 1"
proof -
  have "micro_rate (1/10) = 100000" by (simp add: micro_rate_def)
  then show ?thesis using component_cost_exact [of 1 "1/10"] by (simp add: sane_def u64_max_def)
qed

section \<open>Rates\<close>

lemma split_once_Some: "split_once c s = Some (a, b) \<longleftrightarrow> s = a @ c # b \<and> c \<notin> set a"
proof (induction s arbitrary: a)
  case (Cons x xs)
  then show ?case by (cases a) auto
qed simp

lemma rsplit_once_Some: "rsplit_once c s = Some (a, b) \<longleftrightarrow> s = a @ c # b \<and> c \<notin> set b"
proof -
  have "rsplit_once c s = Some (a, b) \<longleftrightarrow> split_once c (rev s) = Some (rev b, rev a)"
    by (auto simp: rsplit_once_def)
  also have "\<dots> \<longleftrightarrow> rev s = rev (a @ c # b) \<and> c \<notin> set b" by (simp add: split_once_Some)
  finally show ?thesis by (simp only: rev_is_rev_conv)
qed

lemma dash_not_digit: "digits d n \<Longrightarrow> CHR ''-'' \<notin> set d"
  by (auto simp: digits_def list_all_iff is_ascii_digit_def Let_def)

lemma rsplit_dash: "digits d n \<Longrightarrow> rsplit_once (CHR ''-'') (a @ ''-'' @ d) = Some (a, d)"
  by (simp add: rsplit_once_Some dash_not_digit)

lemma digits_length: "digits d n \<Longrightarrow> length d = n"
  by (simp add: digits_def)

lemma snapshot_compact: "digits d 8 \<Longrightarrow> strip_snapshot_date (base @ ''-'' @ d) = Some base"
  by (subst strip_snapshot_date_def, subst rsplit_dash) auto

lemma snapshot_dashed:
  assumes "digits y 4" "digits m 2" "digits d 2"
  shows "strip_snapshot_date (base @ ''-'' @ y @ ''-'' @ m @ ''-'' @ d) = Some base"
proof -
  have "\<not> digits d 8" using assms(3) by (simp add: digits_def)
  moreover have "rsplit_once (CHR ''-'') (base @ ''-'' @ y @ ''-'' @ m @ ''-'' @ d) = Some (base @ ''-'' @ y @ ''-'' @ m, d)"
    using rsplit_dash [OF assms(3), of "base @ ''-'' @ y @ ''-'' @ m"] by simp
  moreover have "rsplit_once (CHR ''-'') (base @ ''-'' @ y @ ''-'' @ m) = Some (base @ ''-'' @ y, m)"
    using rsplit_dash [OF assms(2), of "base @ ''-'' @ y"] by simp
  ultimately show ?thesis using assms rsplit_dash [OF assms(1), of base]
    by (simp add: strip_snapshot_date_def)
qed

text \<open>\<open>strip_snapshot_date\<close> recognises exactly the two spellings of a dated snapshot, a suffix
  \<open>-YYYYMMDD\<close> or \<open>-YYYY-MM-DD\<close> of digits, and gives the id before it.\<close>

theorem strip_snapshot_date_exact:
  "strip_snapshot_date s = Some base \<longleftrightarrow>
     (\<exists>d. digits d 8 \<and> s = base @ ''-'' @ d)
     \<or> (\<exists>y m d. digits y 4 \<and> digits m 2 \<and> digits d 2 \<and> s = base @ ''-'' @ y @ ''-'' @ m @ ''-'' @ d)"
proof
  assume "strip_snapshot_date s = Some base"
  then consider d where "rsplit_once (CHR ''-'') s = Some (base, d)" "digits d 8"
    | b1 d b2 m y where "rsplit_once (CHR ''-'') s = Some (b1, d)" "rsplit_once (CHR ''-'') b1 = Some (b2, m)"
        "rsplit_once (CHR ''-'') b2 = Some (base, y)" "digits d 2" "digits m 2" "digits y 4"
    by (auto simp: strip_snapshot_date_def split: option.splits prod.splits if_splits)
  then show "(\<exists>d. digits d 8 \<and> s = base @ ''-'' @ d)
     \<or> (\<exists>y m d. digits y 4 \<and> digits m 2 \<and> digits d 2 \<and> s = base @ ''-'' @ y @ ''-'' @ m @ ''-'' @ d)"
  proof cases
    case 1
    then show ?thesis by (auto simp: rsplit_once_Some)
  next
    case 2
    then have "s = base @ ''-'' @ y @ ''-'' @ m @ ''-'' @ d" by (simp add: rsplit_once_Some)
    then show ?thesis using 2 by blast
  qed
next
  assume "(\<exists>d. digits d 8 \<and> s = base @ ''-'' @ d)
     \<or> (\<exists>y m d. digits y 4 \<and> digits m 2 \<and> digits d 2 \<and> s = base @ ''-'' @ y @ ''-'' @ m @ ''-'' @ d)"
  then show "strip_snapshot_date s = Some base"
    using snapshot_compact snapshot_dashed by blast
qed

lemma max_by_key_fold:
  "case fold (\<lambda>x best. case best of None \<Rightarrow> Some x | Some y \<Rightarrow> if f y \<le> (f x :: nat) then Some x else Some y) xs best of
     None \<Rightarrow> best = None \<and> xs = []
   | Some m \<Rightarrow> (m \<in> set xs \<or> best = Some m) \<and> (\<forall>x \<in> set xs. f x \<le> f m) \<and> (\<forall>y. best = Some y \<longrightarrow> f y \<le> f m)"
proof (induction xs arbitrary: best)
  case (Cons x xs)
  show ?case
    using Cons.IH [of "case best of None \<Rightarrow> Some x | Some y \<Rightarrow> if f y \<le> f x then Some x else Some y"]
    by (cases best) (auto split: option.splits if_splits)
qed (simp split: option.splits)

lemma max_by_key_Some: "max_by_key f xs = Some m \<Longrightarrow> m \<in> set xs \<and> (\<forall>x \<in> set xs. f x \<le> f m)"
  using max_by_key_fold [where f = f and xs = xs and best = None] by (simp add: max_by_key_def)

lemma max_by_key_None: "max_by_key f xs = None \<longleftrightarrow> xs = []"
  using max_by_key_fold [where f = f and xs = xs and best = None] by (auto simp: max_by_key_def split: option.splits)

text \<open>A model id is priced by its own row, otherwise by the row of the id without its snapshot date,
  otherwise by a family whose prefix it has and than which no matching family is longer; it has no
  built-in rate exactly when all three fail.\<close>

theorem built_in_rate_order:
  "case tbl_exact tbl (normalize mid) of Some rate \<Rightarrow> built_in_rate tbl mid = Some rate
   | None \<Rightarrow> (case Option.bind (strip_snapshot_date (normalize mid)) (tbl_exact tbl) of
        Some rate \<Rightarrow> built_in_rate tbl mid = Some rate
      | None \<Rightarrow> (case built_in_rate tbl mid of
            None \<Rightarrow> \<nexists>p rate. (p, rate) \<in> set (tbl_families tbl) \<and> starts_with (normalize mid) p
          | Some rate \<Rightarrow> \<exists>p. (p, rate) \<in> set (tbl_families tbl) \<and> starts_with (normalize mid) p
              \<and> (\<nexists>q r. (q, r) \<in> set (tbl_families tbl) \<and> starts_with (normalize mid) q \<and> length q > length p)))"
proof -
  let ?ms = "filter (\<lambda>(prefix, _). starts_with (normalize mid) prefix) (tbl_families tbl)"
  let ?m = "max_by_key (\<lambda>(prefix, _). length prefix) ?ms"
  let ?dated = "Option.bind (strip_snapshot_date (normalize mid)) (tbl_exact tbl)"
  have none: "?m = None \<Longrightarrow> \<nexists>p rate. (p, rate) \<in> set (tbl_families tbl) \<and> starts_with (normalize mid) p"
    by (auto simp: max_by_key_None filter_empty_conv)
  have some: "(p, rate) \<in> set (tbl_families tbl) \<and> starts_with (normalize mid) p
      \<and> (\<nexists>q r. (q, r) \<in> set (tbl_families tbl) \<and> starts_with (normalize mid) q \<and> length q > length p)"
    if "?m = Some (p, rate)" for p rate
    using max_by_key_Some [OF that] by (auto simp: not_less)
  show ?thesis
  proof (cases "tbl_exact tbl (normalize mid)")
    case (Some rate)
    then show ?thesis by (simp add: built_in_rate_def Let_def)
  next
    case exact: None
    show ?thesis
    proof (cases ?dated)
      case (Some rate)
      then show ?thesis using exact by (simp add: built_in_rate_def Let_def)
    next
      case None
      then have rate: "built_in_rate tbl mid = map_option snd ?m" using exact by (simp add: built_in_rate_def Let_def)
      show ?thesis
      proof (cases ?m)
        case m: None
        then have "built_in_rate tbl mid = None" using rate by simp
        then show ?thesis using none [OF m] by (simp only: exact None option.case) simp
      next
        case (Some pr)
        obtain p r where pr: "pr = (p, r)" by fastforce
        then have "built_in_rate tbl mid = Some r" using rate Some by simp
        then show ?thesis using some [of p r] Some pr by (simp only: exact None option.case) blast
      qed
    qed
  qed
qed

text \<open>An override wins field by field over the built-in row, a rate is unresolved exactly when input or
  output is priced by neither, and exactly then the user is warned.\<close>

theorem resolve_rate_merges:
  "(let base = built_in_rate tbl mid; over = (\<lambda>f. Option.bind cfg f); (warned, rate) = resolve_rate tbl mid cfg
    in (warned \<longleftrightarrow> rate = None)
     \<and> (rate = None \<longleftrightarrow> base = None \<and> (over pc_input_per_mtok = None \<or> over pc_output_per_mtok = None))
     \<and> (case rate of None \<Rightarrow> True | Some r \<Rightarrow>
          Some (rate_input r) = or_else (over pc_input_per_mtok) (map_option rate_input base)
        \<and> Some (rate_output r) = or_else (over pc_output_per_mtok) (map_option rate_output base)
        \<and> rate_cache_read r = or_else (over pc_cache_read_per_mtok) (Option.bind base rate_cache_read)
        \<and> rate_cache_write_5m r = or_else (over pc_cache_write_per_mtok) (Option.bind base rate_cache_write_5m)
        \<and> rate_cache_write_1h r = or_else (over pc_cache_write_1h_per_mtok) (Option.bind base rate_cache_write_1h)))"
  by (cases "built_in_rate tbl mid"; cases cfg)
    (auto simp: resolve_rate_def Let_def or_else_def split: option.splits)

text \<open>The embedding lookup returns before its warning whenever the warning would apply, so an unpriced
  embedding model is never reported.\<close>

theorem embedding_warning_is_dead: "\<not> fst (resolve_embedding_rate tbl mid cfg)"
  by (auto simp: resolve_embedding_rate_def Let_def split: option.splits)

end
