(* ===== verification/Template.thy ===== *)
theory Template
  imports Values
begin

text \<open>
  Values with template strings (\<open>crates/domarinn-core/src/val.rs\<close>) and their rendering
  (\<open>template.rs\<close>). The template language itself is \<open>minijinja\<close>, the argument \<open>rs\<close>.
\<close>

section \<open>Model\<close>

datatype Val = Tpl json | Raw json

definition RAW_KEY :: string where "RAW_KEY = ''$raw''"

definition val_as_json :: "Val \<Rightarrow> json" where
  "val_as_json v = (case v of Tpl j \<Rightarrow> j | Raw j \<Rightarrow> j)"

definition classify :: "json \<Rightarrow> Val" where
  "classify v = (case v of
       JObject ms \<Rightarrow> if length ms = 1 then (case map_of ms RAW_KEY of Some inner \<Rightarrow> Raw inner | None \<Rightarrow> Tpl v) else Tpl v
     | _ \<Rightarrow> Tpl v)"

definition val_to_json :: "Val \<Rightarrow> json" where
  "val_to_json v = (case v of Tpl j \<Rightarrow> j | Raw j \<Rightarrow> JObject [(RAW_KEY, j)])"

primrec render_json :: "(string \<Rightarrow> json \<Rightarrow> string + string) \<Rightarrow> json \<Rightarrow> json \<Rightarrow> string + json" where
  "render_json rs ctx JNull = Inr JNull"
| "render_json rs ctx (JBool b) = Inr (JBool b)"
| "render_json rs ctx (JNumber n) = Inr (JNumber n)"
| "render_json rs ctx (JString s) = map_sum id JString (rs s ctx)"
| "render_json rs ctx (JArray vs) = map_sum id JArray (collect_results (map (render_json rs ctx) vs))"
| "render_json rs ctx (JObject ms) =
     map_sum id JObject (collect_results (map (\<lambda>(k, r). map_sum id (Pair k) r) (map (map_prod id (render_json rs ctx)) ms)))"

definition render_val :: "(string \<Rightarrow> json \<Rightarrow> string + string) \<Rightarrow> Val \<Rightarrow> json \<Rightarrow> string + json" where
  "render_val rs v ctx = (case v of Raw j \<Rightarrow> Inr j | Tpl j \<Rightarrow> render_json rs ctx j)"

section \<open>Properties\<close>

text \<open>Values survive a trip through a configuration file: a value read from JSON is written back as that JSON, and a
  written value is read back unless it is a template that looks like an escaped value, which reading never
  produces.\<close>

theorem val_round_trip:
  "val_to_json (classify j) = j
   \<and> (classify (val_to_json v) = v \<longleftrightarrow> (\<nexists>inner. v = Tpl (JObject [(RAW_KEY, inner)])))
   \<and> classify j \<noteq> Tpl (JObject [(RAW_KEY, inner)])"
proof -
  have "val_to_json (classify j) = j"
  proof (cases j)
    case (JObject ms)
    then show ?thesis
      by (auto simp: classify_def val_to_json_def length_Suc_conv split: option.splits if_splits)
  qed (simp_all add: classify_def val_to_json_def)
  moreover have "classify (val_to_json v) = v \<longleftrightarrow> (\<nexists>inner. v = Tpl (JObject [(RAW_KEY, inner)]))"
  proof (cases v)
    case (Tpl t)
    then show ?thesis
      by (cases t) (auto simp: classify_def val_to_json_def length_Suc_conv split: option.splits if_splits)
  qed (simp add: classify_def val_to_json_def)
  moreover have "classify j \<noteq> Tpl (JObject [(RAW_KEY, inner)])"
    by (auto simp: classify_def split: json.splits option.splits if_splits)
  ultimately show ?thesis by blast
qed

end
