(* ===== verification/Config.thy ===== *)
theory Config
  imports Pricing Template
begin

text \<open>
  The provider and grader blocks of a suite (\<open>config_provider.rs\<close>, \<open>config_request.rs\<close> and the types
  \<open>Grader\<close> and \<open>VerdictMode\<close> of \<open>config.rs\<close> in \<open>crates/domarinn-core/src\<close>). A \<open>BTreeMap\<close> is the list of its
  entries in key order, a \<open>ParamMap\<close> the members of a JSON object.
\<close>

section \<open>Model\<close>

subsection \<open>Requests (\<open>config_request.rs\<close>)\<close>

datatype AuthMode = ApiKey | Bearer | NoAuth

definition auth_header :: "AuthMode \<Rightarrow> string \<Rightarrow> (string \<times> string) option" where
  "auth_header mode credential = (case mode of
       ApiKey \<Rightarrow> Some (''x-api-key'', credential)
     | Bearer \<Rightarrow> Some (''authorization'', ''Bearer '' @ credential)
     | NoAuth \<Rightarrow> None)"

definition needs_credential :: "AuthMode \<Rightarrow> bool" where
  "needs_credential mode = (mode \<noteq> NoAuth)"

record RequestCfg =
  rf_auth :: "AuthMode option"
  rf_path :: "string option"
  rf_query :: "(string \<times> string) list"
  rf_headers :: "(string \<times> string) list"
  rf_body :: "json option"

definition request_is_empty :: "RequestCfg \<Rightarrow> bool" where
  "request_is_empty c \<longleftrightarrow> rf_auth c = None \<and> rf_path c = None \<and> rf_query c = [] \<and> rf_headers c = [] \<and> rf_body c = None"

subsection \<open>Providers (\<open>config_provider.rs\<close>)\<close>

datatype HttpMethod = Get | Post | Put | Patch | Delete | Head

datatype EnvNames = One string | Many "string list"

definition env_names :: "EnvNames \<Rightarrow> string list" where
  "env_names n = (case n of One s \<Rightarrow> [s] | Many ss \<Rightarrow> ss)"

type_synonym ParamMap = "(string \<times> json) list"

text \<open>The members the three vendor variants share.\<close>

record VendorCfg =
  ve_model :: string
  ve_base_url :: "string option"
  ve_api_key_env :: "EnvNames option"
  ve_params :: "ParamMap option"
  ve_pricing :: "PricingCfg option"
  ve_request :: "RequestCfg option"
  ve_cache_salt :: "string option"

datatype ProviderKind =
    KindExec "string list" "(string \<times> string) list" "u64 option" "string option"
  | KindAnthropic VendorCfg
  | KindOpenai VendorCfg
  | KindHttp string "HttpMethod option" "(string \<times> string) list" "json option" "string option"
  | KindEmbeddings VendorCfg

record ProviderCfg =
  pcf_id :: string
  pcf_label :: "string option"
  pcf_fallback :: "string list"
  pcf_fallback_only :: bool
  pcf_kind :: ProviderKind

definition is_embeddings :: "ProviderKind \<Rightarrow> bool" where
  "is_embeddings k = (case k of KindEmbeddings _ \<Rightarrow> True | _ \<Rightarrow> False)"

definition forms_cells :: "ProviderCfg \<Rightarrow> bool" where
  "forms_cells p \<longleftrightarrow> \<not> is_embeddings (pcf_kind p) \<and> \<not> pcf_fallback_only p"

subsection \<open>Graders (\<open>config.rs\<close>)\<close>

datatype VerdictMode = Forced | Auto

record Grader =
  gd_provider :: ProviderKind
  gd_template :: "string option"
  gd_verdict_mode :: "VerdictMode option"
  gd_timeout_ms :: "u64 option"
  gd_include_tool_calls :: "bool option"

end
