(* ===== verification/Asserts.thy ===== *)
theory Asserts
  imports Config
begin

text \<open>
  Assertion outcomes and the deterministic assertion kinds (\<open>assertion.rs\<close>, \<open>asserts.rs\<close>,
  \<open>jsonschema_cache.rs\<close> and the assertion types of \<open>config.rs\<close> in \<open>crates/domarinn-core/src\<close>).

  The template engine, the regular-expression and JSON-Schema crates and the text of a debug-printed
  list are arguments, gathered in the record \<open>libs\<close>. Code points above U+00FF are outside the
  string model, so the em dash of one message is written as a hyphen.
\<close>

section \<open>Model\<close>

subsection \<open>Configuration of an assertion (\<open>config.rs\<close>)\<close>

datatype TokenCount = Total | Billable

datatype AssertKind =
    Contains string
  | Icontains string
  | IcontainsAny "string list"
  | Regex string
  | Equals Val
  | StartsWith string
  | IsJson
  | ContainsJson "Val option"
  | Length "u64 option" "u64 option"
  | Jinja string
  | Exec "string list" "json option" "string option"
  | ToolCallKind string "Val option" "Val option"
  | LlmRubric string "Grader option" "f64 option" "ParamMap option"
  | Cost f64
  | Latency u64
  | Tokens u64 "TokenCount option"
  | Similar Val "f64 option"

record Assert =
  as_weight :: f64
  as_negate :: bool
  as_kind :: AssertKind

definition kind_name :: "AssertKind \<Rightarrow> string" where
  "kind_name k = (case k of
       Contains _ \<Rightarrow> ''contains'' | Icontains _ \<Rightarrow> ''icontains'' | IcontainsAny _ \<Rightarrow> ''icontains-any''
     | Regex _ \<Rightarrow> ''regex'' | Equals _ \<Rightarrow> ''equals'' | StartsWith _ \<Rightarrow> ''starts-with''
     | IsJson \<Rightarrow> ''is-json'' | ContainsJson _ \<Rightarrow> ''contains-json'' | Length _ _ \<Rightarrow> ''length''
     | Jinja _ \<Rightarrow> ''jinja'' | Exec _ _ _ \<Rightarrow> ''exec'' | LlmRubric _ _ _ _ \<Rightarrow> ''llm-rubric''
     | Cost _ \<Rightarrow> ''cost'' | Latency _ \<Rightarrow> ''latency'' | Tokens _ _ \<Rightarrow> ''tokens''
     | Similar _ _ \<Rightarrow> ''similar'' | ToolCallKind _ _ _ \<Rightarrow> ''tool-call'')"

subsection \<open>Outcomes (\<open>assertion.rs\<close>)\<close>

record AssertOutcome =
  ao_score :: f64
  ao_passed :: bool
  ao_reason :: string
  ao_details :: "json option"
  ao_unevaluable :: bool

definition outcome_pass :: "string \<Rightarrow> AssertOutcome" where
  "outcome_pass reason = \<lparr>ao_score = 1, ao_passed = True, ao_reason = reason, ao_details = None,
     ao_unevaluable = False\<rparr>"

definition outcome_fail :: "string \<Rightarrow> AssertOutcome" where
  "outcome_fail reason = \<lparr>ao_score = 0, ao_passed = False, ao_reason = reason, ao_details = None,
     ao_unevaluable = False\<rparr>"

definition outcome_with_details :: "AssertOutcome \<Rightarrow> json \<Rightarrow> AssertOutcome" where
  "outcome_with_details oc details = oc\<lparr>ao_details := Some details\<rparr>"

definition outcome_unevaluable :: "string \<Rightarrow> AssertOutcome" where
  "outcome_unevaluable reason = (outcome_fail reason)\<lparr>ao_unevaluable := True\<rparr>"

definition negated :: "AssertOutcome \<Rightarrow> bool \<Rightarrow> AssertOutcome" where
  "negated oc negate =
     (if \<not> negate \<or> ao_unevaluable oc then oc
      else \<lparr>ao_score = 1 - ao_score oc, ao_passed = (\<not> ao_passed oc),
            ao_reason = ''negated: '' @ ao_reason oc, ao_details = ao_details oc,
            ao_unevaluable = False\<rparr>)"

definition deny_vacuous_negated_pass ::
  "AssertOutcome \<Rightarrow> bool \<Rightarrow> EmptyReason option \<Rightarrow> AssertOutcome" where
  "deny_vacuous_negated_pass oc negate empty_reason =
     (case empty_reason of
        None \<Rightarrow> oc
      | Some reason \<Rightarrow>
          if \<not> negate \<or> \<not> ao_passed oc \<or> ao_unevaluable oc then oc
          else \<lparr>ao_score = 0, ao_passed = False,
                ao_reason = ''output was empty ('' @ reason @ ''): a negated assertion cannot pass vacuously - ''
                  @ ''nothing was produced for the forbidden content to be absent from'',
                ao_details = ao_details oc, ao_unevaluable = False\<rparr>)"

subsection \<open>Evaluation (\<open>asserts.rs\<close>)\<close>

record MetricCtx =
  mx_latency_ms :: u64
  mx_cost_usd :: "f64 option"
  mx_total_tokens :: "u64 option"
  mx_billable_tokens :: "u64 option"

record libs =
  lib_serde :: serde
  lib_regex :: "string \<Rightarrow> string + (string \<Rightarrow> bool)"
  lib_render_str :: "string \<Rightarrow> json \<Rightarrow> string + string"
  lib_eval_bool :: "string \<Rightarrow> json \<Rightarrow> string + bool"
  lib_validator_for :: "json \<Rightarrow> string + (json \<Rightarrow> (string \<times> string) list)"
  lib_debug :: "string list \<Rightarrow> string"

record EvalCtx =
  ev_libs :: libs
  ev_vars :: json
  ev_metrics :: MetricCtx
  ev_tool_calls :: "ToolCall list"
  ev_empty_reason :: "EmptyReason option"

definition is_local :: "AssertKind \<Rightarrow> bool" where
  "is_local kind = (case kind of Exec _ _ _ \<Rightarrow> False | LlmRubric _ _ _ _ \<Rightarrow> False | Similar _ _ \<Rightarrow> False
     | _ \<Rightarrow> True)"

definition guard_applies :: "AssertKind \<Rightarrow> Output \<Rightarrow> ToolCall list \<Rightarrow> bool" where
  "guard_applies kind out tool_calls =
     (tool_calls = [] \<and> classify_blank out \<noteq> None
      \<and> (case kind of Cost _ \<Rightarrow> False | Latency _ \<Rightarrow> False | Tokens _ _ \<Rightarrow> False | _ \<Rightarrow> True))"

definition negate_and_guard ::
  "AssertOutcome \<Rightarrow> Assert \<Rightarrow> Output \<Rightarrow> ToolCall list \<Rightarrow> EmptyReason option \<Rightarrow> AssertOutcome" where
  "negate_and_guard oc assert out tool_calls empty_reason =
     (let oc = negated oc (as_negate assert)
      in if guard_applies (as_kind assert) out tool_calls
         then deny_vacuous_negated_pass oc (as_negate assert) empty_reason
         else oc)"

text \<open>\<open>serde_json\<close> objects: lookup, and insertion that replaces in place or appends.\<close>

definition json_get :: "json \<Rightarrow> string \<Rightarrow> json option" where
  "json_get v k = (case v of JObject ms \<Rightarrow> map_of ms k | _ \<Rightarrow> None)"

fun members_insert :: "string \<Rightarrow> json \<Rightarrow> (string \<times> json) list \<Rightarrow> (string \<times> json) list" where
  "members_insert k v [] = [(k, v)]"
| "members_insert k v ((k', v') # ms) =
     (if k' = k then (k, v) # ms else (k', v') # members_insert k v ms)"

definition json_eq :: "json \<Rightarrow> json \<Rightarrow> bool" where
  "json_eq a b = (json_norm a = json_norm b)"

definition backtick :: "string \<Rightarrow> string" where
  "backtick s = ''`'' @ s @ ''`''"

definition quoted :: "string \<Rightarrow> string" where
  "quoted s = [CHR 0x22] @ s @ [CHR 0x22]"

definition cond :: "bool \<Rightarrow> string \<Rightarrow> string \<Rightarrow> AssertOutcome" where
  "cond p pass_reason fail_reason = (if p then outcome_pass pass_reason else outcome_fail fail_reason)"

definition MAX_REPORTED_ERRORS :: nat where "MAX_REPORTED_ERRORS = 10"

definition validate_against :: "libs \<Rightarrow> json \<Rightarrow> json \<Rightarrow> AssertOutcome" where
  "validate_against L inst schema =
     (case lib_validator_for L schema of
        Inl e \<Rightarrow> outcome_unevaluable (''invalid JSON Schema: '' @ e)
      | Inr validator \<Rightarrow>
          (let errors = sort_key fst (sort_key snd (validator inst))
           in case errors of
                [] \<Rightarrow> outcome_pass ''output contains JSON matching the schema''
              | (first_path, first_message) # others \<Rightarrow>
                  (let location = (if first_path = [] then [] else '' at '' @ backtick first_path);
                       more = (if others = [] then [] else '' (and '' @ show_nat (length others) @ '' more)'');
                       details = JObject [(''errors'', JArray (map (\<lambda>(path, message).
                           JObject [(''path'', JString path), (''message'', JString message)])
                           (take MAX_REPORTED_ERRORS errors))),
                         (''total'', JNumber (PosInt (length errors)))]
                   in outcome_with_details (outcome_fail
                        (''JSON does not match schema'' @ location @ '': '' @ first_message @ more)) details)))"

record CallMismatch =
  cm_reason :: string
  cm_unevaluable :: bool

fun args_match :: "serde \<Rightarrow> json \<Rightarrow> (string \<times> json) list \<Rightarrow> CallMismatch + unit" where
  "args_match sd arguments [] = Inr ()"
| "args_match sd arguments ((k, want) # expected) =
     (case json_get arguments k of
        None \<Rightarrow> Inl \<lparr>cm_reason = ''argument '' @ backtick k @ '' was not passed'', cm_unevaluable = False\<rparr>
      | Some got \<Rightarrow>
          if \<not> json_eq got want
          then Inl \<lparr>cm_reason = ''argument '' @ backtick k @ '' was '' @ to_string sd got @ '', expected ''
                      @ to_string sd want, cm_unevaluable = False\<rparr>
          else args_match sd arguments expected)"

definition tool_call_matches ::
  "EvalCtx \<Rightarrow> ToolCall \<Rightarrow> Val option \<Rightarrow> Val option \<Rightarrow> CallMismatch + unit" where
  "tool_call_matches ctx call args schema =
     (let L = ev_libs ctx;
          args_ok = (case args of
              None \<Rightarrow> Inr ()
            | Some a \<Rightarrow> (case render_val (lib_render_str L) a (ev_vars ctx) of
                  Inl e \<Rightarrow> Inl \<lparr>cm_reason = ''rendering expected args: '' @ e, cm_unevaluable = True\<rparr>
                | Inr (JObject expected) \<Rightarrow> args_match (lib_serde L) (tc_arguments call) expected
                | Inr _ \<Rightarrow> Inl \<lparr>cm_reason = backtick ''args'' @ '' must be an object'', cm_unevaluable = True\<rparr>))
      in case args_ok of
           Inl m \<Rightarrow> Inl m
         | Inr _ \<Rightarrow> (case schema of
               None \<Rightarrow> Inr ()
             | Some sc \<Rightarrow>
                 (let oc = validate_against L (tc_arguments call) (val_as_json sc)
                  in if \<not> ao_passed oc
                     then Inl \<lparr>cm_reason = ao_reason oc, cm_unevaluable = ao_unevaluable oc\<rparr>
                     else Inr ())))"

text \<open>The loop over the calls of one tool: the first match passes, the first call that cannot be
  judged makes the assertion unevaluable, otherwise the last mismatch is reported.\<close>

fun tool_call_loop ::
  "EvalCtx \<Rightarrow> string \<Rightarrow> Val option \<Rightarrow> Val option \<Rightarrow> nat \<Rightarrow> string \<Rightarrow> ToolCall list \<Rightarrow> AssertOutcome" where
  "tool_call_loop ctx name args schema n last_reason [] =
     outcome_fail (''tool '' @ backtick name @ '' was called '' @ show_nat n @ '' time(s), none matching: '' @ last_reason)"
| "tool_call_loop ctx name args schema n last_reason (call # calls) =
     (case tool_call_matches ctx call args schema of
        Inr _ \<Rightarrow> outcome_pass (''tool '' @ backtick name @ '' was called as expected'')
      | Inl m \<Rightarrow>
          if cm_unevaluable m
          then outcome_unevaluable (''tool '' @ backtick name @ '' assertion cannot be evaluated: '' @ cm_reason m)
          else tool_call_loop ctx name args schema n (cm_reason m) calls)"

definition assert_context :: "serde \<Rightarrow> Output \<Rightarrow> json \<Rightarrow> json" where
  "assert_context sd out vars =
     (let obj = (case vars of JObject ms \<Rightarrow> ms | _ \<Rightarrow> []);
          obj = members_insert ''output'' (JString (as_text sd out)) obj;
          obj = (case as_json sd out of None \<Rightarrow> obj | Some j \<Rightarrow> members_insert ''output_json'' j obj);
          obj = members_insert ''vars'' vars obj
      in JObject obj)"

text \<open>The scan of \<open>extract_json\<close>: the text up to the bracket that brings the depth back to 0.\<close>

fun balanced_span :: "char \<Rightarrow> char \<Rightarrow> int \<Rightarrow> string \<Rightarrow> string option" where
  "balanced_span op cl depth [] = None"
| "balanced_span op cl depth (b # bs) =
     (if b = op then map_option ((#) b) (balanced_span op cl (depth + 1) bs)
      else if b = cl then
        (if depth - 1 = 0 then Some [b] else map_option ((#) b) (balanced_span op cl (depth - 1) bs))
      else map_option ((#) b) (balanced_span op cl depth bs))"

definition extract_json :: "serde \<Rightarrow> string \<Rightarrow> json option" where
  "extract_json sd text =
     (case from_str sd (trim text) of
        Some v \<Rightarrow> Some v
      | None \<Rightarrow>
          (case dropWhile (\<lambda>c. c \<noteq> CHR ''{'' \<and> c \<noteq> CHR ''['') text of
             [] \<Rightarrow> None
           | op # rest \<Rightarrow>
               (let cl = (if op = CHR ''{'' then CHR ''}'' else CHR '']'')
                in case balanced_span op cl 0 (op # rest) of
                     None \<Rightarrow> None
                   | Some sp \<Rightarrow> from_str sd sp)))"


definition evaluate_kind :: "EvalCtx \<Rightarrow> AssertKind \<Rightarrow> Output \<Rightarrow> AssertOutcome" where
  "evaluate_kind ctx kind out =
     (let L = ev_libs ctx; sd = lib_serde L; text = as_text sd out; m = ev_metrics ctx
      in case kind of
           Contains v \<Rightarrow> cond (str_contains text v)
             (''output contains '' @ quoted v) (''output does not contain '' @ quoted v)
         | Icontains v \<Rightarrow> cond (str_contains (to_lowercase text) (to_lowercase v))
             (''output contains '' @ quoted v @ '' (case-insensitive)'')
             (''output does not contain '' @ quoted v @ '' (case-insensitive)'')
         | IcontainsAny vs \<Rightarrow>
             (case find (\<lambda>v. str_contains (to_lowercase text) (to_lowercase v)) vs of
                Some v \<Rightarrow> outcome_pass (''output contains '' @ quoted v)
              | None \<Rightarrow> outcome_fail (''output contains none of '' @ lib_debug L vs))
         | Regex v \<Rightarrow>
             (case lib_regex L v of
                Inr re \<Rightarrow> cond (re text) (''output matches /'' @ v @ ''/'') (''output does not match /'' @ v @ ''/'')
              | Inl e \<Rightarrow> outcome_unevaluable (''invalid regex /'' @ v @ ''/: '' @ e))
         | Equals v \<Rightarrow>
             (let rendered = (case render_val (lib_render_str L) v (ev_vars ctx) of Inr r \<Rightarrow> r | Inl _ \<Rightarrow> val_as_json v);
                  matches = (case rendered of
                      JString s \<Rightarrow> text = s
                    | other \<Rightarrow> (case as_json sd out of None \<Rightarrow> False | Some j \<Rightarrow> json_eq j other))
              in cond matches ''output equals expected'' ''output does not equal expected'')
         | StartsWith v \<Rightarrow> cond (starts_with text v)
             (''output starts with '' @ quoted v) (''output does not start with '' @ quoted v)
         | IsJson \<Rightarrow> cond (as_json sd out \<noteq> None) ''output is valid JSON'' ''output is not valid JSON''
         | ContainsJson schema \<Rightarrow>
             (case extract_json sd text of
                None \<Rightarrow> outcome_fail ''output contains no JSON value''
              | Some found \<Rightarrow>
                  (case schema of
                     None \<Rightarrow> outcome_pass ''output contains JSON''
                   | Some sc \<Rightarrow> validate_against L found (val_as_json sc)))
         | ToolCallKind name args schema \<Rightarrow>
             (let matching = filter (\<lambda>c. tc_name c = name) (ev_tool_calls ctx)
              in if matching = [] then
                   (let called = (if ev_tool_calls ctx = [] then ''no tools were called''
                                  else ''called: '' @ join '', '' (map tc_name (ev_tool_calls ctx)))
                    in outcome_fail (''tool '' @ backtick name @ '' was not called ('' @ called @ '')''))
                 else tool_call_loop ctx name args schema (length matching) [] matching)
         | Length mn mx \<Rightarrow>
             (let len = length text
              in case (mn, mx) of
                   (Some lo, _) \<Rightarrow>
                     if len < lo then outcome_fail (''length '' @ show_nat len @ '' < min '' @ show_nat lo)
                     else (case mx of
                         Some hi \<Rightarrow> if len > hi
                           then outcome_fail (''length '' @ show_nat len @ '' > max '' @ show_nat hi)
                           else outcome_pass (''length '' @ show_nat len @ '' within bounds'')
                       | None \<Rightarrow> outcome_pass (''length '' @ show_nat len @ '' within bounds''))
                 | (None, Some hi) \<Rightarrow>
                     if len > hi then outcome_fail (''length '' @ show_nat len @ '' > max '' @ show_nat hi)
                     else outcome_pass (''length '' @ show_nat len @ '' within bounds'')
                 | (None, None) \<Rightarrow> outcome_pass (''length '' @ show_nat len @ '' within bounds''))
         | Jinja v \<Rightarrow>
             (case lib_eval_bool L v (assert_context sd out (ev_vars ctx)) of
                Inr b \<Rightarrow> if b then outcome_pass (''expression '' @ backtick v @ '' is true'')
                         else outcome_fail (''expression '' @ backtick v @ '' is false'')
              | Inl e \<Rightarrow> outcome_unevaluable (''expression '' @ backtick v @ '' errored: '' @ e))
         | Cost mx \<Rightarrow>
             (case mx_cost_usd m of
                Some cost \<Rightarrow> cond (cost \<le> mx)
                  (''cost $'' @ show_fixed 6 cost @ '' <= $'' @ show_fixed 6 mx)
                  (''cost $'' @ show_fixed 6 cost @ '' > $'' @ show_fixed 6 mx)
              | None \<Rightarrow> outcome_pass ''cost not reported; budget not enforced'')
         | Latency mx \<Rightarrow> cond (mx_latency_ms m \<le> mx)
             (''latency '' @ show_nat (mx_latency_ms m) @ ''ms <= '' @ show_nat mx @ ''ms'')
             (''latency '' @ show_nat (mx_latency_ms m) @ ''ms > '' @ show_nat mx @ ''ms'')
         | Tokens mx cnt \<Rightarrow>
             (let billable = (cnt = Some Billable);
                  measured = (if billable then mx_billable_tokens m else mx_total_tokens m);
                  label = (if billable then ''billable tokens'' else ''tokens'')
              in case measured of
                   Some tokens \<Rightarrow> cond (tokens \<le> mx)
                     (label @ '' '' @ show_nat tokens @ '' <= '' @ show_nat mx)
                     (label @ '' '' @ show_nat tokens @ '' > '' @ show_nat mx)
                 | None \<Rightarrow> outcome_pass ''tokens not reported; budget not enforced'')
         | Exec _ _ _ \<Rightarrow> outcome_unevaluable ''internal: non-local assert routed to local path''
         | LlmRubric _ _ _ _ \<Rightarrow> outcome_unevaluable ''internal: non-local assert routed to local path''
         | Similar _ _ \<Rightarrow> outcome_unevaluable ''internal: non-local assert routed to local path'')"

definition evaluate_local :: "EvalCtx \<Rightarrow> Assert \<Rightarrow> Output \<Rightarrow> AssertOutcome option" where
  "evaluate_local ctx assert out =
     (if \<not> is_local (as_kind assert) then None
      else Some (negate_and_guard (evaluate_kind ctx (as_kind assert) out) assert out
             (ev_tool_calls ctx) (ev_empty_reason ctx)))"

subsection \<open>The compiled-schema cache (\<open>jsonschema_cache.rs\<close>)\<close>

text \<open>\<open>SchemaCache\<close>: compiled schemas by the canonical text of the schema.\<close>

type_synonym compiled = "string + (json \<Rightarrow> (string \<times> string) list)"
type_synonym SchemaCache = "string \<rightharpoonup> compiled"

definition schema_cache_get ::
  "hashing \<Rightarrow> libs \<Rightarrow> SchemaCache \<Rightarrow> json \<Rightarrow> compiled \<times> SchemaCache" where
  "schema_cache_get h L cache schema =
     (let key = canonical_json (num_text h) (str_text h) schema
      in case cache key of
           Some c \<Rightarrow> (c, cache)
         | None \<Rightarrow> (let c = lib_validator_for L schema in (c, cache(key \<mapsto> c))))"

section \<open>Outcomes are well formed\<close>

text \<open>A deterministic outcome scores 1 when it passes and 0 when it fails, and one that could not be
  evaluated is a failure.\<close>

definition outcome_wf :: "AssertOutcome \<Rightarrow> bool" where
  "outcome_wf oc \<longleftrightarrow> ao_score oc = (if ao_passed oc then 1 else 0) \<and> (ao_unevaluable oc \<longrightarrow> \<not> ao_passed oc)"

lemma outcome_wf_intros [simp]:
  "outcome_wf (outcome_pass r)" "outcome_wf (outcome_fail r)" "outcome_wf (outcome_unevaluable r)"
  "outcome_wf oc \<Longrightarrow> outcome_wf (outcome_with_details oc d)"
  by (simp_all add: outcome_wf_def outcome_pass_def outcome_fail_def outcome_unevaluable_def
      outcome_with_details_def)

lemma outcome_wf_cond [simp]: "outcome_wf (cond p a b)"
  by (simp add: cond_def)

lemma outcome_wf_negated: "outcome_wf oc \<Longrightarrow> outcome_wf (negated oc n)"
  by (auto simp: outcome_wf_def negated_def)

lemma outcome_wf_deny: "outcome_wf oc \<Longrightarrow> outcome_wf (deny_vacuous_negated_pass oc n e)"
  by (auto simp: outcome_wf_def deny_vacuous_negated_pass_def split: option.splits)

lemma outcome_wf_negate_and_guard:
  "outcome_wf oc \<Longrightarrow> outcome_wf (negate_and_guard oc a out tcs e)"
  by (simp add: negate_and_guard_def Let_def outcome_wf_negated outcome_wf_deny)

lemma outcome_wf_validate [simp]: "outcome_wf (validate_against L inst schema)"
  by (simp add: validate_against_def Let_def split: sum.split list.split prod.split)

lemma outcome_wf_tool_call_loop [simp]: "outcome_wf (tool_call_loop ctx name args schema n r calls)"
  by (induction calls arbitrary: r) (simp_all split: sum.split)

lemma outcome_wf_evaluate_kind: "outcome_wf (evaluate_kind ctx kind out)"
  by (cases kind) (simp_all add: evaluate_kind_def Let_def split: sum.split option.split)


section \<open>Properties\<close>

text \<open>Deterministic assertions always produce a usable outcome: exactly the local kinds are evaluated,
  a passing assertion scores 1 and a failing one 0, and an assertion that could not be evaluated
  (bad regular expression, bad schema, template error) is a failure, also under \<open>negate\<close>.\<close>

theorem evaluate_local_outcome:
  "(evaluate_local ctx a out = None \<longleftrightarrow> \<not> is_local (as_kind a))
   \<and> (\<forall>oc. evaluate_local ctx a out = Some oc \<longrightarrow>
        ao_score oc = (if ao_passed oc then 1 else 0)
        \<and> (ao_unevaluable oc \<longrightarrow> \<not> ao_passed oc)
        \<and> (ao_unevaluable (evaluate_kind ctx (as_kind a) out) \<longrightarrow> ao_unevaluable oc \<and> \<not> ao_passed oc))"
proof -
  let ?k = "evaluate_kind ctx (as_kind a) out"
  have wf: "outcome_wf (negate_and_guard ?k a out (ev_tool_calls ctx) (ev_empty_reason ctx))"
    by (rule outcome_wf_negate_and_guard [OF outcome_wf_evaluate_kind])
  have "negate_and_guard ?k a out (ev_tool_calls ctx) (ev_empty_reason ctx) = ?k" if "ao_unevaluable ?k"
    using that by (simp add: negate_and_guard_def negated_def deny_vacuous_negated_pass_def Let_def
        split: option.split)
  with wf show ?thesis by (auto simp: evaluate_local_def outcome_wf_def)
qed

definition quiet_libs :: libs where
  "quiet_libs = \<lparr>lib_serde = \<lparr>to_string = (\<lambda>_. []), from_str = (\<lambda>_. None), to_vec_len = (\<lambda>_. Some 0)\<rparr>,
     lib_regex = (\<lambda>_. Inl ''unclosed group''), lib_render_str = (\<lambda>t _. Inr t),
     lib_eval_bool = (\<lambda>_ _. Inr True), lib_validator_for = (\<lambda>_. Inr (\<lambda>_. [])), lib_debug = (\<lambda>_. [])\<rparr>"

definition quiet_ctx :: "EmptyReason option \<Rightarrow> EvalCtx" where
  "quiet_ctx er = \<lparr>ev_libs = quiet_libs, ev_vars = JObject [],
     ev_metrics = \<lparr>mx_latency_ms = 0, mx_cost_usd = None, mx_total_tokens = None, mx_billable_tokens = None\<rparr>,
     ev_tool_calls = [], ev_empty_reason = er\<rparr>"

theorem evaluate_local_outcome_witness:
  "\<exists>oc. evaluate_local (quiet_ctx None) \<lparr>as_weight = 1, as_negate = True, as_kind = Regex ''(''\<rparr> (Text ''x'') = Some oc
     \<and> ao_unevaluable oc \<and> \<not> ao_passed oc"
proof -
  let ?a = "\<lparr>as_weight = 1, as_negate = True, as_kind = Regex ''(''\<rparr>"
  have "ao_unevaluable (evaluate_kind (quiet_ctx None) (as_kind ?a) (Text ''x''))"
    by (simp add: evaluate_kind_def quiet_ctx_def quiet_libs_def outcome_unevaluable_def Let_def)
  moreover obtain oc where oc: "evaluate_local (quiet_ctx None) ?a (Text ''x'') = Some oc"
    by (simp add: evaluate_local_def is_local_def)
  ultimately have "ao_unevaluable oc \<and> \<not> ao_passed oc"
    using evaluate_local_outcome [THEN conjunct2, rule_format, OF oc] by blast
  with oc show ?thesis by blast
qed

text \<open>C39: A negated assertion cannot pass on nothing. When the response is known to be empty (an empty
  reason is recorded, the output is blank and no tool was called), a negated deterministic assertion
  other than a cost, latency or token bound fails with score 0.\<close>

theorem negated_assert_never_passes_vacuously:
  assumes "as_negate a" "is_local (as_kind a)"
    and "ev_empty_reason ctx = Some reason" "ev_tool_calls ctx = []" "classify_blank out \<noteq> None"
    and "\<And>m. as_kind a \<noteq> Cost m" "\<And>m. as_kind a \<noteq> Latency m" "\<And>m c. as_kind a \<noteq> Tokens m c"
  shows "\<exists>oc. evaluate_local ctx a out = Some oc \<and> \<not> ao_passed oc \<and> ao_score oc = 0"
proof -
  have guard: "guard_applies (as_kind a) out (ev_tool_calls ctx)"
    using assms(4-8) by (auto simp: guard_applies_def split: AssertKind.split)
  let ?n = "negated (evaluate_kind ctx (as_kind a) out) True"
  have "outcome_wf ?n" by (rule outcome_wf_negated [OF outcome_wf_evaluate_kind])
  then have "\<not> ao_passed (deny_vacuous_negated_pass ?n True (Some reason))
      \<and> ao_score (deny_vacuous_negated_pass ?n True (Some reason)) = 0"
    by (auto simp: deny_vacuous_negated_pass_def outcome_wf_def)
  then show ?thesis
    using assms(1-3) guard by (auto simp: evaluate_local_def negate_and_guard_def Let_def)
qed

theorem negated_assert_never_passes_vacuously_witness:
  "\<exists>oc. evaluate_local (quiet_ctx (Some REFUSAL)) \<lparr>as_weight = 1, as_negate = True, as_kind = Contains ''x''\<rparr> (Text [])
      = Some oc \<and> \<not> ao_passed oc \<and> ao_score oc = 0"
  by (rule negated_assert_never_passes_vacuously [where reason = REFUSAL])
    (simp_all add: is_local_def quiet_ctx_def classify_blank_def trim_def then_some_def)

text \<open>Where the empty-output guard does not apply, \<open>negate\<close> is exact: of an assertion and its negation
  exactly one passes and their scores add up to 1, unless the check could not be evaluated, and then
  neither passes.\<close>

theorem negate_is_complement:
  assumes "evaluate_local ctx (a\<lparr>as_negate := False\<rparr>) out = Some plain"
    and "evaluate_local ctx (a\<lparr>as_negate := True\<rparr>) out = Some flipped"
    and "\<not> guard_applies (as_kind a) out (ev_tool_calls ctx) \<or> ev_empty_reason ctx = None"
  shows "if ao_unevaluable plain then flipped = plain \<and> \<not> ao_passed flipped
    else ao_passed flipped = (\<not> ao_passed plain) \<and> ao_score flipped + ao_score plain = 1"
proof -
  let ?k = "evaluate_kind ctx (as_kind a) out"
  have "plain = ?k"
    using assms(1) by (auto simp: evaluate_local_def negate_and_guard_def negated_def
        deny_vacuous_negated_pass_def Let_def split: if_splits option.splits)
  moreover have "flipped = negated ?k True"
    using assms(2,3) by (auto simp: evaluate_local_def negate_and_guard_def
        deny_vacuous_negated_pass_def Let_def split: if_splits)
  ultimately show ?thesis using outcome_wf_evaluate_kind [of ctx "as_kind a" out]
    by (auto simp: negated_def outcome_wf_def)
qed

theorem negate_is_complement_witness:
  "ao_passed (the (evaluate_local (quiet_ctx None) \<lparr>as_weight = 1, as_negate = True, as_kind = IsJson\<rparr> (Text ''x'')))"
proof -
  let ?a = "\<lparr>as_weight = 1, as_negate = True, as_kind = IsJson\<rparr>"
  let ?e = "\<lambda>n. evaluate_local (quiet_ctx None) (?a\<lparr>as_negate := n\<rparr>) (Text ''x'')"
  have plain: "the (?e False) = outcome_fail ''output is not valid JSON''"
    by (simp add: evaluate_local_def is_local_def negate_and_guard_def negated_def guard_applies_def
        evaluate_kind_def quiet_ctx_def quiet_libs_def as_json_def cond_def deny_vacuous_negated_pass_def Let_def)
  have some: "?e n = Some (the (?e n))" for n by (simp add: evaluate_local_def is_local_def)
  have "quiet_ctx None = quiet_ctx None" and "ev_empty_reason (quiet_ctx None) = None"
    by (simp_all add: quiet_ctx_def)
  then show ?thesis
    using negate_is_complement [OF some [of False] some [of True]]
    by (simp only: plain) (simp add: outcome_fail_def)
qed

definition schema_cache_inv :: "hashing \<Rightarrow> libs \<Rightarrow> SchemaCache \<Rightarrow> bool" where
  "schema_cache_inv h L cache \<longleftrightarrow> (\<forall>key c. cache key = Some c \<longrightarrow>
     (\<exists>s. json_wf s \<and> key = canonical_json (num_text h) (str_text h) s \<and> c = lib_validator_for L s))"

text \<open>Caching compiled schemas is invisible. If compiling a schema does not depend on the order of object
  members, then from any cache that holds only compilations, looking a schema up gives what compiling
  it would, and the new cache again holds only compilations.\<close>

theorem schema_cache_transparent:
  assumes "json_text_ok (num_text h) (str_text h)"
    and "\<And>s s'. json_norm s = json_norm s' \<Longrightarrow> lib_validator_for L s = lib_validator_for L s'"
    and "schema_cache_inv h L cache" "json_wf schema"
  shows "fst (schema_cache_get h L cache schema) = lib_validator_for L schema
    \<and> schema_cache_inv h L (snd (schema_cache_get h L cache schema))"
proof (cases "cache (canonical_json (num_text h) (str_text h) schema)")
  case None
  then show ?thesis using assms(3,4)
    by (auto simp: schema_cache_get_def schema_cache_inv_def Let_def)
next
  case (Some c)
  then obtain s where "json_wf s" "c = lib_validator_for L s"
      "canonical_json (num_text h) (str_text h) schema = canonical_json (num_text h) (str_text h) s"
    using assms(3) by (auto simp: schema_cache_inv_def)
  moreover from this have "json_norm schema = json_norm s"
    using write_decode [OF assms(1,4), of s "[]" "[]"] by (simp add: canonical_json_def)
  then have "lib_validator_for L schema = lib_validator_for L s" by (rule assms(2))
  ultimately show ?thesis using Some assms(3) by (simp add: schema_cache_get_def)
qed

theorem schema_cache_transparent_witness:
  "fst (schema_cache_get length_hashing quiet_libs Map.empty (JBool True)) = lib_validator_for quiet_libs (JBool True)"
  using schema_cache_transparent [of length_hashing quiet_libs Map.empty "JBool True"]
  by (simp add: length_hashing_def unary_text_ok schema_cache_inv_def quiet_libs_def)

definition brace_in_string :: string where
  "brace_in_string = ''{'' @ quoted ''a'' @ '':'' @ quoted ''}'' @ ''}''"

text \<open>The bracket count of \<open>extract_json\<close> does not know strings. For every JSON parser that accepts
  \<open>{"a":"}"}\<close> but neither the prose around it nor the unterminated \<open>{"a":"}\<close>, the object inside the
  prose is not found: \<open>contains-json\<close> fails on an output that does contain JSON.\<close>

theorem extract_json_misses_brace_in_string:
  assumes "from_str sd (''ok '' @ brace_in_string @ ''.'') = None"
    and "from_str sd (''{'' @ quoted ''a'' @ '':'' @ [CHR 0x22] @ ''}'') = None"
    and "from_str sd brace_in_string = Some v"
  shows "extract_json sd (''ok '' @ brace_in_string @ ''.'') = None
    \<and> str_contains (''ok '' @ brace_in_string @ ''.'') brace_in_string"
proof -
  have "trim (''ok '' @ brace_in_string @ ''.'') = ''ok '' @ brace_in_string @ ''.''"
    by (simp add: trim_def brace_in_string_def quoted_def is_whitespace_def)
  moreover have "str_contains (''ok '' @ brace_in_string @ ''.'') brace_in_string"
    by (simp only: str_contains_iff) blast
  ultimately show ?thesis using assms(1,2)
    by (simp add: extract_json_def) (simp add: brace_in_string_def quoted_def)
qed

theorem extract_json_misses_brace_in_string_witness:
  "extract_json \<lparr>to_string = (\<lambda>_. []), from_str = (\<lambda>s. if s = brace_in_string then Some JNull else None),
      to_vec_len = (\<lambda>_. None)\<rparr> (''ok '' @ brace_in_string @ ''.'') = None"
  using extract_json_misses_brace_in_string [of "\<lparr>to_string = (\<lambda>_. []),
      from_str = (\<lambda>s. if s = brace_in_string then Some JNull else None), to_vec_len = (\<lambda>_. None)\<rparr>" JNull]
  by (simp add: brace_in_string_def quoted_def)

end
