(* ===== verification/Cache.thy ===== *)
theory Cache
  imports Asserts
begin

text \<open>
  Cached answers and cache backends: the entry types, verdicts and purge filter of
  \<open>crates/domarinn-core/src/cache.rs\<close>, the trait \<open>CacheBackend\<close> as a record of functions on the
  backend's state, and its two combinators, \<open>LayeredCache\<close> and \<open>ReadOnlyCache\<close>
  (\<open>crates/domarinn-cache/src/layered.rs\<close>, \<open>readonly.rs\<close>). The contract a backend keeps is the locale
  \<open>cache_backend\<close>; the combinators keep it for whatever backends they are built from.
\<close>

section \<open>Model\<close>

subsection \<open>Verdicts\<close>

datatype GradedVerdict =
    RubricVerdict f64 bool string
  | Similarity f64
  | ExecVerdict bool f64 string "json option"

definition to_outcome :: "GradedVerdict \<Rightarrow> f64 option \<Rightarrow> AssertOutcome" where
  "to_outcome v threshold = (case v of
       RubricVerdict score pass reasoning \<Rightarrow>
         \<lparr>ao_score = score, ao_passed = (case threshold of Some t \<Rightarrow> score \<ge> t | None \<Rightarrow> pass),
          ao_reason = reasoning, ao_details = None, ao_unevaluable = False\<rparr>
     | Similarity cosine \<Rightarrow>
         (let threshold = unwrap_or threshold (8/10)
          in \<lparr>ao_score = min (max ((cosine + 1) / 2) 0) 1, ao_passed = (cosine \<ge> threshold),
              ao_reason = (if cosine \<ge> threshold
                then ''cosine similarity '' @ show_fixed 3 cosine @ '' >= '' @ show_fixed 3 threshold
                else ''cosine similarity '' @ show_fixed 3 cosine @ '' < '' @ show_fixed 3 threshold),
              ao_details = None, ao_unevaluable = False\<rparr>)
     | ExecVerdict pass score reason details \<Rightarrow>
         \<lparr>ao_score = score, ao_passed = pass, ao_reason = reason, ao_details = details, ao_unevaluable = False\<rparr>)"

record Graded =
  gr_verdict :: GradedVerdict
  gr_usage :: "TokenUsage option"
  gr_cost_usd :: "f64 option"
  gr_model :: "string option"
  gr_cached :: bool

definition unpriced :: "GradedVerdict \<Rightarrow> Graded" where
  "unpriced v = \<lparr>gr_verdict = v, gr_usage = None, gr_cost_usd = None, gr_model = None, gr_cached = False\<rparr>"

subsection \<open>Entries\<close>

type_synonym EntryKind = string
type_synonym date_time = int

definition PROVIDER :: EntryKind where "PROVIDER = ''provider''"
definition JUDGE :: EntryKind where "JUDGE = ''judge''"
definition EMBEDDING :: EntryKind where "EMBEDDING = ''embedding''"
definition EXEC_ASSERT :: EntryKind where "EXEC_ASSERT = ''exec_assert''"
definition SIMILAR_VERDICT :: EntryKind where "SIMILAR_VERDICT = ''similar_verdict''"

lemmas entry_kind_defs = PROVIDER_def JUDGE_def EMBEDDING_def EXEC_ASSERT_def SIMILAR_VERDICT_def

record CacheEntry =
  ce_created_at :: date_time
  ce_kind :: "EntryKind option"
  ce_provider_fingerprint :: "json option"
  ce_request :: "json option"
  ce_output :: Output
  ce_usage :: "TokenUsage option"
  ce_cost_usd :: "f64 option"
  ce_stop_reason :: "string option"
  ce_raw :: "json option"
  ce_attempts :: "u32 option"
  ce_provider_latency_ms :: "u64 option"
  ce_model :: "string option"
  ce_program_digest :: "string option"
  ce_address :: "string option"
  ce_verdict :: "GradedVerdict option"
  ce_reasoning :: "string option"
  ce_empty_reason :: "EmptyReason option"
  ce_tool_calls :: "ToolCall list"
  ce_domarinn_version :: string

definition as_str :: "json \<Rightarrow> string option" where
  "as_str v = (case v of JString s \<Rightarrow> Some s | _ \<Rightarrow> None)"

text \<open>\<open>Value::pointer\<close> along object keys.\<close>

fun json_path :: "string list \<Rightarrow> json \<Rightarrow> json option" where
  "json_path [] v = Some v"
| "json_path (k # ks) v = Option.bind (json_get v k) (json_path ks)"

definition exec_request_kind :: "json \<Rightarrow> EntryKind option" where
  "exec_request_kind request =
     (if Option.bind (json_get request ''transport'') as_str = Some ''exec'' then
        (let k = Option.bind (json_path [''stdin'', ''domarinn'', ''kind''] request) as_str
         in if k = Some ''provider'' then Some PROVIDER
            else if k = Some ''assert'' then Some EXEC_ASSERT
            else None)
      else None)"

definition inferred_kind :: "CacheEntry \<Rightarrow> EntryKind option" where
  "inferred_kind e =
     (case ce_kind e of Some k \<Rightarrow> Some k
      | None \<Rightarrow> (case ce_verdict e of
          Some (RubricVerdict _ _ _) \<Rightarrow> Some JUDGE
        | Some (ExecVerdict _ _ _ _) \<Rightarrow> Some EXEC_ASSERT
        | Some (Similarity _) \<Rightarrow> Some SIMILAR_VERDICT
        | None \<Rightarrow> (case Option.bind (ce_request e) exec_request_kind of
            Some k \<Rightarrow> Some k
          | None \<Rightarrow>
              if (case ce_output e of Json (JObject ms) \<Rightarrow> length ms = 1 \<and> map_of ms ''dims'' \<noteq> None | _ \<Rightarrow> False)
              then Some EMBEDDING
              else if ce_attempts e \<noteq> None \<or> ce_provider_latency_ms e \<noteq> None then Some PROVIDER
              else None)))"

datatype CacheMode = ReadWrite | Disabled | ReadOnlyStrict

record CacheStats =
  cs_entries :: u64
  cs_total_bytes :: u64
  cs_hits :: u64
  cs_misses :: u64

definition default_stats :: CacheStats where
  "default_stats = \<lparr>cs_entries = 0, cs_total_bytes = 0, cs_hits = 0, cs_misses = 0\<rparr>"

record PurgeFilter =
  pf_older_than :: "int option"
  pf_newer_than :: "int option"
  pf_empty_reason :: "EmptyReason list"
  pf_model :: "string option"
  pf_kind :: "string option"

definition is_default :: "PurgeFilter \<Rightarrow> bool" where
  "is_default f = (pf_older_than f = None \<and> pf_newer_than f = None \<and> pf_empty_reason f = []
     \<and> pf_model f = None \<and> pf_kind f = None)"

definition is_age_only :: "PurgeFilter \<Rightarrow> bool" where
  "is_age_only f = (pf_empty_reason f = [] \<and> pf_model f = None \<and> pf_kind f = None)"

definition matches_entry :: "PurgeFilter \<Rightarrow> CacheEntry \<Rightarrow> bool" where
  "matches_entry f e =
     (let reason_ok = (pf_empty_reason f = [] \<or> (case ce_empty_reason e of None \<Rightarrow> False
            | Some have \<Rightarrow> list_ex (\<lambda>want. clamped want = clamped have) (pf_empty_reason f)));
          model_ok = (case pf_model f of None \<Rightarrow> True | Some want \<Rightarrow> ce_model e = Some want);
          kind_ok = (case pf_kind f of None \<Rightarrow> True | Some want \<Rightarrow> inferred_kind e = Some want)
      in reason_ok \<and> model_ok \<and> kind_ok)"

subsection \<open>Backends\<close>

type_synonym CacheError = string

text \<open>The trait \<open>CacheBackend\<close>: its methods on the state \<open>'w\<close> of the backend.\<close>

record 'w CacheBackend =
  be_get :: "CacheKey \<Rightarrow> 'w \<Rightarrow> (CacheError + CacheEntry option) \<times> 'w"
  be_put :: "CacheKey \<Rightarrow> CacheEntry \<Rightarrow> 'w \<Rightarrow> (CacheError + unit) \<times> 'w"
  be_stats :: "'w \<Rightarrow> (CacheError + CacheStats) \<times> 'w"
  be_purge :: "PurgeFilter \<Rightarrow> 'w \<Rightarrow> (CacheError + u64) \<times> 'w"

definition layered_get ::
  "'a CacheBackend \<Rightarrow> 'b CacheBackend \<Rightarrow> CacheKey \<Rightarrow> 'a \<times> 'b \<Rightarrow> (CacheError + CacheEntry option) \<times> 'a \<times> 'b" where
  "layered_get local remote key w =
     (let (lw, rw) = w; (found, lw) = be_get local key lw
      in case found of
           Inl e \<Rightarrow> (Inl e, lw, rw)
         | Inr (Some entry) \<Rightarrow> (Inr (Some entry), lw, rw)
         | Inr None \<Rightarrow>
             (let (answer, rw) = be_get remote key rw
              in case answer of
                   Inr (Some entry) \<Rightarrow> (let (_, lw) = be_put local key entry lw in (Inr (Some entry), lw, rw))
                 | Inr None \<Rightarrow> (Inr None, lw, rw)
                 | Inl _ \<Rightarrow> (Inr None, lw, rw)))"

definition layered_put ::
  "'a CacheBackend \<Rightarrow> 'b CacheBackend \<Rightarrow> CacheKey \<Rightarrow> CacheEntry \<Rightarrow> 'a \<times> 'b \<Rightarrow> (CacheError + unit) \<times> 'a \<times> 'b" where
  "layered_put local remote key entry w =
     (let (lw, rw) = w; (stored, lw) = be_put local key entry lw
      in case stored of
           Inl e \<Rightarrow> (Inl e, lw, rw)
         | Inr _ \<Rightarrow> (let (_, rw) = be_put remote key entry rw in (Inr (), lw, rw)))"

definition LayeredCache :: "'a CacheBackend \<Rightarrow> 'b CacheBackend \<Rightarrow> ('a \<times> 'b) CacheBackend" where
  "LayeredCache local remote =
     \<lparr>be_get = layered_get local remote, be_put = layered_put local remote,
      be_stats = (\<lambda>(lw, rw). let (s, lw) = be_stats local lw in (s, lw, rw)),
      be_purge = (\<lambda>filt (lw, rw). let (n, lw) = be_purge local filt lw in (n, lw, rw))\<rparr>"

definition ReadOnlyCache :: "'a CacheBackend \<Rightarrow> 'a CacheBackend" where
  "ReadOnlyCache inner =
     \<lparr>be_get = be_get inner, be_put = (\<lambda>_ _ w. (Inr (), w)), be_stats = be_stats inner,
      be_purge = (\<lambda>_ w. (Inr 0, w))\<rparr>"

section \<open>The contract of a backend\<close>

definition valid_key :: "CacheKey \<Rightarrow> bool" where
  "valid_key k = (case k of CacheKey s \<Rightarrow> is_valid s)"

text \<open>
  \<open>stored w k\<close> is the set of entries the backend holds for \<open>k\<close> in any of its tiers. A hit is one of
  them, and the only operation that adds an entry is \<open>put\<close>, under its own key. Keys are the ones
  \<open>CacheKey::is_valid\<close> accepts.
\<close>

locale cache_backend =
  fixes be :: "'w CacheBackend" and stored :: "'w \<Rightarrow> CacheKey \<Rightarrow> CacheEntry set"
  assumes get_hit: "valid_key k \<Longrightarrow> be_get be k w = (Inr (Some e), w') \<Longrightarrow> e \<in> stored w k"
    and get_keeps: "valid_key k \<Longrightarrow> valid_key k' \<Longrightarrow> be_get be k w = (r, w') \<Longrightarrow> stored w' k' \<subseteq> stored w k'"
    and put_adds: "valid_key k \<Longrightarrow> valid_key k' \<Longrightarrow> be_put be k e w = (p, w')
      \<Longrightarrow> stored w' k' \<subseteq> stored w k' \<union> (if k' = k then {e} else {})"
    and stats_keeps: "valid_key k' \<Longrightarrow> be_stats be w = (s, w') \<Longrightarrow> stored w' k' \<subseteq> stored w k'"
    and purge_removes: "valid_key k' \<Longrightarrow> be_purge be filt w = (n, w') \<Longrightarrow> stored w' k' \<subseteq> stored w k'"

text \<open>Sequences of operations, as any interleaving of callers produces them.\<close>

datatype cache_op = Get CacheKey | Put CacheKey CacheEntry | Stats | Purge PurgeFilter

fun run_op :: "'w CacheBackend \<Rightarrow> cache_op \<Rightarrow> 'w \<Rightarrow> 'w" where
  "run_op be (Get k) w = snd (be_get be k w)"
| "run_op be (Put k e) w = snd (be_put be k e w)"
| "run_op be Stats w = snd (be_stats be w)"
| "run_op be (Purge f) w = snd (be_purge be f w)"

fun op_key :: "cache_op \<Rightarrow> CacheKey option" where
  "op_key (Get k) = Some k"
| "op_key (Put k e) = Some k"
| "op_key _ = None"

definition puts_of :: "CacheKey \<Rightarrow> cache_op list \<Rightarrow> CacheEntry set" where
  "puts_of k ops = {e. Put k e \<in> set ops}"

definition ops_valid :: "cache_op list \<Rightarrow> bool" where
  "ops_valid ops = list_all (\<lambda>c. case op_key c of Some k \<Rightarrow> valid_key k | None \<Rightarrow> True) ops"

context cache_backend
begin

lemma run_op_stored:
  assumes "ops_valid [c]" and "valid_key k"
  shows "stored (run_op be c w) k \<subseteq> stored w k \<union> puts_of k [c]"
proof (cases c)
  case (Get k')
  then show ?thesis using assms get_keeps [of k' k w] by (cases "be_get be k' w") (auto simp: ops_valid_def)
next
  case (Put k' e)
  then show ?thesis using assms put_adds [of k' k e w]
    by (cases "be_put be k' e w") (auto simp: ops_valid_def puts_of_def split: if_splits)
next
  case Stats
  then show ?thesis using assms stats_keeps [of k w] by (cases "be_stats be w") auto
next
  case (Purge f)
  then show ?thesis using assms purge_removes [of k f w] by (cases "be_purge be f w") auto
qed

lemma run_stored:
  assumes "ops_valid ops" and "valid_key k"
  shows "stored (fold (run_op be) ops w) k \<subseteq> stored w k \<union> puts_of k ops"
  using assms(1)
proof (induction ops arbitrary: w)
  case (Cons c ops)
  then have "stored (fold (run_op be) ops (run_op be c w)) k \<subseteq> stored (run_op be c w) k \<union> puts_of k ops"
    by (simp add: ops_valid_def)
  moreover have "stored (run_op be c w) k \<subseteq> stored w k \<union> puts_of k [c]"
    using Cons.prems assms(2) by (intro run_op_stored) (simp_all add: ops_valid_def)
  ultimately show ?case by (auto simp: puts_of_def)
qed simp

lemma hit_provenance:
  assumes "ops_valid ops" and "valid_key k" and "be_get be k (fold (run_op be) ops w) = (Inr (Some e), w')"
  shows "e \<in> stored w k \<or> Put k e \<in> set ops"
  using get_hit [OF assms(2,3)] run_stored [OF assms(1,2)] by (auto simp: puts_of_def)

end

text \<open>
  A backend that really stores: \<open>durable w k\<close> says that an entry for \<open>k\<close> is in the authoritative tier.
  A successful \<open>put\<close> makes it so, reads and writes keep it, and then no successful \<open>get\<close> misses.
\<close>

locale storing_cache = cache_backend +
  fixes durable :: "'a \<Rightarrow> CacheKey \<Rightarrow> bool"
  assumes put_durable: "valid_key k \<Longrightarrow> be_put be k e w = (Inr (), w') \<Longrightarrow> durable w' k"
    and get_durable: "valid_key k \<Longrightarrow> durable w k \<Longrightarrow> be_get be k w = (Inr r, w') \<Longrightarrow> r \<noteq> None"
    and durable_get: "valid_key k \<Longrightarrow> valid_key k' \<Longrightarrow> durable w k' \<Longrightarrow> durable (snd (be_get be k w)) k'"
    and durable_put: "valid_key k \<Longrightarrow> valid_key k' \<Longrightarrow> durable w k' \<Longrightarrow> durable (snd (be_put be k e w)) k'"
    and durable_stats: "valid_key k' \<Longrightarrow> durable w k' \<Longrightarrow> durable (snd (be_stats be w)) k'"

definition is_purge :: "cache_op \<Rightarrow> bool" where
  "is_purge c = (case c of Purge _ \<Rightarrow> True | _ \<Rightarrow> False)"

context storing_cache
begin

lemma run_durable:
  assumes "ops_valid ops" and "valid_key k" and "list_all (\<lambda>c. \<not> is_purge c) ops" and "durable w k"
  shows "durable (fold (run_op be) ops w) k"
  using assms
proof (induction ops arbitrary: w)
  case (Cons c ops)
  have "durable (run_op be c w) k" using Cons.prems
    by (cases c) (auto simp: ops_valid_def is_purge_def durable_get durable_put durable_stats)
  then show ?case using Cons by (simp add: ops_valid_def)
qed simp

lemma put_then_get:
  assumes "valid_key k" and "be_put be k e w = (Inr (), w1)" and "ops_valid ops"
    and "list_all (\<lambda>c. \<not> is_purge c) ops" and "be_get be k (fold (run_op be) ops w1) = (Inr r, w2)"
  shows "\<exists>e'. r = Some e' \<and> (e' = e \<or> e' \<in> stored w k \<or> Put k e' \<in> set ops)"
proof -
  have "durable (fold (run_op be) ops w1) k"
    using run_durable [OF assms(3,1,4)] put_durable [OF assms(1,2)] by blast
  then obtain e' where e': "r = Some e'" using get_durable [OF assms(1) _ assms(5)] by blast
  then have "e' \<in> stored w1 k \<or> Put k e' \<in> set ops"
    using hit_provenance [OF assms(3,1)] assms(5) by blast
  moreover have "stored w1 k \<subseteq> stored w k \<union> {e}"
    using put_adds [OF assms(1,1,2)] by simp
  ultimately show ?thesis using e' by blast
qed

end

section \<open>The combinators keep the contract\<close>

locale two_tiers =
  lo: storing_cache lo lo_stored lo_durable + re: cache_backend re re_stored
  for lo :: "'a CacheBackend" and lo_stored lo_durable and re :: "'b CacheBackend" and re_stored

definition both_tiers ::
  "('a \<Rightarrow> CacheKey \<Rightarrow> CacheEntry set) \<Rightarrow> ('b \<Rightarrow> CacheKey \<Rightarrow> CacheEntry set) \<Rightarrow> 'a \<times> 'b \<Rightarrow> CacheKey \<Rightarrow> CacheEntry set" where
  "both_tiers ls rs w k = ls (fst w) k \<union> rs (snd w) k"

lemma LayeredCache_sel [simp]:
  "be_get (LayeredCache lo re) = layered_get lo re" "be_put (LayeredCache lo re) = layered_put lo re"
  "be_stats (LayeredCache lo re) w = (fst (be_stats lo (fst w)), snd (be_stats lo (fst w)), snd w)"
  "be_purge (LayeredCache lo re) filt w = (fst (be_purge lo filt (fst w)), snd (be_purge lo filt (fst w)), snd w)"
  by (simp_all add: LayeredCache_def Let_def split: prod.splits)

lemma layered_get_cases:
  assumes "layered_get lo re k (lw, rw) = (r, w')"
  obtains (error) e lw' where "be_get lo k lw = (Inl e, lw')" "r = Inl e" "w' = (lw', rw)"
  | (local_hit) e lw' where "be_get lo k lw = (Inr (Some e), lw')" "r = Inr (Some e)" "w' = (lw', rw)"
  | (remote_hit) e lw' rw' q lw'' where "be_get lo k lw = (Inr None, lw')" "be_get re k rw = (Inr (Some e), rw')"
      "be_put lo k e lw' = (q, lw'')" "r = Inr (Some e)" "w' = (lw'', rw')"
  | (miss) lw' a rw' where "be_get lo k lw = (Inr None, lw')" "be_get re k rw = (a, rw')" "r = Inr None" "w' = (lw', rw')"
  using assms
  by (auto simp: layered_get_def Let_def split: prod.splits sum.splits option.splits)

lemma layered_put_cases:
  assumes "layered_put lo re k e (lw, rw) = (r, w')"
  obtains (error) x lw' where "be_put lo k e lw = (Inl x, lw')" "r = Inl x" "w' = (lw', rw)"
  | (ok) lw' q rw' where "be_put lo k e lw = (Inr (), lw')" "be_put re k e rw = (q, rw')" "r = Inr ()" "w' = (lw', rw')"
  using assms by (auto simp: layered_put_def Let_def split: prod.splits sum.splits)

context two_tiers
begin

lemma layered_get_hit:
  assumes "valid_key k" and "layered_get lo re k w = (Inr (Some e), w')"
  shows "e \<in> both_tiers lo_stored re_stored w k"
proof -
  obtain lw rw where w: "w = (lw, rw)" by fastforce
  from assms(2) show ?thesis unfolding w
    by (cases rule: layered_get_cases)
      (use assms(1) lo.get_hit re.get_hit in \<open>auto simp: both_tiers_def\<close>)
qed

lemma layered_get_keeps:
  assumes "valid_key k" and "valid_key k'" and "layered_get lo re k w = (r, w')"
  shows "both_tiers lo_stored re_stored w' k' \<subseteq> both_tiers lo_stored re_stored w k'"
proof -
  obtain lw rw where w: "w = (lw, rw)" by fastforce
  note lo_get = lo.get_keeps [OF assms(1,2)] and re_get = re.get_keeps [OF assms(1,2)]
  from assms(3) [unfolded w] show ?thesis
  proof (cases rule: layered_get_cases)
    case (remote_hit e lw' rw' q lw'')
    then have "lo_stored lw'' k' \<subseteq> lo_stored lw k' \<union> (if k' = k then {e} else {})"
      using lo_get lo.put_adds [OF assms(1,2)] by blast
    moreover have "e \<in> re_stored rw k" using re.get_hit [OF assms(1)] remote_hit by blast
    ultimately show ?thesis using remote_hit re_get [of rw "Inr (Some e)" rw']
      by (auto simp: both_tiers_def w split: if_splits)
  qed (use lo_get re_get in \<open>fastforce simp: both_tiers_def w\<close>)+
qed

lemma layered_put_adds:
  assumes "valid_key k" and "valid_key k'" and "layered_put lo re k e w = (r, w')"
  shows "both_tiers lo_stored re_stored w' k'
    \<subseteq> both_tiers lo_stored re_stored w k' \<union> (if k' = k then {e} else {})"
proof -
  obtain lw rw where w: "w = (lw, rw)" by fastforce
  note lo_put = lo.put_adds [OF assms(1,2)] and re_put = re.put_adds [OF assms(1,2)]
  from assms(3) [unfolded w] show ?thesis
  proof (cases rule: layered_put_cases)
    case (error x lw')
    show ?thesis using lo_put [OF error(1)] error(3) by (auto simp: both_tiers_def w)
  next
    case (ok lw' q rw')
    show ?thesis using lo_put [OF ok(1)] re_put [OF ok(2)] ok(4) by (auto simp: both_tiers_def w)
  qed
qed

lemma layered_durable:
  assumes "valid_key k"
  shows "layered_put lo re k e w = (Inr (), w') \<Longrightarrow> lo_durable (fst w') k"
    and "lo_durable (fst w) k \<Longrightarrow> layered_get lo re k w = (Inr r, w') \<Longrightarrow> r \<noteq> None"
    and "valid_key k' \<Longrightarrow> lo_durable (fst w) k' \<Longrightarrow> lo_durable (fst (snd (layered_get lo re k w))) k'"
    and "valid_key k' \<Longrightarrow> lo_durable (fst w) k' \<Longrightarrow> lo_durable (fst (snd (layered_put lo re k e w))) k'"
proof -
  obtain lw rw where w: "w = (lw, rw)" by fastforce
  show "layered_put lo re k e w = (Inr (), w') \<Longrightarrow> lo_durable (fst w') k"
    unfolding w by (erule layered_put_cases) (use assms lo.put_durable in auto)
  show "lo_durable (fst w) k \<Longrightarrow> layered_get lo re k w = (Inr r, w') \<Longrightarrow> r \<noteq> None"
    unfolding w by (erule layered_get_cases) (use assms lo.get_durable in fastforce)+
  assume k': "valid_key k'" and d: "lo_durable (fst w) k'"
  have get: "lo_durable lw' k'" if "be_get lo k lw = (x, lw')" for x lw'
    using lo.durable_get [OF assms k', of lw] d that by (simp add: w)
  have put: "lo_durable lw'' k'" if "lo_durable lw' k'" "be_put lo k y lw' = (x, lw'')" for x y lw' lw''
    using lo.durable_put [OF assms k' that(1), of y] that(2) by simp
  obtain r' w1 where g: "layered_get lo re k (lw, rw) = (r', w1)" by (cases "layered_get lo re k (lw, rw)")
  then show "lo_durable (fst (snd (layered_get lo re k w))) k'"
    by (cases rule: layered_get_cases) (use get put in \<open>auto simp: w g\<close>)
  obtain r'' w2 where p: "layered_put lo re k e (lw, rw) = (r'', w2)" by (cases "layered_put lo re k e (lw, rw)")
  then show "lo_durable (fst (snd (layered_put lo re k e w))) k'"
    by (cases rule: layered_put_cases) (use put d in \<open>auto simp: w p\<close>)
qed

end

sublocale two_tiers \<subseteq> layered: storing_cache "LayeredCache lo re" "both_tiers lo_stored re_stored" "\<lambda>w. lo_durable (fst w)"
proof (unfold_locales, goal_cases)
  case (1 k w e w')
  then show ?case using layered_get_hit by simp
next
  case (2 k k' w r w')
  then show ?case using layered_get_keeps by simp
next
  case (3 k k' e w r w')
  then show ?case using layered_put_adds by simp
next
  case (4 k' w s w')
  then show ?case using lo.stats_keeps [of k' "fst w"]
    by (cases "be_stats lo (fst w)") (auto simp: both_tiers_def)
next
  case (5 k' filt w n w')
  then show ?case using lo.purge_removes [of k' filt "fst w"]
    by (cases "be_purge lo filt (fst w)") (auto simp: both_tiers_def)
next
  case (6 k e w w')
  then show ?case using layered_durable(1) by simp
next
  case (7 k w r w')
  then show ?case using layered_durable(2) by simp
next
  case (8 k k' w)
  then show ?case using layered_durable(3) by simp
next
  case (9 k k' w e)
  then show ?case using layered_durable(4) by simp
next
  case (10 k' w)
  then show ?case using lo.durable_stats by simp
qed

context two_tiers
begin

lemma tiers_put_then_get:
  assumes "valid_key k" and "be_put (LayeredCache lo re) k e w = (Inr (), w1)" and "ops_valid ops"
    and "list_all (\<lambda>c. \<not> is_purge c) ops"
    and "be_get (LayeredCache lo re) k (fold (run_op (LayeredCache lo re)) ops w1) = (Inr r, w2)"
  shows "\<exists>e'. r = Some e' \<and> (e' = e \<or> e' \<in> both_tiers lo_stored re_stored w k \<or> Put k e' \<in> set ops)"
  using assms by (rule layered.put_then_get)

end

text \<open>A read-only view keeps the contract of what it wraps, without its promise to store.\<close>

locale read_only_view = inner: cache_backend inner inner_stored
  for inner :: "'a CacheBackend" and inner_stored

sublocale read_only_view \<subseteq> view: cache_backend "ReadOnlyCache inner" inner_stored
  by unfold_locales
    (auto simp: ReadOnlyCache_def intro: inner.get_hit dest: inner.get_keeps inner.stats_keeps)

end
