(* ===== verification/RateLimit.thy ===== *)
theory RateLimit
  imports Prelude
begin

text \<open>
  The run-wide request limiter (\<open>crates/domarinn-core/src/rate_limit.rs\<close>) and the clock it reads.

  The runtime (clock, timers) is not part of the repository: it is the record \<open>runtime\<close> of functions
  on an abstract world \<open>'w\<close>. The mutex makes handing out a slot atomic, so callers in any interleaving
  are the sequence of the times at which they take the lock.
\<close>

section \<open>Model\<close>

record 'w runtime =
  rt_now :: "'w \<Rightarrow> instant"
  rt_sleep_until :: "instant \<Rightarrow> 'w \<Rightarrow> 'w"
  rt_sleep :: "duration \<Rightarrow> 'w \<Rightarrow> 'w"
  rt_subsec_nanos :: "'w \<Rightarrow> nat"

text \<open>24 hours, in nanoseconds.\<close>

definition MAX_INTERVAL :: duration where
  "MAX_INTERVAL = 24 * 60 * 60 * 10 ^ 9"

record RateLimiter =
  rl_interval :: duration
  rl_next :: "instant option"

definition per_second :: "f64 \<Rightarrow> RateLimiter option" where
  "per_second rps =
     (if \<not> rps > 0 then None
      else Some \<lparr>rl_interval = min (nat (round_half_even (1 / rps * 10 ^ 9))) MAX_INTERVAL,
                 rl_next = None\<rparr>)"

text \<open>The critical section of \<open>acquire\<close>: the slot this caller gets, and the limiter afterwards.\<close>

definition reserve :: "RateLimiter \<Rightarrow> instant \<Rightarrow> instant \<times> RateLimiter" where
  "reserve lm now =
     (let slot = (case rl_next lm of Some n \<Rightarrow> (if n > now then n else now) | None \<Rightarrow> now)
      in (slot, lm\<lparr>rl_next := Some (slot + rl_interval lm)\<rparr>))"

definition acquire :: "'w runtime \<Rightarrow> RateLimiter \<Rightarrow> 'w \<Rightarrow> RateLimiter \<times> 'w" where
  "acquire rt lm w = (let (slot, lm') = reserve lm (rt_now rt w) in (lm', rt_sleep_until rt slot w))"

text \<open>Callers that take the lock at the given times, in this order, and the slots they get.\<close>

fun slots :: "RateLimiter \<Rightarrow> instant list \<Rightarrow> instant list" where
  "slots lm [] = []"
| "slots lm (now # nows) = (let (slot, lm') = reserve lm now in slot # slots lm' nows)"

section \<open>Properties\<close>

lemma reserve_interval [simp]: "rl_interval (snd (reserve lm now)) = rl_interval lm"
  by (simp add: reserve_def Let_def)

lemma reserve_next: "rl_next (snd (reserve lm now)) = Some (fst (reserve lm now) + rl_interval lm)"
  by (simp add: reserve_def Let_def)

lemma reserve_after:
  "now \<le> fst (reserve lm now)" "rl_next lm = Some n \<Longrightarrow> n \<le> fst (reserve lm now)"
  by (auto simp: reserve_def Let_def split: option.splits)

lemma slots_Cons: "slots lm (now # nows) = fst (reserve lm now) # slots (snd (reserve lm now)) nows"
  by (simp add: split_def Let_def)

declare slots.simps(2) [simp del]
declare slots_Cons [simp]

lemma length_slots [simp]: "length (slots lm nows) = length nows"
  by (induction nows arbitrary: lm) simp_all

lemma slots_not_before_next:
  "rl_next lm = Some n \<Longrightarrow> j < length nows \<Longrightarrow> n + j * rl_interval lm \<le> slots lm nows ! j"
proof (induction nows arbitrary: lm n j)
  case (Cons now nows)
  show ?case
  proof (cases j)
    case 0
    then show ?thesis using reserve_after(2) [OF Cons.prems(1)] by simp
  next
    case (Suc i)
    have "fst (reserve lm now) + rl_interval lm + i * rl_interval lm
        \<le> slots (snd (reserve lm now)) nows ! i"
      using Cons.IH [OF reserve_next [of lm now], of i] Cons.prems(2) Suc by simp
    then show ?thesis using reserve_after(2) [OF Cons.prems(1), of now] Suc by simp
  qed
qed simp

lemma slots_spacing:
  "i < j \<Longrightarrow> j < length nows \<Longrightarrow> slots lm nows ! i + (j - i) * rl_interval lm \<le> slots lm nows ! j"
proof (induction nows arbitrary: lm i j)
  case (Cons now nows)
  obtain k where j: "j = Suc k" using Cons.prems(1) by (cases j) auto
  show ?case
  proof (cases i)
    case 0
    have "fst (reserve lm now) + rl_interval lm + k * rl_interval lm
        \<le> slots (snd (reserve lm now)) nows ! k"
      using slots_not_before_next [OF reserve_next [of lm now], of k nows] Cons.prems(2) j by simp
    then show ?thesis using 0 j by simp
  next
    case (Suc m)
    then show ?thesis using Cons.IH [of m k "snd (reserve lm now)"] Cons.prems j by simp
  qed
qed simp

lemma slots_after_arrival: "i < length nows \<Longrightarrow> nows ! i \<le> slots lm nows ! i"
proof (induction nows arbitrary: lm i)
  case (Cons now nows)
  then show ?case by (cases i) (simp_all add: reserve_after)
qed simp

text \<open>The limiter spaces requests: whatever the arrival times of the callers and however they
  interleave, no caller proceeds before it arrived, any two slots handed out are at least as many
  intervals apart as there are callers between them, so a time window of \<open>k\<close> intervals never
  contains more than \<open>k\<close> slots, and the first caller of a run is not delayed.\<close>

theorem limiter_spaces_requests:
  assumes "i < j" "j < length nows"
  shows "nows ! j \<le> slots lm nows ! j
    \<and> slots lm nows ! i + (j - i) * rl_interval lm \<le> slots lm nows ! j
    \<and> (slots lm nows ! j < t + k * rl_interval lm \<and> t \<le> slots lm nows ! i \<longrightarrow> j - i < k)
    \<and> (rl_next lm = None \<longrightarrow> slots lm nows ! 0 = nows ! 0)"
proof -
  have sp: "slots lm nows ! i + (j - i) * rl_interval lm \<le> slots lm nows ! j"
    by (rule slots_spacing [OF assms])
  have "j - i < k" if "slots lm nows ! j < t + k * rl_interval lm" "t \<le> slots lm nows ! i"
  proof (rule ccontr)
    assume "\<not> j - i < k"
    then have "k * rl_interval lm \<le> (j - i) * rl_interval lm" by simp
    then show False using sp that by linarith
  qed
  moreover have "slots lm nows ! 0 = nows ! 0" if "rl_next lm = None"
    using that assms by (cases nows) (simp_all add: reserve_def)
  ultimately show ?thesis using sp slots_after_arrival [OF assms(2)] by blast
qed

theorem limiter_spaces_requests_witness:
  "slots \<lparr>rl_interval = 500, rl_next = None\<rparr> [0, 0, 0] = [0, 500, 1000]
   \<and> 0 + (2 - 0) * 500 \<le> slots \<lparr>rl_interval = 500, rl_next = None\<rparr> [0, 0, 0] ! 2"
  using limiter_spaces_requests [of 0 2 "[0, 0, 0]" "\<lparr>rl_interval = 500, rl_next = None\<rparr>"]
  by (simp add: reserve_def)

text \<open>A limiter exists exactly for a positive rate; its interval is the reciprocal of the rate to the
  nearest nanosecond, never more than a day.\<close>

theorem per_second_interval:
  "(per_second rps = None \<longleftrightarrow> rps \<le> 0)
   \<and> (\<forall>lm. per_second rps = Some lm \<longrightarrow> rl_next lm = None \<and> rl_interval lm \<le> MAX_INTERVAL
        \<and> (rl_interval lm < MAX_INTERVAL \<longrightarrow> \<bar>real (rl_interval lm) - 10 ^ 9 / rps\<bar> \<le> 1/2))"
proof -
  have near: "\<bar>of_int (round_half_even x) - x\<bar> \<le> 1/2" for x :: real
    using floor_correct [of x] by (auto simp: round_half_even_def Let_def)
  have "\<bar>real (nat (round_half_even (1 / rps * 10 ^ 9))) - 10 ^ 9 / rps\<bar> \<le> 1/2" if "0 < rps"
  proof -
    let ?x = "1 / rps * 10 ^ 9"
    have "0 \<le> ?x" using that by simp
    then have "0 \<le> round_half_even ?x" by (simp add: round_half_even_def Let_def)
    then show ?thesis using near [of ?x] by simp
  qed
  then show ?thesis by (auto simp: per_second_def min_def split: if_splits)
qed

theorem per_second_interval_witness:
  "per_second 4 = Some \<lparr>rl_interval = 250000000, rl_next = None\<rparr>
   \<and> \<bar>real 250000000 - 10 ^ 9 / 4\<bar> \<le> 1/2"
proof -
  have "\<lfloor>250000000 :: real\<rfloor> = 250000000" by simp
  then have "per_second 4 = Some \<lparr>rl_interval = 250000000, rl_next = None\<rparr>"
    by (simp add: per_second_def round_half_even_def MAX_INTERVAL_def)
  moreover from this have "rl_interval \<lparr>rl_interval = 250000000, rl_next = None\<rparr> \<le> MAX_INTERVAL"
    using per_second_interval [of 4] by blast
  ultimately show ?thesis by simp
qed

end
