(* ===== verification/Retry.thy ===== *)
theory Retry
  imports Values RateLimit
begin

text \<open>
  Retry policy and backoff loop of a provider call (\<open>crates/domarinn-core/src/retry.rs\<close>). The
  operation is a function of the attempt number and the world; the limiter is asked before every
  attempt. Log events of the loop are not modelled.
\<close>

section \<open>Model\<close>

definition DEFAULT_MAX_RETRIES :: u32 where "DEFAULT_MAX_RETRIES = 2"
definition DEFAULT_INITIAL_MS :: u64 where "DEFAULT_INITIAL_MS = 500"
definition DEFAULT_MAX_MS :: u64 where "DEFAULT_MAX_MS = 8000"
definition DEFAULT_RETRY_AFTER_MAX_MS :: u64 where "DEFAULT_RETRY_AFTER_MAX_MS = 120000"

record RetryPolicy =
  rp_max :: u32
  rp_initial_ms :: u64
  rp_max_ms :: u64
  rp_jitter :: bool
  rp_retry_after_max_ms :: u64

definition default_policy :: RetryPolicy where
  "default_policy = \<lparr>rp_max = DEFAULT_MAX_RETRIES, rp_initial_ms = DEFAULT_INITIAL_MS,
     rp_max_ms = DEFAULT_MAX_MS, rp_jitter = False, rp_retry_after_max_ms = DEFAULT_RETRY_AFTER_MAX_MS\<rparr>"

text \<open>\<open>runner.retries\<close> of the suite.\<close>

record RetriesCfg =
  rc_max :: u32
  rc_initial_ms :: "u64 option"
  rc_max_ms :: "u64 option"
  rc_jitter :: bool
  rc_retry_after_max_ms :: "u64 option"

definition from_suite :: "RetriesCfg option \<Rightarrow> RetryPolicy" where
  "from_suite cfg = (case cfg of
       Some r \<Rightarrow> \<lparr>rp_max = rc_max r, rp_initial_ms = unwrap_or (rc_initial_ms r) DEFAULT_INITIAL_MS,
                  rp_max_ms = unwrap_or (rc_max_ms r) DEFAULT_MAX_MS, rp_jitter = rc_jitter r,
                  rp_retry_after_max_ms = unwrap_or (rc_retry_after_max_ms r) DEFAULT_RETRY_AFTER_MAX_MS\<rparr>
     | None \<Rightarrow> default_policy)"

definition from_millis :: "u64 \<Rightarrow> duration" where
  "from_millis ms = ms * 10 ^ 6"

definition as_millis :: "duration \<Rightarrow> u64" where
  "as_millis d = d div 10 ^ 6"

definition as_secs :: "duration \<Rightarrow> u64" where
  "as_secs d = d div 10 ^ 9"

definition backoff :: "RetryPolicy \<Rightarrow> u32 \<Rightarrow> duration option \<Rightarrow> duration" where
  "backoff policy attempt hint = (case hint of
       Some h \<Rightarrow> h
     | None \<Rightarrow> (let ex = saturating_mul (rp_initial_ms policy) (2 ^ (min attempt 16 - 1))
               in from_millis (min ex (rp_max_ms policy))))"

definition jittered :: "nat \<Rightarrow> duration \<Rightarrow> duration" where
  "jittered nanos delay =
     (let ms = as_millis delay in if ms = 0 then delay else from_millis (1 + nanos mod ms))"

record RetryStats =
  rs_attempts :: u32
  rs_in_flight :: duration

text \<open>The delay before the next attempt: a server directive verbatim, our own guess jittered.\<close>

definition retry_delay :: "RetryPolicy \<Rightarrow> u32 \<Rightarrow> duration option \<Rightarrow> nat \<Rightarrow> duration" where
  "retry_delay policy attempts hint nanos = (case hint of
       Some h \<Rightarrow> h
     | None \<Rightarrow> (let base = backoff policy attempts None
               in if rp_jitter policy then jittered nanos base else base))"

definition retry_after_ceiling :: "RetryPolicy \<Rightarrow> duration" where
  "retry_after_ceiling policy = from_millis (rp_retry_after_max_ms policy)"

definition give_up :: "RetryPolicy \<Rightarrow> string \<Rightarrow> duration \<Rightarrow> ErrorClass \<Rightarrow> json option \<Rightarrow> ProviderError" where
  "give_up policy source hint cls details = Fatal
     (''server asked to retry after '' @ show_nat (as_secs hint) @ ''s, above the ''
      @ show_nat (as_secs (retry_after_ceiling policy))
      @ ''s ceiling (runner.retries.retry_after_max_ms): '' @ source) cls details"

text \<open>Waiting for the limiter, when the run has one.\<close>

definition wait_for_slot :: "'w runtime \<Rightarrow> RateLimiter option \<Rightarrow> 'w \<Rightarrow> RateLimiter option \<times> 'w" where
  "wait_for_slot rt lm w = (case lm of
       None \<Rightarrow> (None, w)
     | Some l \<Rightarrow> (let (l', w') = acquire rt l w in (Some l', w')))"

text \<open>The loop of \<open>with_retry_limited\<close>, entered with the attempts made and the time in flight so far.\<close>

function retry_loop ::
  "'w runtime \<Rightarrow> RetryPolicy \<Rightarrow> (u32 \<Rightarrow> 'w \<Rightarrow> (ProviderError + 'a) \<times> 'w) \<Rightarrow> u32 \<Rightarrow> duration
   \<Rightarrow> RateLimiter option \<Rightarrow> 'w \<Rightarrow> (ProviderError + 'a) \<times> RetryStats \<times> RateLimiter option \<times> 'w" where
  "retry_loop rt policy opn made in_flight lm w =
     (let attempts = made + 1;
          (lm, w) = wait_for_slot rt lm w;
          started = rt_now rt w;
          (outcome, w) = opn attempts w;
          in_flight = in_flight + (rt_now rt w - started);
          stats = \<lparr>rs_attempts = attempts, rs_in_flight = in_flight\<rparr>
      in case outcome of
           Inr v \<Rightarrow> (Inr v, stats, lm, w)
         | Inl (Fatal src cls det) \<Rightarrow> (Inl (Fatal src cls det), stats, lm, w)
         | Inl (Retriable src hint cls det) \<Rightarrow>
             if attempts > rp_max policy then (Inl (Retriable src hint cls det), stats, lm, w)
             else (case hint of
                 Some h \<Rightarrow>
                   if h > retry_after_ceiling policy
                   then (Inl (give_up policy src h cls det), stats, lm, w)
                   else retry_loop rt policy opn attempts in_flight lm
                     (rt_sleep rt (retry_delay policy attempts hint (rt_subsec_nanos rt w)) w)
               | None \<Rightarrow> retry_loop rt policy opn attempts in_flight lm
                     (rt_sleep rt (retry_delay policy attempts hint (rt_subsec_nanos rt w)) w)))"
  by pat_completeness auto
termination
  by (relation "measure (\<lambda>(rt, policy, opn, made, in_flight, lm, w). Suc (rp_max policy) - made)") auto

declare retry_loop.simps [simp del]

definition with_retry_limited ::
  "'w runtime \<Rightarrow> RetryPolicy \<Rightarrow> (u32 \<Rightarrow> 'w \<Rightarrow> (ProviderError + 'a) \<times> 'w) \<Rightarrow> RateLimiter option \<Rightarrow> 'w
   \<Rightarrow> (ProviderError + 'a) \<times> RetryStats \<times> RateLimiter option \<times> 'w" where
  "with_retry_limited rt policy opn lm w = retry_loop rt policy opn 0 0 lm w"

definition with_retry ::
  "'w runtime \<Rightarrow> RetryPolicy \<Rightarrow> (u32 \<Rightarrow> 'w \<Rightarrow> (ProviderError + 'a) \<times> 'w) \<Rightarrow> 'w
   \<Rightarrow> (ProviderError + 'a) \<times> RetryStats \<times> 'w" where
  "with_retry rt policy opn w =
     (let (r, stats, _, w') = with_retry_limited rt policy opn None w in (r, stats, w'))"

section \<open>Backoff\<close>

lemma from_millis_mono [simp]: "from_millis a \<le> from_millis b \<longleftrightarrow> a \<le> b"
  by (simp add: from_millis_def)

lemma from_millis_as_millis: "from_millis (as_millis d) \<le> d"
  by (simp add: from_millis_def as_millis_def)

lemma jittered_le: "jittered nanos d \<le> d"
proof (cases "as_millis d = 0")
  case False
  then have "from_millis (1 + nanos mod as_millis d) \<le> from_millis (as_millis d)"
    by (simp add: Suc_le_eq)
  then show ?thesis using False from_millis_as_millis [of d]
    by (simp add: jittered_def Let_def del: from_millis_mono)
qed (simp add: jittered_def)

lemma jittered_ge: "1 \<le> as_millis d \<Longrightarrow> from_millis 1 \<le> jittered nanos d"
  by (simp add: jittered_def Let_def)

lemma backoff_none:
  "backoff policy attempt None
   = from_millis (min (saturating_mul (rp_initial_ms policy) (2 ^ (min attempt 16 - 1))) (rp_max_ms policy))"
  by (simp add: backoff_def Let_def)

lemma retry_delay_le: "retry_delay policy attempt None nanos \<le> backoff policy attempt None"
  by (simp add: retry_delay_def Let_def jittered_le)

lemma retry_delay_ge:
  assumes "1 \<le> as_millis (backoff policy attempt None)"
  shows "from_millis 1 \<le> retry_delay policy attempt None nanos"
proof -
  have "from_millis 1 \<le> from_millis (as_millis (backoff policy attempt None))" using assms by simp
  then have "from_millis 1 \<le> backoff policy attempt None"
    using from_millis_as_millis le_trans by blast
  then show ?thesis using jittered_ge [OF assms] by (simp add: retry_delay_def Let_def)
qed

lemma backoff_le_max: "backoff policy attempt None \<le> from_millis (rp_max_ms policy)"
  by (simp add: backoff_none)

lemma backoff_mono: "backoff policy attempt None \<le> backoff policy (attempt + 1) None"
proof -
  have "saturating_mul (rp_initial_ms policy) (2 ^ (min attempt 16 - 1))
      \<le> saturating_mul (rp_initial_ms policy) (2 ^ (min (attempt + 1) 16 - 1))"
    by (intro saturating_mul_mono power_increasing) auto
  then show ?thesis by (simp add: backoff_none min.coboundedI1)
qed

lemma backoff_exact:
  assumes "attempt \<le> 16" and "rp_initial_ms policy * 2 ^ (attempt - 1) \<le> min (rp_max_ms policy) u64_max"
  shows "backoff policy attempt None = from_millis (rp_initial_ms policy * 2 ^ (attempt - 1))"
proof -
  have "min attempt 16 = attempt" using assms(1) by simp
  moreover have "saturating_mul (rp_initial_ms policy) (2 ^ (attempt - 1)) = rp_initial_ms policy * 2 ^ (attempt - 1)"
    using assms(2) by (simp only: saturating_mul_def min.bounded_iff min.absorb1)
  ultimately show ?thesis using assms(2) by (simp only: backoff_none min.bounded_iff min.absorb1)
qed

text \<open>Without a server hint the backoff doubles with every attempt from \<open>initial_ms\<close> until it reaches
  \<open>max_ms\<close>: it never exceeds the cap, never decreases, and equals \<open>initial_ms * 2 ^ (attempt - 1)\<close> as
  long as that is below the cap (for up to 16 attempts, without overflow). Jitter only shortens it, to
  at least one millisecond, and a server hint is taken verbatim.\<close>

theorem backoff_schedule:
  assumes "1 \<le> attempt"
  shows "backoff policy attempt None \<le> from_millis (rp_max_ms policy)
    \<and> backoff policy attempt None \<le> backoff policy (attempt + 1) None
    \<and> (attempt \<le> 16 \<and> rp_initial_ms policy * 2 ^ (attempt - 1) \<le> min (rp_max_ms policy) u64_max \<longrightarrow>
        backoff policy attempt None = from_millis (rp_initial_ms policy * 2 ^ (attempt - 1)))
    \<and> retry_delay policy attempt None nanos \<le> backoff policy attempt None
    \<and> (1 \<le> as_millis (backoff policy attempt None) \<longrightarrow> from_millis 1 \<le> retry_delay policy attempt None nanos)
    \<and> retry_delay policy attempt (Some h) nanos = h"
proof (intro conjI impI)
  show "retry_delay policy attempt (Some h) nanos = h" by (simp add: retry_delay_def)
qed (blast intro: backoff_le_max backoff_mono backoff_exact retry_delay_le retry_delay_ge)+

theorem backoff_schedule_witness:
  "backoff default_policy 3 None = from_millis (500 * 2 ^ 2)"
proof -
  have "3 \<le> (16::nat) \<and> rp_initial_ms default_policy * 2 ^ (3 - 1) \<le> min (rp_max_ms default_policy) u64_max"
    by (simp add: default_policy_def DEFAULT_INITIAL_MS_def DEFAULT_MAX_MS_def u64_max_def)
  moreover have "rp_initial_ms default_policy * 2 ^ (3 - 1) = 500 * 2 ^ 2"
    by (simp add: default_policy_def DEFAULT_INITIAL_MS_def)
  ultimately show ?thesis using backoff_schedule [of 3 default_policy] by simp
qed

section \<open>Runs of the loop\<close>

text \<open>
  A world that remembers: every attempt with its number, duration and outcome, and every sleep between
  attempts. The loop runs over it unchanged, so what the log holds is what the loop did.
\<close>

datatype 'a event = Called (call_no: u32) (call_time: duration) (call_outcome: "ProviderError + 'a") | Slept (slept: duration)

definition traced_op ::
  "'w runtime \<Rightarrow> (u32 \<Rightarrow> 'w \<Rightarrow> (ProviderError + 'a) \<times> 'w) \<Rightarrow> u32 \<Rightarrow> 'w \<times> 'a event list
   \<Rightarrow> (ProviderError + 'a) \<times> 'w \<times> 'a event list" where
  "traced_op rt opn n wl = (let (w, l) = wl; (r, w') = opn n w
     in (r, w', l @ [Called n (rt_now rt w' - rt_now rt w) r]))"

definition traced :: "'w runtime \<Rightarrow> ('w \<times> 'a event list) runtime" where
  "traced rt = \<lparr>rt_now = (\<lambda>(w, l). rt_now rt w), rt_sleep_until = (\<lambda>t (w, l). (rt_sleep_until rt t w, l)),
     rt_sleep = (\<lambda>d (w, l). (rt_sleep rt d w, l @ [Slept d])), rt_subsec_nanos = (\<lambda>(w, l). rt_subsec_nanos rt w)\<rparr>"

definition calls :: "'a event list \<Rightarrow> 'a event list" where
  "calls l = filter (\<lambda>e. case e of Called _ _ _ \<Rightarrow> True | Slept _ \<Rightarrow> False) l"

definition sleeps :: "'a event list \<Rightarrow> duration list" where
  "sleeps l = map slept (filter (\<lambda>e. case e of Called _ _ _ \<Rightarrow> False | Slept _ \<Rightarrow> True) l)"

lemma calls_simps [simp]:
  "calls [] = []" "calls (Called n d r # l) = Called n d r # calls l" "calls (Slept d # l) = calls l"
  "sleeps [] = []" "sleeps (Called n d r # l) = sleeps l" "sleeps (Slept d # l) = d # sleeps l"
  by (simp_all add: calls_def sleeps_def)

text \<open>What ends the loop at attempt \<open>k\<close>, and with which result.\<close>

fun verdict_at :: "RetryPolicy \<Rightarrow> u32 \<Rightarrow> ProviderError + 'a \<Rightarrow> (ProviderError + 'a) option" where
  "verdict_at policy k (Inr v) = Some (Inr v)"
| "verdict_at policy k (Inl (Fatal src cls det)) = Some (Inl (Fatal src cls det))"
| "verdict_at policy k (Inl (Retriable src hint cls det)) =
     (if k > rp_max policy then Some (Inl (Retriable src hint cls det))
      else case hint of
          Some h \<Rightarrow> (if h > retry_after_ceiling policy then Some (Inl (give_up policy src h cls det)) else None)
        | None \<Rightarrow> None)"

fun hint_of :: "ProviderError + 'a \<Rightarrow> duration option" where
  "hint_of (Inl (Retriable src hint cls det)) = hint"
| "hint_of _ = None"

text \<open>The logs of the retry protocol, from attempt \<open>k\<close> on.\<close>

inductive retry_log :: "RetryPolicy \<Rightarrow> u32 \<Rightarrow> 'a event list \<Rightarrow> ProviderError + 'a \<Rightarrow> bool" for policy where
  stop: "verdict_at policy k out = Some r \<Longrightarrow> retry_log policy k [Called k d out] r"
| again: "verdict_at policy k out = None \<Longrightarrow> retry_log policy (k + 1) l r
    \<Longrightarrow> retry_log policy k (Called k d out # Slept (retry_delay policy k (hint_of out) nanos) # l) r"

lemma verdict_at_None:
  "verdict_at policy k out = None \<longleftrightarrow> k \<le> rp_max policy
     \<and> (\<exists>src hint cls det. out = Inl (Retriable src hint cls det)
          \<and> (\<forall>h. hint = Some h \<longrightarrow> h \<le> retry_after_ceiling policy))"
  by (cases "(policy, k, out)" rule: verdict_at.cases) (auto split: option.splits)

lemma retry_log_calls:
  assumes "retry_log policy k l r"
  shows "calls l \<noteq> [] \<and> map call_no (calls l) = [k..<k + length (calls l)]
    \<and> length (sleeps l) + 1 = length (calls l)
    \<and> (k \<le> rp_max policy + 1 \<longrightarrow> k + length (calls l) \<le> rp_max policy + 2)
    \<and> (\<forall>e \<in> set (butlast (calls l)). \<exists>src hint cls det. call_outcome e = Inl (Retriable src hint cls det)
          \<and> (\<forall>h. hint = Some h \<longrightarrow> h \<le> retry_after_ceiling policy))"
  using assms
proof (induction rule: retry_log.induct)
  case (again k out l r d nanos)
  then show ?case by (auto simp: verdict_at_None upt_conv_Cons)
qed simp

lemma retry_log_sleeps:
  assumes "retry_log policy k l r"
  shows "\<forall>d \<in> set (sleeps l). d \<le> max (from_millis (rp_max_ms policy)) (retry_after_ceiling policy)"
  using assms
proof (induction rule: retry_log.induct)
  case (again k out l r d nanos)
  then obtain src hint cls det where out: "out = Inl (Retriable src hint cls det)"
    and h: "\<And>h. hint = Some h \<Longrightarrow> h \<le> retry_after_ceiling policy"
    by (auto simp: verdict_at_None)
  have "retry_delay policy k (hint_of out) nanos
      \<le> max (from_millis (rp_max_ms policy)) (retry_after_ceiling policy)"
  proof (cases hint)
    case None
    then show ?thesis using out retry_delay_le [of policy k nanos] backoff_le_max [of policy k]
      by (simp add: le_max_iff_disj)
  next
    case (Some a)
    then show ?thesis using out h [of a] by (simp add: retry_delay_def le_max_iff_disj)
  qed
  then show ?case using again.IH by simp
qed simp

lemma retry_log_last:
  "retry_log policy k l r \<Longrightarrow> verdict_at policy (k + length (calls l) - 1) (call_outcome (last (calls l))) = Some r"
proof (induction rule: retry_log.induct)
  case (again k out l r d nanos)
  then show ?case using retry_log_calls [OF again.hyps(2)] by simp
qed simp

lemma traced_simps [simp]:
  "rt_now (traced rt) (w, l) = rt_now rt w"
  "rt_sleep (traced rt) d (w, l) = (rt_sleep rt d w, l @ [Slept d])"
  "rt_subsec_nanos (traced rt) (w, l) = rt_subsec_nanos rt w"
  "wait_for_slot (traced rt) lm (w, l) = (let (lm', w') = wait_for_slot rt lm w in (lm', w', l))"
  by (auto simp: traced_def wait_for_slot_def acquire_def Let_def split: option.splits prod.splits)

text \<open>The loop in terms of \<open>verdict_at\<close>.\<close>

lemma retry_loop_step:
  assumes "wait_for_slot rt lm w = (lm1, w1)" and "opn (made + 1) w1 = (out, w2)"
  shows "retry_loop rt policy opn made fl lm w =
    (let fl' = fl + (rt_now rt w2 - rt_now rt w1)
     in case verdict_at policy (made + 1) out of
          Some r \<Rightarrow> (r, \<lparr>rs_attempts = made + 1, rs_in_flight = fl'\<rparr>, lm1, w2)
        | None \<Rightarrow> retry_loop rt policy opn (made + 1) fl' lm1
            (rt_sleep rt (retry_delay policy (made + 1) (hint_of out) (rt_subsec_nanos rt w2)) w2))"
proof (cases "(policy, made + 1, out)" rule: verdict_at.cases)
  case (3 policy' k src hint cls det)
  then have o: "out = Inl (Retriable src hint cls det)" by simp
  show ?thesis
  proof (cases hint)
    case None
    show ?thesis unfolding retry_loop.simps [of rt policy opn made]
      by (simp add: assms o None Let_def del: One_nat_def add_Suc_right)
  next
    case (Some h)
    show ?thesis unfolding retry_loop.simps [of rt policy opn made]
      by (simp add: assms o Some Let_def del: One_nat_def add_Suc_right)
  qed
qed (subst retry_loop.simps, insert assms, simp add: Let_def)+

lemma retry_loop_log:
  "\<exists>r n l lm' w'. retry_log policy (made + 1) l r \<and> n = made + length (calls l)
     \<and> retry_loop rt policy opn made fl lm w
        = (r, \<lparr>rs_attempts = n, rs_in_flight = fl + sum_list (map call_time (calls l))\<rparr>, lm', w')
     \<and> retry_loop (traced rt) policy (traced_op rt opn) made fl lm (w, l0)
        = (r, \<lparr>rs_attempts = n, rs_in_flight = fl + sum_list (map call_time (calls l))\<rparr>, lm', w', l0 @ l)"
proof (induction "Suc (rp_max policy) - made" arbitrary: made fl lm w l0 rule: less_induct)
  case less
  obtain lm1 w1 where slot: "wait_for_slot rt lm w = (lm1, w1)" by fastforce
  obtain out w2 where out: "opn (made + 1) w1 = (out, w2)" by fastforce
  let ?d = "rt_now rt w2 - rt_now rt w1"
  let ?c = "Called (made + 1) ?d out"
  have slot': "wait_for_slot (traced rt) lm (w, l0) = (lm1, (w1, l0))" using slot by simp
  have out': "traced_op rt opn (made + 1) (w1, l0) = (out, (w2, l0 @ [?c]))"
    using out by (simp add: traced_op_def)
  note step = retry_loop_step [where opn = opn and made = made and policy = policy and fl = fl, OF slot out]
  note step' = retry_loop_step [where opn = "traced_op rt opn" and made = made and policy = policy and fl = fl, OF slot' out']
  show ?case
  proof (cases "verdict_at policy (made + 1) out")
    case (Some r)
    then have "retry_log policy (made + 1) [?c] r" by (rule retry_log.stop)
    then show ?thesis using Some step step'
      by (intro exI [of _ r] exI [of _ "made + 1"] exI [of _ "[?c]"] exI [of _ lm1] exI [of _ w2]) simp
  next
    case None
    let ?s = "retry_delay policy (made + 1) (hint_of out) (rt_subsec_nanos rt w2)"
    have "made < Suc (rp_max policy)" using None by (simp add: verdict_at_None)
    then have "Suc (rp_max policy) - (made + 1) < Suc (rp_max policy) - made" by simp
    from less.hyps [OF this, of "fl + ?d" lm1 "rt_sleep rt ?s w2" "l0 @ [?c, Slept ?s]"]
    obtain r l lm' w' where l: "retry_log policy (made + 1 + 1) l r"
      and run: "retry_loop rt policy opn (made + 1) (fl + ?d) lm1 (rt_sleep rt ?s w2)
        = (r, \<lparr>rs_attempts = made + 1 + length (calls l), rs_in_flight = fl + ?d + sum_list (map call_time (calls l))\<rparr>, lm', w')"
      and run': "retry_loop (traced rt) policy (traced_op rt opn) (made + 1) (fl + ?d) lm1
          (rt_sleep rt ?s w2, l0 @ [?c, Slept ?s])
        = (r, \<lparr>rs_attempts = made + 1 + length (calls l), rs_in_flight = fl + ?d + sum_list (map call_time (calls l))\<rparr>, lm', w',
           (l0 @ [?c, Slept ?s]) @ l)"
      by blast
    have "retry_log policy (made + 1) (?c # Slept ?s # l) r" using None l by (rule retry_log.again)
    then show ?thesis using None step step' run run'
      by (intro exI [of _ r] exI [of _ "made + 1 + length (calls l)"] exI [of _ "?c # Slept ?s # l"]
          exI [of _ lm'] exI [of _ w']) (simp add: add.assoc)
  qed
qed

lemma with_retry_traced:
  assumes "with_retry_limited (traced rt) policy (traced_op rt opn) lm (w, []) = (r, stats, lm', w', evs)"
  shows "retry_log policy 1 evs r" and "rs_attempts stats = length (calls evs)"
    and "rs_in_flight stats = sum_list (map call_time (calls evs))"
    and "with_retry_limited rt policy opn lm w = (r, stats, lm', w')"
  using retry_loop_log [of policy 0 rt opn 0 lm w "[]"] assms
  by (auto simp: with_retry_limited_def)


text \<open>C36: The loop goes on exactly after retriable errors without a hint above the ceiling, and its result
  is that of the last attempt: a value and a fatal error are returned as they are; a retriable error is
  returned as it is once the attempts are used up, and before that only when the server's hint is above
  the ceiling, then as a fatal error with the same class and details.\<close>

theorem retry_outcome:
  assumes "with_retry_limited (traced rt) policy (traced_op rt opn) lm (w, []) = (r, stats, lm', w', evs)"
  shows "(\<forall>e \<in> set (butlast (calls evs)). \<exists>src hint cls det. call_outcome e = Inl (Retriable src hint cls det)
        \<and> (\<forall>h. hint = Some h \<longrightarrow> h \<le> retry_after_ceiling policy))
    \<and> (case call_outcome (last (calls evs)) of
          Inr v \<Rightarrow> r = Inr v
        | Inl (Fatal src cls det) \<Rightarrow> r = Inl (Fatal src cls det)
        | Inl (Retriable src hint cls det) \<Rightarrow>
            (if rs_attempts stats = rp_max policy + 1 then r = Inl (Retriable src hint cls det)
             else \<exists>h. hint = Some h \<and> h > retry_after_ceiling policy \<and> r = Inl (give_up policy src h cls det)))"
proof -
  note l = with_retry_traced(1) [OF assms]
  note c = retry_log_calls [OF l]
  note n = with_retry_traced(2) [OF assms]
  obtain out where out: "call_outcome (last (calls evs)) = out" by simp
  then have "verdict_at policy (rs_attempts stats) out = Some r"
    using retry_log_last [OF l] n by simp
  moreover have "rs_attempts stats \<le> rp_max policy + 1" using c n by simp
  ultimately have "case out of Inr v \<Rightarrow> r = Inr v | Inl (Fatal src cls det) \<Rightarrow> r = Inl (Fatal src cls det)
      | Inl (Retriable src hint cls det) \<Rightarrow>
          (if rs_attempts stats = rp_max policy + 1 then r = Inl (Retriable src hint cls det)
           else \<exists>h. hint = Some h \<and> h > retry_after_ceiling policy \<and> r = Inl (give_up policy src h cls det))"
    by (cases "(policy, rs_attempts stats, out)" rule: verdict_at.cases)
      (auto split: if_splits option.splits)
  then show ?thesis using c out by simp
qed

text \<open>A clock that ticks once per call, and an operation that fails once.\<close>

definition tick_runtime :: "nat runtime" where
  "tick_runtime = \<lparr>rt_now = (\<lambda>w. w), rt_sleep_until = (\<lambda>t w. max t w), rt_sleep = (\<lambda>d w. w + d),
     rt_subsec_nanos = (\<lambda>w. w mod 10 ^ 9)\<rparr>"

definition flaky :: "u32 \<Rightarrow> nat \<Rightarrow> (ProviderError + nat) \<times> nat" where
  "flaky n w = (if n = 1 then (Inl (Retriable ''busy'' None PROVIDER_TIMEOUT None), w + 7) else (Inr n, w + 5))"

lemma flaky_run:
  "with_retry_limited (traced tick_runtime) default_policy (traced_op tick_runtime flaky) None (0, [])
   = (Inr 2, \<lparr>rs_attempts = 2, rs_in_flight = 12\<rparr>, None, 500000012,
      [Called 1 7 (Inl (Retriable ''busy'' None PROVIDER_TIMEOUT None)), Slept 500000000, Called 2 5 (Inr 2)])"
proof -
  let ?rt = "traced tick_runtime" and ?op = "traced_op tick_runtime flaky"
  let ?c = "Called 1 7 (Inl (Retriable ''busy'' None PROVIDER_TIMEOUT None)) :: nat event"
  have now: "rt_now tick_runtime w = w" "rt_sleep tick_runtime d w = w + d" for d w
    by (simp_all add: tick_runtime_def)
  have slot: "wait_for_slot ?rt None w = (None, w)" for w by (simp add: wait_for_slot_def)
  have op1: "?op (0 + 1) (0, []) = (Inl (Retriable ''busy'' None PROVIDER_TIMEOUT None), 7, [?c])"
    by (simp add: traced_op_def flaky_def now)
  have op2: "?op (0 + 1 + 1) (w, l) = (Inr 2, w + 5, l @ [Called 2 5 (Inr 2)])" for w l
    by (simp add: traced_op_def flaky_def now)
  have delay: "retry_delay default_policy (0 + 1) None n = 500000000" for n
    by (simp add: retry_delay_def backoff_none default_policy_def DEFAULT_INITIAL_MS_def DEFAULT_MAX_MS_def
        saturating_mul_def u64_max_def from_millis_def)
  have "retry_loop ?rt default_policy ?op 0 0 None (0, [])
      = retry_loop ?rt default_policy ?op (0 + 1) 7 None (500000007, [?c, Slept 500000000])"
    using delay by (subst retry_loop_step [where opn = ?op and made = 0, OF slot op1])
      (simp add: now default_policy_def DEFAULT_MAX_RETRIES_def Let_def)
  also have "\<dots> = (Inr 2, \<lparr>rs_attempts = 2, rs_in_flight = 12\<rparr>, None, 500000012, [?c, Slept 500000000, Called 2 5 (Inr 2)])"
    by (subst retry_loop_step [where opn = ?op and made = "0 + 1", OF slot op2]) (simp add: now)
  finally show ?thesis by (simp add: with_retry_limited_def)
qed


theorem retry_outcome_witness:
  "\<exists>r stats lm w evs. with_retry_limited (traced tick_runtime) default_policy (traced_op tick_runtime flaky) None (0, [])
      = (r, stats, lm, w, evs) \<and> length (calls evs) = 2 \<and> r = call_outcome (last (calls evs))"
  using retry_outcome [OF flaky_run] flaky_run by simp

end
