(* ===== verification/Provider.thy ===== *)
theory Provider
  imports Cache Retry Pricing
begin

text \<open>
  Requests, responses and the trait \<open>Provider\<close> (\<open>types.rs\<close>, \<open>provider.rs\<close>), the policy on empty
  outputs (\<open>empty_policy.rs\<close>) and the probe budget for entries under older keys (\<open>cache_adopt.rs\<close>,
  \<open>cache_migrate.rs\<close>). A provider is a record of its methods; its call acts on the world \<open>'w\<close>.
\<close>

section \<open>Messages and requests\<close>

datatype ChatRole = System | User | Assistant | Tool

definition role_as_str :: "ChatRole \<Rightarrow> string" where
  "role_as_str r = (case r of System \<Rightarrow> ''system'' | User \<Rightarrow> ''user'' | Assistant \<Rightarrow> ''assistant'' | Tool \<Rightarrow> ''tool'')"

datatype ContentBlock = TextBlock string | Thinking string "string option"

datatype MessageContent = MText string | Blocks "ContentBlock list"

definition content_text :: "MessageContent \<Rightarrow> string" where
  "content_text c = (case c of MText s \<Rightarrow> s
     | Blocks bs \<Rightarrow> join [CHR 0x0A] (List.map_filter (\<lambda>b. case b of TextBlock t \<Rightarrow> Some t | Thinking _ _ \<Rightarrow> None) bs))"

definition content_is_blank :: "MessageContent \<Rightarrow> bool" where
  "content_is_blank c = (case c of MText s \<Rightarrow> trim s = []
     | Blocks bs \<Rightarrow> list_all (\<lambda>b. case b of TextBlock t \<Rightarrow> trim t = [] | Thinking t _ \<Rightarrow> trim t = []) bs)"

record ChatMessage =
  cm_role :: ChatRole
  cm_content :: MessageContent
  cm_tool_calls :: "ToolCall list"
  cm_tool_call_id :: "string option"

datatype RenderedPrompt = PromptText string | PromptMessages "ChatMessage list"

text \<open>The encodings that \<open>#[derive(Serialize)]\<close> gives these types, members in declaration order.\<close>

definition opt_member :: "string \<Rightarrow> json option \<Rightarrow> (string \<times> json) list" where
  "opt_member k v = (case v of None \<Rightarrow> [] | Some j \<Rightarrow> [(k, j)])"

definition tool_call_json :: "ToolCall \<Rightarrow> json" where
  "tool_call_json t = JObject (opt_member ''id'' (map_option JString (tc_id t))
     @ [(''name'', JString (tc_name t)), (''arguments'', tc_arguments t)])"

definition block_json :: "ContentBlock \<Rightarrow> json" where
  "block_json b = (case b of
       TextBlock t \<Rightarrow> JObject [(''type'', JString ''text''), (''text'', JString t)]
     | Thinking t s \<Rightarrow> JObject ([(''type'', JString ''thinking''), (''thinking'', JString t)]
         @ opt_member ''signature'' (map_option JString s)))"

definition content_json :: "MessageContent \<Rightarrow> json" where
  "content_json c = (case c of MText s \<Rightarrow> JString s | Blocks bs \<Rightarrow> JArray (map block_json bs))"

definition message_json :: "ChatMessage \<Rightarrow> json" where
  "message_json m = JObject ([(''role'', JString (role_as_str (cm_role m))), (''content'', content_json (cm_content m))]
     @ (if cm_tool_calls m = [] then [] else [(''tool_calls'', JArray (map tool_call_json (cm_tool_calls m)))])
     @ opt_member ''tool_call_id'' (map_option JString (cm_tool_call_id m)))"

definition prompt_json :: "RenderedPrompt \<Rightarrow> json" where
  "prompt_json p = (case p of PromptText s \<Rightarrow> JObject [(''text'', JString s)]
     | PromptMessages ms \<Rightarrow> JObject [(''messages'', JArray (map message_json ms))])"

record ToolDef =
  td_name :: string
  td_description :: "string option"
  td_input_schema :: "json option"

definition tool_def_json :: "ToolDef \<Rightarrow> json" where
  "tool_def_json t = JObject ([(''name'', JString (td_name t))]
     @ opt_member ''description'' (map_option JString (td_description t))
     @ opt_member ''input_schema'' (td_input_schema t))"

record TestMeta =
  tm_id :: string
  tm_tags :: "string list"

record ProviderRequest =
  rq_prompt :: "RenderedPrompt option"
  rq_vars :: "(string \<times> json) list"
  rq_params :: "(string \<times> json) list"
  rq_test :: TestMeta
  rq_case_salt :: "string option"
  rq_tools :: "ToolDef list"

record ProviderResponse =
  pr_output :: Output
  pr_usage :: "TokenUsage option"
  pr_cost_usd :: "f64 option"
  pr_stop_reason :: "string option"
  pr_raw :: "json option"
  pr_tool_calls :: "ToolCall list"
  pr_reasoning :: "string option"
  pr_empty_reason :: "EmptyReason option"
  pr_model :: "string option"

definition error_class :: "ProviderError \<Rightarrow> ErrorClass" where
  "error_class e = (case e of Retriable _ _ cls _ \<Rightarrow> cls | Fatal _ cls _ \<Rightarrow> cls)"

definition error_details :: "ProviderError \<Rightarrow> json option" where
  "error_details e = (case e of Retriable _ _ _ det \<Rightarrow> det | Fatal _ _ det \<Rightarrow> det)"

section \<open>The trait \<open>Provider\<close>\<close>

record 'w Provider =
  pv_id :: string
  pv_fingerprint :: json
  pv_call :: "ProviderRequest \<Rightarrow> 'w \<Rightarrow> (ProviderError + ProviderResponse) \<times> 'w"
  pv_cacheable :: bool
  pv_program_digest :: "string option"
  pv_rate :: "ModelRate option"
  pv_legacy_fingerprints :: "json list"
  pv_request_preview :: "ProviderRequest \<Rightarrow> json option"
  pv_canonical_request :: "ProviderRequest \<Rightarrow> json option"
  pv_address :: "string option"
  pv_legacy_canonical_requests :: "ProviderRequest \<Rightarrow> json list"
  pv_cache_salt :: "string option"
  pv_classify_empty :: "ProviderResponse \<Rightarrow> EmptyReason option"

text \<open>The method body the trait gives \<open>classify_empty\<close>.\<close>

definition default_classify_empty :: "ProviderResponse \<Rightarrow> EmptyReason option" where
  "default_classify_empty r = or_else (pr_empty_reason r) (classify_blank (pr_output r))"

section \<open>Empty outputs (\<open>empty_policy.rs\<close>)\<close>

datatype StoreEmptyOutputs = Never | Reproducible | Always

definition REPRODUCIBLE :: "EmptyReason list" where
  "REPRODUCIBLE = [TRUNCATED, TOOL_USE_ONLY, OUTPUT_EXPR_EMPTY]"

text \<open>A compiled pattern is the predicate it decides.\<close>

record EmptyPolicy =
  ep_store :: StoreEmptyOutputs
  ep_refusal :: "(string \<Rightarrow> bool) list"

fun compile_patterns :: "(string \<Rightarrow> string + (string \<Rightarrow> bool)) \<Rightarrow> string list \<Rightarrow> (string \<times> string) + (string \<Rightarrow> bool) list" where
  "compile_patterns regex [] = Inr []"
| "compile_patterns regex (p # ps) = (case regex p of
     Inl e \<Rightarrow> Inl (p, e)
   | Inr re \<Rightarrow> (case compile_patterns regex ps of Inl e \<Rightarrow> Inl e | Inr res \<Rightarrow> Inr (re # res)))"

definition policy_from_suite ::
  "(string \<Rightarrow> string + (string \<Rightarrow> bool)) \<Rightarrow> StoreEmptyOutputs option \<Rightarrow> string list \<Rightarrow> (string \<times> string) + EmptyPolicy" where
  "policy_from_suite regex store patterns = (case compile_patterns regex patterns of
     Inl e \<Rightarrow> Inl e
   | Inr refusal \<Rightarrow> Inr \<lparr>ep_store = unwrap_or store Reproducible, ep_refusal = refusal\<rparr>)"

definition refusal_matches :: "serde \<Rightarrow> EmptyPolicy \<Rightarrow> Output \<Rightarrow> bool" where
  "refusal_matches sd pol out = list_ex (\<lambda>re. re (as_text sd out)) (ep_refusal pol)"

definition effective_reason :: "serde \<Rightarrow> EmptyPolicy \<Rightarrow> 'w Provider \<Rightarrow> ProviderResponse \<Rightarrow> EmptyReason option" where
  "effective_reason sd pol provider response =
     or_else (pv_classify_empty provider response) (then_some (refusal_matches sd pol (pr_output response)) REFUSAL)"

definition should_store :: "EmptyPolicy \<Rightarrow> EmptyReason option \<Rightarrow> bool" where
  "should_store pol reason = (case reason of None \<Rightarrow> True
     | Some r \<Rightarrow> (case ep_store pol of Always \<Rightarrow> True | Never \<Rightarrow> False | Reproducible \<Rightarrow> List.member REPRODUCIBLE r))"

definition stored_entry_is_declined :: "EmptyPolicy \<Rightarrow> CacheEntry \<Rightarrow> bool" where
  "stored_entry_is_declined pol entry = (\<not> should_store pol (ce_empty_reason entry))"

section \<open>Older keys (\<open>cache_adopt.rs\<close>, \<open>cache_migrate.rs\<close>)\<close>

definition PROBE_BUDGET :: int where "PROBE_BUDGET = 8"

record MigrationProbe =
  mp_remaining :: int
  mp_adopted_any :: bool
  mp_enabled :: bool

definition new_probe :: MigrationProbe where
  "new_probe = \<lparr>mp_remaining = PROBE_BUDGET, mp_adopted_any = False, mp_enabled = True\<rparr>"

definition disabled_probe :: MigrationProbe where
  "disabled_probe = \<lparr>mp_remaining = 0, mp_adopted_any = False, mp_enabled = False\<rparr>"

definition should_probe :: "MigrationProbe \<Rightarrow> bool \<times> MigrationProbe" where
  "should_probe mp =
     (if \<not> mp_enabled mp then (False, mp)
      else if mp_adopted_any mp then (True, mp)
      else (mp_remaining mp > 0, mp\<lparr>mp_remaining := mp_remaining mp - 1\<rparr>))"

definition record_adoption :: "MigrationProbe \<Rightarrow> MigrationProbe" where
  "record_adoption mp = mp\<lparr>mp_adopted_any := True\<rparr>"

definition legacy_provider_key :: "hashing \<Rightarrow> json \<Rightarrow> ProviderRequest \<Rightarrow> u32 \<Rightarrow> CacheKey" where
  "legacy_provider_key h fingerprint req rep = compute h (JObject
     ([(''fingerprint'', fingerprint),
       (''prompt'', case rq_prompt req of None \<Rightarrow> JNull | Some p \<Rightarrow> prompt_json p),
       (''vars'', JObject (rq_vars req)), (''params'', JObject (rq_params req)),
       (''repeat'', JNumber (PosInt rep))]
      @ (if rq_tools req = [] then [] else [(''tools'', JArray (map tool_def_json (rq_tools req)))])
      @ opt_member ''case_salt'' (map_option JString (rq_case_salt req))))"

definition legacy_grader_verdict_key :: "hashing \<Rightarrow> json \<Rightarrow> json \<Rightarrow> u32 \<Rightarrow> CacheKey" where
  "legacy_grader_verdict_key h fingerprint graded rep = compute h (JObject
     [(''kind'', JString ''grader-verdict''), (''fingerprint'', fingerprint), (''graded'', graded),
      (''repeat'', JNumber (PosInt rep))])"

section \<open>Properties\<close>

text \<open>The probes a run makes: a caller asks, and when the probe finds an entry it records that.\<close>

fun probes :: "bool list \<Rightarrow> MigrationProbe \<Rightarrow> bool list" where
  "probes [] mp = []"
| "probes (finds # rest) mp =
     (let (go, mp') = should_probe mp in go # probes rest (if go \<and> finds then record_adoption mp' else mp'))"

lemma probes_adopted:
  "mp_enabled mp \<Longrightarrow> mp_adopted_any mp \<Longrightarrow> probes fs mp = replicate (length fs) True"
  by (induction fs arbitrary: mp) (auto simp: should_probe_def record_adoption_def)

lemma probes_fruitless:
  "mp_enabled mp \<Longrightarrow> \<not> mp_adopted_any mp \<Longrightarrow> \<forall>f \<in> set fs. \<not> f
   \<Longrightarrow> probes fs mp = replicate (min (nat (mp_remaining mp)) (length fs)) True
        @ replicate (length fs - nat (mp_remaining mp)) False"
proof (induction fs arbitrary: mp)
  case (Cons f fs)
  let ?mp = "mp\<lparr>mp_remaining := mp_remaining mp - 1\<rparr>"
  have IH: "probes fs ?mp = replicate (min (nat (mp_remaining ?mp)) (length fs)) True
      @ replicate (length fs - nat (mp_remaining ?mp)) False"
    using Cons.prems by (intro Cons.IH) auto
  show ?case
  proof (cases "mp_remaining mp > 0")
    case True
    then have "nat (mp_remaining mp) = Suc (nat (mp_remaining mp - 1))" by simp
    then show ?thesis using Cons.prems IH True by (simp add: should_probe_def)
  next
    case False
    then have "nat (mp_remaining mp) = 0" "nat (mp_remaining mp - 1) = 0" by simp_all
    then show ?thesis using Cons.prems IH False by (simp add: should_probe_def)
  qed
qed simp

lemma probes_find:
  "mp_enabled mp \<Longrightarrow> \<not> mp_adopted_any mp \<Longrightarrow> int n < mp_remaining mp
   \<Longrightarrow> probes (replicate n False @ True # fs) mp = replicate (n + 1 + length fs) True"
proof (induction n arbitrary: mp)
  case 0
  then show ?case by (simp add: should_probe_def record_adoption_def probes_adopted)
next
  case (Suc n)
  then have "probes (replicate n False @ True # fs) (mp\<lparr>mp_remaining := mp_remaining mp - 1\<rparr>)
    = replicate (n + 1 + length fs) True"
    by (intro Suc.IH) auto
  then show ?case using Suc.prems by (simp add: should_probe_def)
qed

lemma probes_disabled: "probes fs disabled_probe = replicate (length fs) False"
  by (induction fs) (auto simp: should_probe_def disabled_probe_def)

text \<open>The migration probe stops itself: a run whose probes find nothing makes at most \<open>PROBE_BUDGET\<close> of
  them, however many calls ask; when one within the budget finds an entry, every later call probes too;
  a disabled probe never goes.\<close>

theorem probe_budget:
  "probes (replicate n False) new_probe = replicate (min 8 n) True @ replicate (n - 8) False
   \<and> (k < 8 \<longrightarrow> probes (replicate k False @ True # fs) new_probe = replicate (k + 1 + length fs) True)
   \<and> probes fs disabled_probe = replicate (length fs) False"
  using probes_fruitless [of new_probe "replicate n False"] probes_find [of new_probe k fs]
  by (simp add: new_probe_def PROBE_BUDGET_def probes_disabled)

theorem probe_budget_witness: "probes [False, True, False] new_probe = [True, True, True]"
  using probe_budget [of 0 1 "[False]"] by (simp add: eval_nat_numeral)

end
