(* ===== verification/Disk.thy ===== *)
theory Disk
  imports Cache "HOL-Library.Product_Lexorder"
begin

text \<open>
  The local disk cache (\<open>crates/domarinn-cache/src/disk.rs\<close>): one file per entry under a shard directory,
  written to a temporary file and renamed.

  The directory is part of the state: its shards with their files. A file's content is kept parsed: an
  entry that serialised and parses back as itself, or \<open>Corrupt\<close> bytes that do not parse. Every call
  into the file system takes one bit of \<open>dk_faults\<close>; a set bit makes that call fail. Error texts leave
  out the path and the message of the operating system.
\<close>

section \<open>Model\<close>

datatype Body = Stored CacheEntry | Corrupt

record DiskFile =
  fl_body :: Body
  fl_len :: u64
  fl_modified :: "date_time option"

type_synonym path = "string \<times> string"

record Disk =
  dk_shards :: "(string \<times> (string \<times> DiskFile) list) list"
  dk_faults :: "bool list"
  dk_now :: date_time
  dk_pid :: nat
  dk_counter :: nat

definition io :: "Disk \<Rightarrow> bool \<times> Disk" where
  "io d = (case dk_faults d of [] \<Rightarrow> (False, d) | f # fs \<Rightarrow> (f, d\<lparr>dk_faults := fs\<rparr>))"

definition read_file :: "path \<Rightarrow> Disk \<Rightarrow> DiskFile option" where
  "read_file p d = Option.bind (map_of (dk_shards d) (fst p)) (\<lambda>fs. map_of fs (snd p))"

definition create_dir :: "string \<Rightarrow> Disk \<Rightarrow> Disk" where
  "create_dir sh d = (if map_of (dk_shards d) sh = None then d\<lparr>dk_shards := dk_shards d @ [(sh, [])]\<rparr> else d)"

definition in_shard :: "string \<Rightarrow> ((string \<times> DiskFile) list \<Rightarrow> (string \<times> DiskFile) list) \<Rightarrow> Disk \<Rightarrow> Disk" where
  "in_shard sh g d = d\<lparr>dk_shards := map (\<lambda>(s, fs). (s, if s = sh then g fs else fs)) (dk_shards d)\<rparr>"

definition remove_file :: "path \<Rightarrow> Disk \<Rightarrow> Disk" where
  "remove_file p d = in_shard (fst p) (filter (\<lambda>(n, _). n \<noteq> snd p)) d"

definition write_file :: "path \<Rightarrow> DiskFile \<Rightarrow> Disk \<Rightarrow> Disk" where
  "write_file p f d = in_shard (fst p) (\<lambda>fs. (snd p, f) # filter (\<lambda>(n, _). n \<noteq> snd p) fs) d"

definition key_hex :: "CacheKey \<Rightarrow> string" where
  "key_hex k = (case k of CacheKey s \<Rightarrow> unwrap_or (strip_prefix s ''sha256:'') s)"

definition path_for :: "CacheKey \<Rightarrow> path" where
  "path_for k = (let hex = key_hex k in (take 2 hex, hex @ ''.json''))"

definition unique_suffix :: "Disk \<Rightarrow> string \<times> Disk" where
  "unique_suffix d = (show_nat (dk_pid d) @ ''-'' @ show_nat (dk_counter d), d\<lparr>dk_counter := dk_counter d + 1\<rparr>)"

definition disk_get :: "CacheKey \<Rightarrow> Disk \<Rightarrow> (CacheError + CacheEntry option) \<times> Disk" where
  "disk_get key d =
     (let (failed, d) = io d
      in if failed then (Inl ''reading'', d)
         else case read_file (path_for key) d of
             None \<Rightarrow> (Inr None, d)
           | Some f \<Rightarrow> (case fl_body f of Stored e \<Rightarrow> (Inr (Some e), d) | Corrupt \<Rightarrow> (Inl ''corrupt cache entry'', d)))"

text \<open>The write of the temporary file and the rename into place.\<close>

definition rename_into :: "path \<Rightarrow> path \<Rightarrow> DiskFile \<Rightarrow> Disk \<Rightarrow> (CacheError + unit) \<times> Disk" where
  "rename_into tmp path f d =
     (let (failed, d) = io d
      in if \<not> failed then (Inr (), write_file path f (remove_file tmp d))
         else let (failed, d) = io d;
                  d = (if failed then d else remove_file tmp d);
                  (failed, d) = io d
              in if \<not> failed \<and> read_file path d \<noteq> None then (Inr (), d) else (Inl ''renaming'', d))"

definition disk_put :: "(CacheEntry \<Rightarrow> u64) \<Rightarrow> CacheKey \<Rightarrow> CacheEntry \<Rightarrow> Disk \<Rightarrow> (CacheError + unit) \<times> Disk" where
  "disk_put size_of key entry d =
     (let path = path_for key; (failed, d) = io d
      in if \<not> failed \<and> read_file path d \<noteq> None then (Inr (), d)
         else let (failed, d) = io d
              in if failed then (Inl ''creating'', d)
                 else let d = create_dir (fst path) d;
                          (suffix, d) = unique_suffix d;
                          tmp = (fst path, key_hex key @ ''.tmp-'' @ suffix);
                          f = \<lparr>fl_body = Stored entry, fl_len = size_of entry, fl_modified = Some (dk_now d)\<rparr>;
                          (failed, d) = io d
                      in if failed then (Inl ''writing'', write_file tmp (f\<lparr>fl_body := Corrupt\<rparr>) d)
                         else rename_into tmp path f (write_file tmp f d))"

text \<open>The walk over all files that \<open>stats\<close>, \<open>purge\<close> and \<open>enumerate\<close> share: shard by shard, each
  directory listed when it is opened.\<close>

fun walk_shard ::
  "(path \<Rightarrow> 's \<Rightarrow> Disk \<Rightarrow> 's \<times> Disk) \<Rightarrow> string \<Rightarrow> string list \<Rightarrow> 's \<Rightarrow> Disk \<Rightarrow> (CacheError + 's) \<times> Disk" where
  "walk_shard step sh names s d =
     (let (failed, d) = io d
      in if failed then (Inl ''iterating shard'', d)
         else case names of
             [] \<Rightarrow> (Inr s, d)
           | n # ns \<Rightarrow> (let (s, d) = step (sh, n) s d in walk_shard step sh ns s d))"

declare walk_shard.simps [simp del]

fun walk_shards ::
  "(path \<Rightarrow> 's \<Rightarrow> Disk \<Rightarrow> 's \<times> Disk) \<Rightarrow> string list \<Rightarrow> 's \<Rightarrow> Disk \<Rightarrow> (CacheError + 's) \<times> Disk" where
  "walk_shards step shards s d =
     (let (failed, d) = io d
      in if failed then (Inl ''iterating shards'', d)
         else case shards of
             [] \<Rightarrow> (Inr s, d)
           | sh # rest \<Rightarrow>
               (let (failed, d) = io d
                in if failed then walk_shards step rest s d
                   else let (failed, d) = io d
                        in if failed then (Inl ''reading shard'', d)
                           else case walk_shard step sh (map fst (unwrap_or (map_of (dk_shards d) sh) [])) s d of
                               (Inl e, d) \<Rightarrow> (Inl e, d)
                             | (Inr s, d) \<Rightarrow> walk_shards step rest s d))"

declare walk_shards.simps [simp del]

definition walk :: "(path \<Rightarrow> 's \<Rightarrow> Disk \<Rightarrow> 's \<times> Disk) \<Rightarrow> 's \<Rightarrow> Disk \<Rightarrow> (CacheError + 's) \<times> Disk" where
  "walk step s d = (let (failed, d) = io d
     in if failed then (Inl ''reading'', d) else walk_shards step (map fst (dk_shards d)) s d)"

definition strip_suffix :: "string \<Rightarrow> string \<Rightarrow> string option" where
  "strip_suffix s suf = map_option rev (strip_prefix (rev s) (rev suf))"

definition stats_step :: "path \<Rightarrow> CacheStats \<Rightarrow> Disk \<Rightarrow> CacheStats \<times> Disk" where
  "stats_step p s d =
     (if strip_suffix (snd p) ''.json'' = None then (s, d)
      else let (failed, d) = io d
           in case (failed, read_file p d) of
                (False, Some f) \<Rightarrow> (s\<lparr>cs_entries := cs_entries s + 1, cs_total_bytes := cs_total_bytes s + fl_len f\<rparr>, d)
              | _ \<Rightarrow> (s, d))"

definition disk_stats :: "Disk \<Rightarrow> (CacheError + CacheStats) \<times> Disk" where
  "disk_stats d = walk stats_step default_stats d"

definition matches_age :: "PurgeFilter \<Rightarrow> date_time \<Rightarrow> date_time option \<Rightarrow> bool" where
  "matches_age filt now mtime =
     ((case pf_older_than filt of None \<Rightarrow> True
       | Some d \<Rightarrow> (case mtime of None \<Rightarrow> False | Some m \<Rightarrow> m < now - d))
    \<and> (case pf_newer_than filt of None \<Rightarrow> True
       | Some d \<Rightarrow> (case mtime of None \<Rightarrow> False | Some m \<Rightarrow> m \<ge> now - d)))"

definition has_json_extension :: "string \<Rightarrow> bool" where
  "has_json_extension n = (case strip_suffix n ''.json'' of None \<Rightarrow> False | Some stem \<Rightarrow> stem \<noteq> [])"

definition should_remove :: "PurgeFilter \<Rightarrow> date_time \<Rightarrow> path \<Rightarrow> Disk \<Rightarrow> bool \<times> Disk" where
  "should_remove filt now p d =
     (if is_default filt then (True, d)
      else let (failed, d) = io d;
               mtime = (if failed then None else Option.bind (read_file p d) fl_modified)
           in if \<not> matches_age filt now mtime then (False, d)
              else if is_age_only filt then (True, d)
              else let (failed, d) = io d
                   in (case (failed, map_option fl_body (read_file p d)) of
                         (False, Some (Stored e)) \<Rightarrow> matches_entry filt e
                       | _ \<Rightarrow> False, d))"

definition purge_step :: "PurgeFilter \<Rightarrow> date_time \<Rightarrow> path \<Rightarrow> u64 \<Rightarrow> Disk \<Rightarrow> u64 \<times> Disk" where
  "purge_step filt now p removed d =
     (if \<not> has_json_extension (snd p) then (removed, d)
      else let (go, d) = should_remove filt now p d
           in if \<not> go then (removed, d)
              else let (failed, d) = io d
                   in if failed then (removed, d) else (removed + 1, remove_file p d))"

definition disk_purge :: "PurgeFilter \<Rightarrow> Disk \<Rightarrow> (CacheError + u64) \<times> Disk" where
  "disk_purge filt d = walk (purge_step filt (dk_now d)) 0 d"

definition LocalDiskCache :: "(CacheEntry \<Rightarrow> u64) \<Rightarrow> Disk CacheBackend" where
  "LocalDiskCache size_of = \<lparr>be_get = disk_get, be_put = disk_put size_of, be_stats = disk_stats, be_purge = disk_purge\<rparr>"

record EnumeratedEntry =
  en_key :: CacheKey
  en_size :: u64
  en_modified :: "date_time option"

record Enumerated =
  en_entries :: "EnumeratedEntry list"
  en_truncated :: bool
  en_scanned :: u64

definition enumerate_step :: "path \<Rightarrow> EnumeratedEntry list \<times> u64 \<Rightarrow> Disk \<Rightarrow> (EnumeratedEntry list \<times> u64) \<times> Disk" where
  "enumerate_step p acc d = (let (found, scanned) = acc
     in case strip_suffix (snd p) ''.json'' of None \<Rightarrow> ((found, scanned), d)
      | Some hex \<Rightarrow>
          (let key = ''sha256:'' @ hex
           in if \<not> is_valid key then ((found, scanned + 1), d)
              else let (failed, d) = io d
                   in case (failed, read_file p d) of
                        (False, Some f) \<Rightarrow>
                          ((found @ [\<lparr>en_key = CacheKey key, en_size = fl_len f, en_modified = fl_modified f\<rparr>], scanned + 1), d)
                      | _ \<Rightarrow> ((found, scanned + 1), d)))"

text \<open>The sort key: later first (no modification time last), then the key's text.\<close>

definition recency :: "EnumeratedEntry \<Rightarrow> (int \<times> int) \<times> string" where
  "recency e = ((case en_modified e of Some t \<Rightarrow> (0, - t) | None \<Rightarrow> (1, 0)), case en_key e of CacheKey s \<Rightarrow> s)"

definition enumerate_disk :: "nat \<Rightarrow> Disk \<Rightarrow> (CacheError + Enumerated) \<times> Disk" where
  "enumerate_disk bound d = (case walk enumerate_step ([], 0) d of
       (Inl e, d) \<Rightarrow> (Inl e, d)
     | (Inr (found, scanned), d) \<Rightarrow>
         (Inr \<lparr>en_entries = take bound (sort_key recency found), en_truncated = (length found > bound),
               en_scanned = scanned\<rparr>, d))"

section \<open>Files\<close>

lemma io_shards [simp]: "dk_shards (snd (io d)) = dk_shards d" "dk_now (snd (io d)) = dk_now d"
  by (simp_all add: io_def split: list.splits)

lemma read_file_io [simp]: "read_file p (snd (io d)) = read_file p d"
  by (simp add: read_file_def)

lemma ioE: "io d = (f, d') \<Longrightarrow> dk_shards d' = dk_shards d"
  using io_shards(1) [of d] by simp

lemma map_of_in_shard:
  "map_of (map (\<lambda>(s, fs). (s, if s = sh then g fs else fs)) shards) s
   = (if s = sh then map_option g (map_of shards s) else map_of shards s)"
  by (induction shards) auto

lemma map_of_filter_name: "map_of (filter (\<lambda>(n, _). n \<noteq> x) fs) n = (if n = x then None else map_of fs n)"
  by (induction fs) auto

lemma read_remove_file: "read_file p (remove_file q d) = (if p = q then None else read_file p d)"
  by (cases "map_of (dk_shards d) (fst p)")
    (auto simp: read_file_def remove_file_def in_shard_def map_of_in_shard map_of_filter_name prod_eq_iff)

lemma read_write_file:
  "read_file p (write_file q f d)
   = (if p = q then (if map_of (dk_shards d) (fst q) = None then None else Some f) else read_file p d)"
  by (cases "map_of (dk_shards d) (fst p)")
    (auto simp: read_file_def write_file_def in_shard_def map_of_in_shard map_of_filter_name prod_eq_iff)

lemma read_create_dir [simp]: "read_file p (create_dir sh d) = read_file p d"
  by (cases "map_of (dk_shards d) (fst p)")
    (auto simp: read_file_def create_dir_def map_add_def split: option.splits)

lemma create_dir_exists: "map_of (dk_shards (create_dir sh d)) sh \<noteq> None"
  by (auto simp: create_dir_def map_add_def)

lemma write_file_dirs: "map_of (dk_shards (write_file q f d)) s = None \<longleftrightarrow> map_of (dk_shards d) s = None"
  "map_of (dk_shards (remove_file q d)) s = None \<longleftrightarrow> map_of (dk_shards d) s = None"
  by (auto simp: write_file_def remove_file_def in_shard_def map_of_in_shard)

lemma read_file_shards: "dk_shards d = dk_shards d' \<Longrightarrow> read_file p d = read_file p d'"
  by (simp add: read_file_def)

section \<open>Paths\<close>

lemma valid_key_hex: "valid_key k \<Longrightarrow> k = CacheKey (''sha256:'' @ key_hex k)"
  by (cases k) (auto simp: valid_key_def is_valid_def key_hex_def strip_prefix_Some split: option.splits)

lemma snd_path_for: "snd (path_for k) = key_hex k @ ''.json''"
  by (simp add: path_for_def Let_def)

lemma path_for_inj: "valid_key k \<Longrightarrow> valid_key k' \<Longrightarrow> path_for k = path_for k' \<longleftrightarrow> k = k'"
  using valid_key_hex [of k] valid_key_hex [of k'] by (auto simp: path_for_def Let_def)

lemma show_nat_last: "last (show_nat n) \<noteq> CHR ''n''" "show_nat n \<noteq> []"
proof -
  have code: "(of_char (char_of (48 + n mod 10) :: char) :: nat) = 48 + n mod 10" by simp
  have "n mod 10 < 10" by simp
  then have "48 + n mod 10 \<noteq> (of_char (CHR ''n'') :: nat)" by simp
  then have "char_of (48 + n mod 10) \<noteq> CHR ''n''" using code by metis
  moreover have "last (show_nat n) = char_of (48 + n mod 10)" by (subst show_nat.simps) simp
  ultimately show "last (show_nat n) \<noteq> CHR ''n''" by simp
  show "show_nat n \<noteq> []" by (subst show_nat.simps) simp
qed

lemma tmp_not_json: "hex @ ''.tmp-'' @ show_nat p @ ''-'' @ show_nat c \<noteq> hex' @ ''.json''"
proof
  assume eq: "hex @ ''.tmp-'' @ show_nat p @ ''-'' @ show_nat c = hex' @ ''.json''"
  then have "last (hex @ ''.tmp-'' @ show_nat p @ ''-'' @ show_nat c) = last (hex' @ ''.json'')" by (rule arg_cong)
  then show False using show_nat_last [of c] by simp
qed

section \<open>The contract\<close>

definition disk_stored :: "Disk \<Rightarrow> CacheKey \<Rightarrow> CacheEntry set" where
  "disk_stored d k = {e. \<exists>f. read_file (path_for k) d = Some f \<and> fl_body f = Stored e}"

definition disk_durable :: "Disk \<Rightarrow> CacheKey \<Rightarrow> bool" where
  "disk_durable d k \<longleftrightarrow> read_file (path_for k) d \<noteq> None"

lemma disk_get_files: "read_file p (snd (disk_get k d)) = read_file p d"
  by (simp add: disk_get_def Let_def case_prod_beta split: option.split Body.split)

lemma disk_get_result:
  "disk_get k d = (Inr r, d') \<Longrightarrow> (case r of None \<Rightarrow> read_file (path_for k) d = None
     | Some e \<Rightarrow> \<exists>f. read_file (path_for k) d = Some f \<and> fl_body f = Stored e)"
  by (auto simp: disk_get_def Let_def case_prod_beta split: option.splits Body.splits if_splits)

text \<open>What a rename or a write can do to the file of another path.\<close>

lemma rename_into_files:
  assumes "rename_into tmp path f d = (r, d')" and "p \<noteq> tmp" and "map_of (dk_shards d) (fst path) \<noteq> None"
  shows "read_file p d' = read_file p d \<or> p = path \<and> read_file p d' = Some f"
    and "path \<noteq> tmp \<Longrightarrow> r = Inr () \<Longrightarrow> read_file path d' \<noteq> None"
proof -
  obtain f1 d1 where 1: "io d = (f1, d1)" by fastforce
  obtain f2 d2 where 2: "io d1 = (f2, d2)" by fastforce
  define d3 where "d3 = (if f2 then d2 else remove_file tmp d2)"
  obtain f4 d4 where 4: "io d3 = (f4, d4)" by fastforce
  note shards = ioE [OF 1] ioE [OF 2] ioE [OF 4]
  have r1: "read_file q d1 = read_file q d" and r4: "read_file q d4 = read_file q d3" for q
    using shards(1,3) by (simp_all add: read_file_def)
  have r3: "q \<noteq> tmp \<Longrightarrow> read_file q d3 = read_file q d" for q
    using shards(1,2) by (simp add: d3_def read_remove_file) (simp add: read_file_def)
  have dirs: "map_of (dk_shards (remove_file tmp d1)) (fst path) \<noteq> None"
    using assms(3) shards(1) by (simp add: write_file_dirs)
  have eq: "(r, d') = (if \<not> f1 then (Inr (), write_file path f (remove_file tmp d1))
      else if \<not> f4 \<and> read_file path d4 \<noteq> None then (Inr (), d4) else (Inl ''renaming'', d4))"
    using assms(1) 1 2 4 by (auto simp: rename_into_def Let_def d3_def split: if_splits)
  show "read_file p d' = read_file p d \<or> p = path \<and> read_file p d' = Some f"
    using eq assms(2) r1 r3 r4 dirs by (auto simp: read_write_file read_remove_file split: if_splits)
  show "read_file path d' \<noteq> None" if "path \<noteq> tmp" "r = Inr ()"
    using eq that dirs by (auto simp: read_write_file split: if_splits)
qed

lemma disk_put_files:
  assumes "disk_put sz k e d = (r, d')" and "snd p = hex @ ''.json''"
  shows "read_file p d' = read_file p d
    \<or> p = path_for k \<and> (\<exists>f. read_file p d' = Some f \<and> fl_body f = Stored e)"
    and "r = Inr () \<Longrightarrow> read_file (path_for k) d' \<noteq> None"
proof -
  let ?d1 = "snd (io d)"
  let ?d2 = "snd (io ?d1)"
  let ?d3 = "create_dir (fst (path_for k)) ?d2"
  obtain suffix d4 where 4: "unique_suffix ?d3 = (suffix, d4)" by fastforce
  let ?tmp = "(fst (path_for k), key_hex k @ ''.tmp-'' @ suffix)"
  let ?f = "\<lparr>fl_body = Stored e, fl_len = sz e, fl_modified = Some (dk_now d4)\<rparr>"
  let ?d5 = "snd (io d4)"
  have suffix: "suffix = show_nat (dk_pid ?d3) @ ''-'' @ show_nat (dk_counter ?d3)" and s4: "dk_shards d4 = dk_shards ?d3"
    using 4 by (auto simp: unique_suffix_def)
  have "key_hex k @ ''.tmp-'' @ suffix \<noteq> h @ ''.json''" for h unfolding suffix by (rule tmp_not_json)
  then have tmp: "p \<noteq> ?tmp" "path_for k \<noteq> ?tmp"
    using assms(2) unfolding path_for_def Let_def prod_eq_iff fst_conv snd_conv by metis+
  have s5: "read_file q ?d5 = read_file q d" for q
    by (simp add: read_file_shards [OF s4])
  have dirs: "map_of (dk_shards (write_file ?tmp ?f ?d5)) (fst (path_for k)) \<noteq> None"
    using create_dir_exists [of "fst (path_for k)" ?d2] by (simp add: write_file_dirs s4)
  have eq: "(r, d') = (if \<not> fst (io d) \<and> read_file (path_for k) d \<noteq> None then (Inr (), ?d1)
      else if fst (io ?d1) then (Inl ''creating'', ?d2)
      else if fst (io d4) then (Inl ''writing'', write_file ?tmp (?f\<lparr>fl_body := Corrupt\<rparr>) ?d5)
      else rename_into ?tmp (path_for k) ?f (write_file ?tmp ?f ?d5))"
    unfolding assms(1) [symmetric] disk_put_def Let_def case_prod_beta 4 fst_conv snd_conv read_file_io by (rule refl)
  have ren: "read_file p d' = read_file p d \<or> p = path_for k \<and> read_file p d' = Some ?f"
    "r = Inr () \<Longrightarrow> read_file (path_for k) d' \<noteq> None"
    if "rename_into ?tmp (path_for k) ?f (write_file ?tmp ?f ?d5) = (r, d')"
    using rename_into_files [OF that tmp(1) dirs] tmp s5 by (simp_all add: read_write_file)
  show "read_file p d' = read_file p d
      \<or> p = path_for k \<and> (\<exists>f. read_file p d' = Some f \<and> fl_body f = Stored e)"
    using eq ren(1) tmp(1) s5 by (auto simp: read_write_file split: if_splits)
  show "r = Inr () \<Longrightarrow> read_file (path_for k) d' \<noteq> None"
    using eq ren(2) by (auto split: if_splits)
qed

text \<open>Invariants of a walk: what the file-system calls and the step keep, the walk keeps.\<close>

lemma walk_shard_inv:
  assumes "\<And>d. P d \<Longrightarrow> P (snd (io d))" and "\<And>p s d. P d \<Longrightarrow> P (snd (step p s d))"
  shows "P d \<Longrightarrow> P (snd (walk_shard step sh names s d))"
proof (induction names arbitrary: s d)
  case Nil
  then show ?case using assms(1) by (simp add: walk_shard.simps [of step sh "[]"] case_prod_beta Let_def)
next
  case (Cons n ns)
  have "P (snd (step (sh, n) s (snd (io d))))" using assms Cons.prems by blast
  then show ?case using Cons.IH assms(1) [OF Cons.prems]
    by (simp add: walk_shard.simps [of step sh "n # ns"] case_prod_beta Let_def)
qed

lemma walk_shards_inv:
  assumes "\<And>d. P d \<Longrightarrow> P (snd (io d))" and "\<And>p s d. P d \<Longrightarrow> P (snd (step p s d))"
  shows "P d \<Longrightarrow> P (snd (walk_shards step shards s d))"
proof (induction shards arbitrary: s d)
  case Nil
  then show ?case using assms(1) by (simp add: walk_shards.simps [of step "[]"] case_prod_beta Let_def)
next
  case (Cons sh rest)
  let ?d3 = "snd (io (snd (io (snd (io d)))))"
  let ?w = "walk_shard step sh (map fst (unwrap_or (map_of (dk_shards ?d3) sh) [])) s ?d3"
  have "P ?d3" using assms(1) Cons.prems by blast
  then have "P (snd ?w)" using walk_shard_inv [where P = P and step = step] assms by blast
  then show ?case using Cons assms(1)
    by (cases ?w) (auto simp: walk_shards.simps [of step "sh # rest"] case_prod_beta Let_def split: sum.splits)
qed

lemma walk_inv:
  assumes "\<And>d. P d \<Longrightarrow> P (snd (io d))" and "\<And>p s d. P d \<Longrightarrow> P (snd (step p s d))" and "P d"
  shows "P (snd (walk step s d))"
  using walk_shards_inv [where P = P, OF assms(1,2)] assms(1) [OF assms(3)]
  by (simp add: walk_def case_prod_beta Let_def assms(1,2))

lemma stats_files: "read_file p (snd (disk_stats d)) = read_file p d"
proof -
  let ?P = "\<lambda>d'. \<forall>p. read_file p d' = read_file p d"
  have "?P (snd (walk stats_step default_stats d))"
    by (rule walk_inv [where P = ?P])
      (auto simp: stats_step_def Let_def case_prod_beta split: option.splits bool.splits)
  then show ?thesis unfolding disk_stats_def by blast
qed

lemma should_remove_files [simp]: "read_file p (snd (should_remove filt now q d)) = read_file p d"
  by (simp add: should_remove_def Let_def case_prod_beta)

lemma purge_files: "read_file p (snd (disk_purge filt d)) \<in> {None, read_file p d}"
proof -
  let ?P = "\<lambda>d'. \<forall>p. read_file p d' \<in> {None, read_file p d}"
  have "?P (snd (walk (purge_step filt (dk_now d)) 0 d))"
    by (rule walk_inv [where P = ?P])
      (auto simp: purge_step_def Let_def case_prod_beta read_remove_file)
  then show ?thesis unfolding disk_purge_def by blast
qed

interpretation disk: storing_cache "LocalDiskCache size_of" disk_stored disk_durable for size_of
proof (unfold_locales, goal_cases)
  case (1 k w e w')
  then show ?case using disk_get_result [of k w] by (fastforce simp: LocalDiskCache_def disk_stored_def)
next
  case (2 k k' w r w')
  then show ?case using disk_get_files [of _ k w] by (simp add: LocalDiskCache_def disk_stored_def)
next
  case (3 k k' e w q w')
  then have "disk_put size_of k e w = (q, w')" by (simp add: LocalDiskCache_def)
  note files = disk_put_files(1) [OF this snd_path_for [of k']]
  show ?case
  proof (cases "read_file (path_for k') w' = read_file (path_for k') w")
    case True
    then show ?thesis by (simp add: disk_stored_def)
  next
    case False
    then show ?thesis using files path_for_inj [OF 3(2,1)] by (auto simp: disk_stored_def)
  qed
next
  case (4 k' w s w')
  then show ?case using stats_files [of _ w] by (simp add: LocalDiskCache_def disk_stored_def)
next
  case (5 k' filt w n w')
  then show ?case using purge_files [of "path_for k'" filt w] by (auto simp: LocalDiskCache_def disk_stored_def)
next
  case (6 k e w w')
  then have "disk_put size_of k e w = (Inr (), w')" by (simp add: LocalDiskCache_def)
  from disk_put_files(2) [OF this snd_path_for] show ?case by (simp add: disk_durable_def)
next
  case (7 k w r w')
  then show ?case using disk_get_result [of k w r w'] by (cases r) (auto simp: LocalDiskCache_def disk_durable_def)
next
  case (8 k k' w)
  then show ?case using disk_get_files by (simp add: LocalDiskCache_def disk_durable_def)
next
  case (9 k k' w e)
  obtain r d' where put: "disk_put size_of k e w = (r, d')" by fastforce
  show ?case using disk_put_files(1) [OF put snd_path_for [of k']] 9 put
    by (auto simp: LocalDiskCache_def disk_durable_def)
next
  case (10 k' w)
  then show ?case using stats_files by (simp add: LocalDiskCache_def disk_durable_def)
qed

interpretation disk_over_disk: two_tiers "LocalDiskCache size_of" disk_stored disk_durable
  "LocalDiskCache size_of'" disk_stored for size_of size_of'
  by unfold_locales

interpretation disk_view: read_only_view "LocalDiskCache size_of" disk_stored for size_of
  by unfold_locales

definition quiet :: "Disk \<Rightarrow> bool" where
  "quiet d \<longleftrightarrow> dk_faults d = []"

lemma io_quiet [simp]: "quiet d \<Longrightarrow> io d = (False, d)"
  by (simp add: quiet_def io_def)

lemma remove_quiet [simp]: "quiet (remove_file p d) = quiet d"
  by (simp add: quiet_def remove_file_def in_shard_def)

lemma quiet_simps [simp]:
  "quiet (write_file p f d) = quiet d" "quiet (create_dir sh d) = quiet d"
  "quiet (d\<lparr>dk_counter := c\<rparr>) = quiet d" "quiet (in_shard sh g d) = quiet d"
  by (simp_all add: quiet_def write_file_def create_dir_def in_shard_def)

lemma disk_put_quiet: "quiet d \<Longrightarrow> fst (disk_put sz k e d) = Inr () \<and> quiet (snd (disk_put sz k e d))"
  by (simp add: disk_put_def rename_into_def unique_suffix_def Let_def)

lemma disk_get_quiet:
  "quiet d \<Longrightarrow> disk_get k d = (case read_file (path_for k) d of None \<Rightarrow> Inr None
     | Some f \<Rightarrow> (case fl_body f of Stored e \<Rightarrow> Inr (Some e) | Corrupt \<Rightarrow> Inl ''corrupt cache entry''), d)"
  by (simp add: disk_get_def split: option.split Body.split)

text \<open>A put into a free place of a quiet disk is read back.\<close>

lemma put_get_quiet:
  assumes "quiet d" and "read_file (path_for k) d = None" and "disk_put sz k e d = (r, d')"
  shows "disk_get k d' = (Inr (Some e), d')"
proof -
  have "r = Inr ()" "quiet d'" using disk_put_quiet [OF assms(1), of sz k e] assms(3) by simp_all
  then show ?thesis
    using disk_put_files [OF assms(3) snd_path_for [of k]] assms(2) by (auto simp: disk_get_quiet)
qed

text \<open>C40: Read your writes through the layered cache, whatever the remote tier is: once a \<open>put\<close> has
  succeeded, any later \<open>get\<close> of the key that does not fail is a hit, however many gets, puts and stats calls
  (with whatever file-system and remote failures) come in between; the entry is the one put, one that
  was already stored under the same key, or one a later put brought under the same key.\<close>

theorem layered_put_then_get:
  assumes "cache_backend re re_stored" and "valid_key k"
    and "be_put (LayeredCache (LocalDiskCache size_of) re) k e w = (Inr (), w1)"
    and "ops_valid ops" and "list_all (\<lambda>c. \<not> is_purge c) ops"
    and "be_get (LayeredCache (LocalDiskCache size_of) re) k
          (fold (run_op (LayeredCache (LocalDiskCache size_of) re)) ops w1) = (Inr r, w2)"
  shows "\<exists>e'. r = Some e' \<and> (e' = e \<or> e' \<in> both_tiers disk_stored re_stored w k \<or> Put k e' \<in> set ops)"
proof -
  have "two_tiers (LocalDiskCache size_of) disk_stored disk_durable re re_stored"
    using disk.storing_cache_axioms assms(1) by (rule two_tiers.intro)
  then show ?thesis using assms(2-) by (rule two_tiers.tiers_put_then_get)
qed

definition demo_entry :: CacheEntry where
  "demo_entry = \<lparr>ce_created_at = 0, ce_kind = Some PROVIDER, ce_provider_fingerprint = None, ce_request = None,
     ce_output = Text ''hi'', ce_usage = None, ce_cost_usd = None, ce_stop_reason = None, ce_raw = None,
     ce_attempts = Some 1, ce_provider_latency_ms = Some 5, ce_model = Some ''m'', ce_program_digest = None,
     ce_address = None, ce_verdict = None, ce_reasoning = None, ce_empty_reason = None, ce_tool_calls = [],
     ce_domarinn_version = ''1''\<rparr>"

definition demo_key :: CacheKey where
  "demo_key = CacheKey (''sha256:'' @ replicate 64 (CHR ''a''))"

definition empty_disk :: Disk where
  "empty_disk = \<lparr>dk_shards = [], dk_faults = [], dk_now = 9, dk_pid = 1, dk_counter = 0\<rparr>"

lemma demo_key_valid: "valid_key demo_key"
  by (simp add: demo_key_def valid_key_def is_valid_def strip_prefix_Some is_ascii_hexdigit_def is_ascii_uppercase_def
      eval_nat_numeral)

lemma demo_disk: "quiet empty_disk" "read_file p empty_disk = None"
  by (simp_all add: quiet_def empty_disk_def read_file_def)

theorem layered_put_then_get_witness:
  "\<exists>e w. be_get (LayeredCache (LocalDiskCache (\<lambda>_. 1)) (ReadOnlyCache (LocalDiskCache (\<lambda>_. 1)))) demo_key
      (snd (disk_put (\<lambda>_. 1) demo_key demo_entry empty_disk), empty_disk) = (Inr (Some e), w)"
proof -
  let ?L = "LayeredCache (LocalDiskCache (\<lambda>_. 1)) (ReadOnlyCache (LocalDiskCache (\<lambda>_. 1)))"
  obtain r d where put: "disk_put (\<lambda>_. 1) demo_key demo_entry empty_disk = (r, d)" by fastforce
  then have "r = Inr ()" using disk_put_quiet [OF demo_disk(1), of "\<lambda>_. 1" demo_key demo_entry] by simp
  then have lput: "be_put ?L demo_key demo_entry (empty_disk, empty_disk) = (Inr (), d, empty_disk)"
    using put by (simp add: layered_put_def LocalDiskCache_def ReadOnlyCache_def)
  have "be_get ?L demo_key (d, empty_disk) = (Inr (Some demo_entry), d, empty_disk)"
    using put_get_quiet [OF demo_disk put] by (simp add: layered_get_def LocalDiskCache_def)
  then show ?thesis
    using layered_put_then_get [OF disk_view.view.cache_backend_axioms demo_key_valid lput, of "[]" "Some demo_entry"] put
    by (auto simp: ops_valid_def)
qed

section \<open>Purging\<close>

text \<open>Which files a purge is after: entries that meet every criterion the filter states, where an age
  criterion needs a known modification time and a criterion on the content a file that parses.\<close>

definition wanted :: "PurgeFilter \<Rightarrow> CacheEntry \<Rightarrow> bool" where
  "wanted filt e \<longleftrightarrow>
     (pf_empty_reason filt \<noteq> [] \<longrightarrow> (\<exists>has. ce_empty_reason e = Some has \<and> clamped has \<in> clamped ` set (pf_empty_reason filt)))
   \<and> (pf_model filt \<noteq> None \<longrightarrow> ce_model e = pf_model filt)
   \<and> (pf_kind filt \<noteq> None \<longrightarrow> inferred_kind e = pf_kind filt)"

definition selected :: "PurgeFilter \<Rightarrow> date_time \<Rightarrow> string \<Rightarrow> DiskFile \<Rightarrow> bool" where
  "selected filt now name f \<longleftrightarrow> has_json_extension name
   \<and> (\<forall>age. pf_older_than filt = Some age \<longrightarrow> (\<exists>t. fl_modified f = Some t \<and> t + age < now))
   \<and> (\<forall>age. pf_newer_than filt = Some age \<longrightarrow> (\<exists>t. fl_modified f = Some t \<and> now \<le> t + age))
   \<and> (pf_empty_reason filt = [] \<and> pf_model filt = None \<and> pf_kind filt = None
      \<or> (\<exists>e. fl_body f = Stored e \<and> wanted filt e))"

lemma matches_entry_wanted: "matches_entry filt e = wanted filt e"
  proof -
  have "list_ex (\<lambda>want. clamped want = clamped has) rs \<longleftrightarrow> clamped has \<in> clamped ` set rs" for has rs
    by (induction rs) auto
  then show ?thesis by (auto simp: matches_entry_def wanted_def Let_def split: option.splits)
qed

lemma matches_age_iff:
  "matches_age filt now mtime \<longleftrightarrow>
     (\<forall>age. pf_older_than filt = Some age \<longrightarrow> (\<exists>t. mtime = Some t \<and> t + age < now))
   \<and> (\<forall>age. pf_newer_than filt = Some age \<longrightarrow> (\<exists>t. mtime = Some t \<and> now \<le> t + age))"
  by (auto simp: matches_age_def split: option.splits)

lemma selected_code:
  "selected filt now name f \<longleftrightarrow> has_json_extension name
     \<and> (is_default filt
        \<or> matches_age filt now (fl_modified f)
          \<and> (is_age_only filt \<or> (case fl_body f of Stored e \<Rightarrow> matches_entry filt e | Corrupt \<Rightarrow> False)))"
  by (cases "fl_body f")
    (auto simp: selected_def matches_entry_wanted matches_age_iff is_default_def is_age_only_def)

lemma purge_step_quiet:
  assumes "quiet d" and "read_file p d = Some f"
  shows "purge_step filt now p n d
    = (if selected filt now (snd p) f then (n + 1, remove_file p d) else (n, d))"
  using assms
  by (auto simp: purge_step_def should_remove_def selected_code Let_def split: option.splits Body.splits)

definition keep_files :: "PurgeFilter \<Rightarrow> date_time \<Rightarrow> (string \<times> DiskFile) list \<Rightarrow> (string \<times> DiskFile) list" where
  "keep_files filt now fs = filter (\<lambda>(n, f). \<not> selected filt now n f) fs"

lemma in_shard_same:
  assumes "map_of (dk_shards d) sh = Some fs" and "distinct (map fst (dk_shards d))" and "g fs = fs"
  shows "in_shard sh g d = d"
proof -
  have "map (\<lambda>(s, fs). (s, if s = sh then g fs else fs)) (dk_shards d) = dk_shards d"
    using assms by (intro map_idI) (auto simp: map_of_eq_Some_iff dest: eq_key_imp_eq_value)
  then show ?thesis by (simp add: in_shard_def)
qed

lemma in_shard_map_of: "map_of (dk_shards (in_shard sh g d)) sh = map_option g (map_of (dk_shards d) sh)"
  by (simp add: in_shard_def map_of_in_shard)

lemma in_shard_const: "in_shard sh (\<lambda>_. fs) (in_shard sh g d) = in_shard sh (\<lambda>_. fs) d"
  by (simp add: in_shard_def case_prod_beta)

lemma in_shard_names [simp]: "map fst (dk_shards (in_shard sh g d)) = map fst (dk_shards d)"
  by (simp add: in_shard_def case_prod_beta)

lemma filter_name_id: "x \<notin> fst ` set fs \<Longrightarrow> filter (\<lambda>(n, _). n \<noteq> x) fs = fs"
  by (rule filter_True) force

lemma walk_shard_purge:
  assumes "quiet d" and "map_of (dk_shards d) sh = Some (kept @ rest)" and "distinct (map fst (dk_shards d))"
    and "distinct (map fst (kept @ rest))"
  shows "walk_shard (purge_step filt now) sh (map fst rest) n d
    = (Inr (n + length (filter (\<lambda>(x, f). selected filt now x f) rest)),
       in_shard sh (\<lambda>_. kept @ keep_files filt now rest) d)"
  using assms
proof (induction rest arbitrary: kept n d)
  case Nil
  then show ?case
    by (subst walk_shard.simps) (simp add: keep_files_def in_shard_same)
next
  case (Cons xf rest)
  obtain x f where xf: "xf = (x, f)" by fastforce
  have "map_of (kept @ (x, f) # rest) x = Some f" using Cons.prems(4) xf
    by (subst map_of_eq_Some_iff) simp_all
  then have read: "read_file (sh, x) d = Some f" using Cons.prems(2) xf by (simp add: read_file_def)
  note step = purge_step_quiet [OF Cons.prems(1) read, of filt now n]
  show ?case
  proof (cases "selected filt now x f")
    case True
    let ?d = "remove_file (sh, x) d"
    have "filter (\<lambda>(m, _). m \<noteq> x) (kept @ (x, f) # rest) = kept @ rest"
      using Cons.prems(4) xf by (simp add: filter_name_id)
    then have "map_of (dk_shards ?d) sh = Some (kept @ rest)"
      using Cons.prems(2) xf by (simp add: remove_file_def in_shard_map_of)
    moreover have "distinct (map fst (dk_shards ?d))" using Cons.prems(3) by (simp add: remove_file_def)
    ultimately have "walk_shard (purge_step filt now) sh (map fst rest) (n + 1) ?d
      = (Inr (n + 1 + length (filter (\<lambda>(x, f). selected filt now x f) rest)),
         in_shard sh (\<lambda>_. kept @ keep_files filt now rest) ?d)"
      using Cons.prems by (intro Cons.IH) (auto simp: xf)
    then show ?thesis using True step Cons.prems(1) xf
      by (subst walk_shard.simps) (simp add: keep_files_def remove_file_def in_shard_const)
  next
    case False
    have "walk_shard (purge_step filt now) sh (map fst rest) n d
      = (Inr (n + length (filter (\<lambda>(x, f). selected filt now x f) rest)),
         in_shard sh (\<lambda>_. (kept @ [xf]) @ keep_files filt now rest) d)"
      using Cons.prems by (intro Cons.IH) auto
    then show ?thesis using False step Cons.prems(1) xf
      by (subst walk_shard.simps) (simp add: keep_files_def)
  qed
qed

definition tree_ok :: "Disk \<Rightarrow> bool" where
  "tree_ok d \<longleftrightarrow> distinct (map fst (dk_shards d)) \<and> list_all (\<lambda>(s, fs). distinct (map fst fs)) (dk_shards d)"

definition selected_count :: "PurgeFilter \<Rightarrow> date_time \<Rightarrow> (string \<times> (string \<times> DiskFile) list) list \<Rightarrow> nat" where
  "selected_count filt now shards = sum_list (map (\<lambda>(s, fs). length (filter (\<lambda>(x, f). selected filt now x f) fs)) shards)"

definition keep_shards ::
  "PurgeFilter \<Rightarrow> date_time \<Rightarrow> (string \<times> (string \<times> DiskFile) list) list \<Rightarrow> (string \<times> (string \<times> DiskFile) list) list" where
  "keep_shards filt now shards = map (\<lambda>(s, fs). (s, keep_files filt now fs)) shards"

lemma walk_shards_purge:
  assumes "quiet d" and "tree_ok d" and "dk_shards d = before @ todo"
  shows "walk_shards (purge_step filt now) (map fst todo) n d
    = (Inr (n + selected_count filt now todo), d\<lparr>dk_shards := before @ keep_shards filt now todo\<rparr>)"
  using assms
proof (induction todo arbitrary: before n d)
  case Nil
  then show ?case by (subst walk_shards.simps) (simp add: selected_count_def keep_shards_def)
next
  case (Cons sf todo)
  obtain s fs where sf: "sf = (s, fs)" by fastforce
  have names: "distinct (map fst (before @ (s, fs) # todo))" and files: "distinct (map fst fs)"
    using Cons.prems(2,3) sf by (simp_all add: tree_ok_def)
  have dir: "map_of (dk_shards d) s = Some ([] @ fs)"
    unfolding Cons.prems(3) sf using names by (subst map_of_eq_Some_iff) simp_all
  let ?k = "length (filter (\<lambda>(x, f). selected filt now x f) fs)"
  let ?d = "in_shard s (\<lambda>_. [] @ keep_files filt now fs) d"
  have shard: "walk_shard (purge_step filt now) s (map fst fs) n d = (Inr (n + ?k), ?d)"
    using Cons.prems(1,2) dir files by (intro walk_shard_purge) (simp_all add: tree_ok_def)
  have "(s, b) \<notin> set before \<and> (s, b) \<notin> set todo" for b
    using names image_eqI [of s fst "(s, b)"] by auto
  then have "map (\<lambda>(s', fs'). (s', if s' = s then keep_files filt now fs else fs')) before = before"
    "map (\<lambda>(s', fs'). (s', if s' = s then keep_files filt now fs else fs')) todo = todo"
    by (auto intro!: map_idI)
  then have d: "dk_shards ?d = (before @ [(s, keep_files filt now fs)]) @ todo"
    using Cons.prems(3) sf by (simp add: in_shard_def)
  have "distinct (map fst (keep_files filt now fs))" using files by (simp add: keep_files_def distinct_map_filter)
  then have "tree_ok ?d" using Cons.prems(2,3) sf unfolding tree_ok_def d by simp
  then have "walk_shards (purge_step filt now) (map fst todo) (n + ?k) ?d
    = (Inr (n + ?k + selected_count filt now todo),
       ?d\<lparr>dk_shards := (before @ [(s, keep_files filt now fs)]) @ keep_shards filt now todo\<rparr>)"
    using Cons.prems(1) d by (intro Cons.IH) simp_all
  then show ?case using Cons.prems(1) shard dir sf
    by (subst walk_shards.simps) (simp add: selected_count_def keep_shards_def in_shard_def)
qed

text \<open>The tree stays a tree: no directory lists a name twice.\<close>

lemma tree_ok_in_shard:
  assumes "tree_ok d" and "\<And>fs. distinct (map fst fs) \<Longrightarrow> distinct (map fst (g fs))"
  shows "tree_ok (in_shard sh g d)"
proof -
  have "list_all (\<lambda>(s, fs). distinct (map fst fs)) (dk_shards (in_shard sh g d))"
    using assms by (auto simp: tree_ok_def list_all_iff in_shard_def)
  then show ?thesis using assms(1) by (simp add: tree_ok_def)
qed

lemma tree_ok_ops:
  assumes "tree_ok d"
  shows "tree_ok (remove_file p d)" and "tree_ok (write_file p f d)" and "tree_ok (create_dir sh d)"
proof -
  show "tree_ok (remove_file p d)" unfolding remove_file_def
    using assms by (rule tree_ok_in_shard) (simp add: distinct_map_filter)
  show "tree_ok (write_file p f d)" unfolding write_file_def
    using assms by (rule tree_ok_in_shard) (auto simp: distinct_map_filter)
  show "tree_ok (create_dir sh d)"
    using assms by (auto simp: create_dir_def tree_ok_def map_of_eq_None_iff)
qed

text \<open>A purge on a working file system removes exactly the files the filter is after and reports
  their number: with the default filter every entry; with ages alone the entries of that age, corrupt or
  not; with a narrower filter only entries that parse and match. Every other file, a temporary one among
  them, stays as it was.\<close>

theorem disk_purge_exact:
  assumes "quiet d" and "tree_ok d"
  shows "disk_purge filt d
    = (Inr (selected_count filt (dk_now d) (dk_shards d)), d\<lparr>dk_shards := keep_shards filt (dk_now d) (dk_shards d)\<rparr>)"
  using walk_shards_purge [OF assms, of "[]" "dk_shards d" filt "dk_now d" 0] assms(1)
  by (simp add: disk_purge_def walk_def)

definition demo_disk_full :: Disk where
  "demo_disk_full = empty_disk\<lparr>dk_shards := [(''aa'',
     [(''aa.json'', \<lparr>fl_body = Corrupt, fl_len = 3, fl_modified = None\<rparr>),
      (''aa.tmp-1-1'', \<lparr>fl_body = Corrupt, fl_len = 3, fl_modified = None\<rparr>)])]\<rparr>"

definition purge_all :: PurgeFilter where
  "purge_all = \<lparr>pf_older_than = None, pf_newer_than = None, pf_empty_reason = [], pf_model = None, pf_kind = None\<rparr>"

theorem disk_purge_exact_witness: "fst (disk_purge purge_all demo_disk_full) = Inr 1"
  using disk_purge_exact [of demo_disk_full purge_all]
  by (simp add: quiet_def tree_ok_def demo_disk_full_def empty_disk_def selected_count_def selected_code
      has_json_extension_def strip_suffix_def is_default_def purge_all_def)

end
