(* ===== verification/CallCache.thy ===== *)
theory CallCache
  imports Provider Disk
begin

text \<open>
  The cached provider call (\<open>crates/domarinn-core/src/runner_cache.rs\<close>): look the request up, adopt an
  entry under an older key, or call the provider with retries and store the answer.

  The world a call runs in has five parts: the state of the cache backend, the run's \<open>CacheRunState\<close>,
  the limiter, the abort flag, and everything else (the provider, the clock). Libraries and ambient values are the
  record \<open>env\<close>. Log events are not modelled, but the once-per-provider claims that guard them are.
\<close>

section \<open>Model\<close>

record 'w env =
  nv_hashing :: hashing
  nv_blake3 :: "string \<Rightarrow> string"
  nv_serde :: serde
  nv_runtime :: "'w runtime"
  nv_utc_now :: "'w \<Rightarrow> date_time"
  nv_version :: string

record CacheRunState =
  cr_migration :: MigrationProbe
  cr_drift_warned :: "string set"
  cr_address_warned :: "string set"
  cr_no_store_warned :: "string set"

definition new_run_state :: "MigrationProbe \<Rightarrow> CacheRunState" where
  "new_run_state mp = \<lparr>cr_migration = mp, cr_drift_warned = {}, cr_address_warned = {}, cr_no_store_warned = {}\<rparr>"

definition claim_drift_warning :: "string \<Rightarrow> CacheRunState \<Rightarrow> bool \<times> CacheRunState" where
  "claim_drift_warning i st = (i \<notin> cr_drift_warned st, st\<lparr>cr_drift_warned := insert i (cr_drift_warned st)\<rparr>)"

definition claim_address_warning :: "string \<Rightarrow> CacheRunState \<Rightarrow> bool \<times> CacheRunState" where
  "claim_address_warning i st = (i \<notin> cr_address_warned st, st\<lparr>cr_address_warned := insert i (cr_address_warned st)\<rparr>)"

definition claim_no_store_warning :: "string \<Rightarrow> CacheRunState \<Rightarrow> bool \<times> CacheRunState" where
  "claim_no_store_warning i st = (i \<notin> cr_no_store_warned st, st\<lparr>cr_no_store_warned := insert i (cr_no_store_warned st)\<rparr>)"

text \<open>The run's abort flag (\<open>AbortFlag\<close> of \<open>runner.rs\<close>): the first reason to give up, if any.\<close>

type_synonym AbortFlag = "string option"

definition poison :: "string \<Rightarrow> AbortFlag \<Rightarrow> AbortFlag" where
  "poison reason flag = (case flag of None \<Rightarrow> Some reason | Some r \<Rightarrow> Some r)"

definition abort_reason :: "AbortFlag \<Rightarrow> string option" where
  "abort_reason flag = map_option (\<lambda>r. ''aborted: '' @ r) flag"

definition is_poisoned :: "AbortFlag \<Rightarrow> bool" where
  "is_poisoned flag = (flag \<noteq> None)"

record ('c, 'w) World =
  wd_cache :: 'c
  wd_state :: CacheRunState
  wd_limiter :: "RateLimiter option"
  wd_aborted :: AbortFlag
  wd_world :: 'w

record CallOutcome =
  co_response :: ProviderResponse
  co_cached :: bool
  co_attempts :: "u32 option"
  co_provider_latency_ms :: "u64 option"
  co_cache_key :: "CacheKey option"

record CallFailure =
  cf_message :: string
  cf_attempts :: u32
  cf_class :: ErrorClass
  cf_details :: "json option"
  cf_cache_key :: "CacheKey option"

definition before_any_attempt :: "ErrorClass \<Rightarrow> string \<Rightarrow> CallFailure" where
  "before_any_attempt cls msg =
     \<lparr>cf_message = msg, cf_attempts = 0, cf_class = cls, cf_details = None, cf_cache_key = None\<rparr>"

definition before_any_attempt_for :: "ErrorClass \<Rightarrow> string \<Rightarrow> CacheKey \<Rightarrow> CallFailure" where
  "before_any_attempt_for cls msg key = (before_any_attempt cls msg)\<lparr>cf_cache_key := Some key\<rparr>"

record 'c CacheCall =
  cc_backend :: "'c CacheBackend"
  cc_mode :: CacheMode
  cc_repeat :: u32
  cc_policy :: EmptyPolicy
  cc_probe_legacy :: bool

definition show_key :: "CacheKey \<Rightarrow> string" where
  "show_key k = (case k of CacheKey s \<Rightarrow> s)"

definition cache_get :: "'c CacheBackend \<Rightarrow> CacheKey \<Rightarrow> ('c, 'w) World \<Rightarrow> (CacheError + CacheEntry option) \<times> ('c, 'w) World" where
  "cache_get be k wd = (let (r, c) = be_get be k (wd_cache wd) in (r, wd\<lparr>wd_cache := c\<rparr>))"

definition cache_put :: "'c CacheBackend \<Rightarrow> CacheKey \<Rightarrow> CacheEntry \<Rightarrow> ('c, 'w) World \<Rightarrow> ('c, 'w) World" where
  "cache_put be k e wd = wd\<lparr>wd_cache := snd (be_put be k e (wd_cache wd))\<rparr>"

subsection \<open>Entries and responses\<close>

definition recost :: "TokenUsage option \<Rightarrow> 'w Provider \<Rightarrow> f64 option" where
  "recost usage provider = Option.bind (pv_rate provider) (\<lambda>rate.
     Option.bind usage (\<lambda>u. map_option to_usd (cost_of u rate)))"

definition entry_to_response :: "CacheEntry \<Rightarrow> 'w Provider \<Rightarrow> ProviderResponse" where
  "entry_to_response e provider =
     \<lparr>pr_output = ce_output e, pr_usage = ce_usage e, pr_cost_usd = or_else (recost (ce_usage e) provider) (ce_cost_usd e),
      pr_stop_reason = ce_stop_reason e, pr_raw = ce_raw e, pr_tool_calls = ce_tool_calls e,
      pr_reasoning = ce_reasoning e, pr_empty_reason = ce_empty_reason e, pr_model = ce_model e\<rparr>"

definition RAW_MAX_BYTES :: nat where "RAW_MAX_BYTES = 64 * 1024"

definition json_to_persist :: "serde \<Rightarrow> bool \<Rightarrow> json option \<Rightarrow> json option" where
  "json_to_persist sd include_raw raw =
     (if \<not> include_raw then None
      else Option.bind raw (\<lambda>r. case to_vec_len sd r of
          Some n \<Rightarrow> if n > RAW_MAX_BYTES then None else Some r
        | None \<Rightarrow> None))"

definition ADDRESS_MEMBERS :: "string list" where
  "ADDRESS_MEMBERS = [''transport'', ''method'', ''url'', ''command'', ''args'']"

definition request_to_persist :: "serde \<Rightarrow> json \<Rightarrow> json" where
  "request_to_persist sd canonical =
     (if (case to_vec_len sd canonical of Some n \<Rightarrow> n \<le> RAW_MAX_BYTES | None \<Rightarrow> False) then canonical
      else case canonical of
          JObject members \<Rightarrow> JObject (List.map_filter (\<lambda>n. map_option (\<lambda>v. (n, v)) (map_of members n)) ADDRESS_MEMBERS)
        | _ \<Rightarrow> JNull)"

definition response_to_entry ::
  "'w env \<Rightarrow> 'w \<Rightarrow> 'w Provider \<Rightarrow> ProviderResponse \<Rightarrow> RetryStats \<Rightarrow> json \<Rightarrow> CacheEntry" where
  "response_to_entry env w provider response stats canonical =
     \<lparr>ce_created_at = nv_utc_now env w, ce_kind = Some PROVIDER, ce_provider_fingerprint = None,
      ce_request = Some (request_to_persist (nv_serde env) canonical), ce_output = pr_output response,
      ce_usage = pr_usage response, ce_cost_usd = pr_cost_usd response, ce_stop_reason = pr_stop_reason response,
      ce_raw = json_to_persist (nv_serde env) True (pr_raw response), ce_attempts = Some (rs_attempts stats),
      ce_provider_latency_ms = Some (as_millis (rs_in_flight stats)), ce_model = pr_model response,
      ce_program_digest = pv_program_digest provider, ce_address = pv_address provider, ce_verdict = None,
      ce_reasoning = pr_reasoning response, ce_empty_reason = pv_classify_empty provider response,
      ce_tool_calls = pr_tool_calls response, ce_domarinn_version = nv_version env\<rparr>"

subsection \<open>A hit\<close>

definition warn_on_program_drift :: "'w Provider \<Rightarrow> CacheEntry \<Rightarrow> CacheRunState \<Rightarrow> bool \<times> CacheRunState" where
  "warn_on_program_drift provider entry st = (case (pv_program_digest provider, ce_program_digest entry) of
       (Some live, Some stored) \<Rightarrow> if live = stored then (False, st) else claim_drift_warning (pv_id provider) st
     | _ \<Rightarrow> (False, st))"

definition warn_on_address_drift :: "'w Provider \<Rightarrow> CacheEntry \<Rightarrow> CacheRunState \<Rightarrow> bool \<times> CacheRunState" where
  "warn_on_address_drift provider entry st = (case (pv_address provider, ce_address entry) of
       (Some live, Some stored) \<Rightarrow> if live = stored then (False, st) else claim_address_warning (pv_id provider) st
     | _ \<Rightarrow> (False, st))"

definition warn_on_declined_replay ::
  "'w Provider \<Rightarrow> CacheEntry \<Rightarrow> EmptyPolicy \<Rightarrow> CacheRunState \<Rightarrow> bool \<times> CacheRunState" where
  "warn_on_declined_replay provider entry policy st =
     (if \<not> stored_entry_is_declined policy entry then (False, st)
      else case ce_empty_reason entry of None \<Rightarrow> (False, st) | Some _ \<Rightarrow> claim_no_store_warning (pv_id provider) st)"

definition hit ::
  "'w Provider \<Rightarrow> CacheEntry \<Rightarrow> CacheKey \<Rightarrow> EmptyPolicy \<Rightarrow> ('c, 'w) World \<Rightarrow> CallOutcome \<times> ('c, 'w) World" where
  "hit provider entry key policy wd =
     (let (_, st) = warn_on_program_drift provider entry (wd_state wd);
          (_, st) = warn_on_address_drift provider entry st;
          (_, st) = warn_on_declined_replay provider entry policy st
      in (\<lparr>co_response = entry_to_response entry provider, co_cached = True, co_attempts = ce_attempts entry,
           co_provider_latency_ms = ce_provider_latency_ms entry, co_cache_key = Some key\<rparr>, wd\<lparr>wd_state := st\<rparr>))"

subsection \<open>Adoption\<close>

definition ask_probe :: "('c, 'w) World \<Rightarrow> bool \<times> ('c, 'w) World" where
  "ask_probe wd = (let (go, mp) = should_probe (cr_migration (wd_state wd))
     in (go, wd\<lparr>wd_state := (wd_state wd)\<lparr>cr_migration := mp\<rparr>\<rparr>))"

definition note_adoption :: "('c, 'w) World \<Rightarrow> ('c, 'w) World" where
  "note_adoption wd = wd\<lparr>wd_state := (wd_state wd)\<lparr>cr_migration := record_adoption (cr_migration (wd_state wd))\<rparr>\<rparr>"

text \<open>The two probe loops differ in what a failing read does: go on, or stop.\<close>

fun probe_keys :: "bool \<Rightarrow> 'c CacheBackend \<Rightarrow> CacheKey list \<Rightarrow> ('c, 'w) World \<Rightarrow> CacheEntry option \<times> ('c, 'w) World" where
  "probe_keys halt be [] wd = (None, wd)"
| "probe_keys halt be (k # ks) wd =
     (let (r, wd) = cache_get be k wd
      in case r of
           Inr (Some e) \<Rightarrow> (Some e, note_adoption wd)
         | Inr None \<Rightarrow> probe_keys halt be ks wd
         | Inl _ \<Rightarrow> if halt then (None, wd) else probe_keys halt be ks wd)"

definition canonical_keys :: "'w env \<Rightarrow> 'w Provider \<Rightarrow> ProviderRequest \<Rightarrow> u32 \<Rightarrow> CacheKey list" where
  "canonical_keys env provider req rep =
     map (\<lambda>c. request_cache_key (nv_hashing env) c rep (pv_cache_salt provider) (rq_case_salt req))
       (pv_legacy_canonical_requests provider req)"

definition legacy_keys :: "'w env \<Rightarrow> 'w Provider \<Rightarrow> ProviderRequest \<Rightarrow> u32 \<Rightarrow> CacheKey list" where
  "legacy_keys env provider req rep =
     map (\<lambda>f. legacy_provider_key (nv_hashing env) f req rep) (pv_legacy_fingerprints provider)"

definition adopt_legacy_canonical ::
  "'w env \<Rightarrow> 'w Provider \<Rightarrow> ProviderRequest \<Rightarrow> 'c CacheCall \<Rightarrow> ('c, 'w) World \<Rightarrow> CacheEntry option \<times> ('c, 'w) World" where
  "adopt_legacy_canonical env provider req cache wd =
     (if pv_legacy_canonical_requests provider req = [] \<or> \<not> cc_probe_legacy cache then (None, wd)
      else let (go, wd) = ask_probe wd
           in if \<not> go then (None, wd)
              else probe_keys False (cc_backend cache) (canonical_keys env provider req (cc_repeat cache)) wd)"

definition adopt_legacy ::
  "'w env \<Rightarrow> 'w Provider \<Rightarrow> ProviderRequest \<Rightarrow> 'c CacheCall \<Rightarrow> ('c, 'w) World \<Rightarrow> CacheEntry option \<times> ('c, 'w) World" where
  "adopt_legacy env provider req cache wd =
     (if pv_legacy_fingerprints provider = [] \<or> \<not> cc_probe_legacy cache then (None, wd)
      else let (go, wd) = ask_probe wd
           in if \<not> go then (None, wd)
              else probe_keys True (cc_backend cache) (legacy_keys env provider req (cc_repeat cache)) wd)"

text \<open>An adopted entry is re-filed under the current key when the mode and the policy let it be stored,
  and served.\<close>

definition refile ::
  "'w env \<Rightarrow> 'c CacheCall \<Rightarrow> CacheKey \<Rightarrow> json \<Rightarrow> EntryKind option \<Rightarrow> CacheEntry \<Rightarrow> ('c, 'w) World
   \<Rightarrow> CacheEntry \<times> ('c, 'w) World" where
  "refile env cache key canonical kind entry wd =
     (if cc_mode cache = ReadWrite \<and> \<not> stored_entry_is_declined (cc_policy cache) entry
      then let entry = entry\<lparr>ce_request := Some (request_to_persist (nv_serde env) canonical)\<rparr>;
               entry = (case kind of None \<Rightarrow> entry | Some k \<Rightarrow> entry\<lparr>ce_kind := Some k\<rparr>)
           in (entry, cache_put (cc_backend cache) key entry wd)
      else (entry, wd))"

subsection \<open>The call\<close>

definition failure_message :: "ProviderError \<Rightarrow> u32 \<Rightarrow> string" where
  "failure_message err attempts = (case err of
       Retriable src _ _ _ \<Rightarrow> ''provider error after '' @ show_nat attempts @ '' attempt(s): '' @ src
     | Fatal src _ _ \<Rightarrow> ''provider error: '' @ src)"

definition store_response ::
  "'w env \<Rightarrow> 'w Provider \<Rightarrow> 'c CacheCall \<Rightarrow> (CacheKey \<times> json) option \<Rightarrow> ProviderResponse \<Rightarrow> RetryStats
   \<Rightarrow> ('c, 'w) World \<Rightarrow> ('c, 'w) World" where
  "store_response env provider cache keyed response stats wd = (case keyed of
       None \<Rightarrow> wd
     | Some (key, canonical) \<Rightarrow>
         if cc_mode cache = ReadWrite
            \<and> should_store (cc_policy cache) (effective_reason (nv_serde env) (cc_policy cache) provider response)
         then cache_put (cc_backend cache) key (response_to_entry env (wd_world wd) provider response stats canonical) wd
         else wd)"

definition call_live ::
  "'w env \<Rightarrow> 'w Provider \<Rightarrow> ProviderRequest \<Rightarrow> 'c CacheCall \<Rightarrow> RetryPolicy \<Rightarrow> (CacheKey \<times> json) option
   \<Rightarrow> ('c, 'w) World \<Rightarrow> (CallFailure + CallOutcome) \<times> ('c, 'w) World" where
  "call_live env provider req cache retry_cfg keyed wd =
     (let (result, stats, lm, w) = with_retry_limited (nv_runtime env) retry_cfg (\<lambda>_ w. pv_call provider req w)
            (wd_limiter wd) (wd_world wd);
          wd = wd\<lparr>wd_limiter := lm, wd_world := w\<rparr>
      in case result of
           Inr response \<Rightarrow>
             (Inr \<lparr>co_response = response, co_cached = False, co_attempts = Some (rs_attempts stats),
                   co_provider_latency_ms = Some (as_millis (rs_in_flight stats)), co_cache_key = map_option fst keyed\<rparr>,
              store_response env provider cache keyed response stats wd)
         | Inl err \<Rightarrow>
             (Inl \<lparr>cf_message = failure_message err (rs_attempts stats), cf_attempts = rs_attempts stats,
                   cf_class = error_class err, cf_details = error_details err, cf_cache_key = map_option fst keyed\<rparr>, wd))"

definition keyed_request ::
  "'w env \<Rightarrow> 'w Provider \<Rightarrow> ProviderRequest \<Rightarrow> 'c CacheCall \<Rightarrow> (CacheKey \<times> json) option" where
  "keyed_request env provider req cache =
     (if cc_mode cache \<noteq> Disabled \<and> pv_cacheable provider
      then map_option (\<lambda>canonical. (request_cache_key (nv_hashing env) canonical (cc_repeat cache)
             (pv_cache_salt provider) (rq_case_salt req), canonical)) (pv_canonical_request provider req)
      else None)"

definition call_with_cache ::
  "'w env \<Rightarrow> 'w Provider \<Rightarrow> ProviderRequest \<Rightarrow> 'c CacheCall \<Rightarrow> RetryPolicy \<Rightarrow> ('c, 'w) World
   \<Rightarrow> (CallFailure + CallOutcome) \<times> ('c, 'w) World" where
  "call_with_cache env provider req cache retry_cfg wd =
     (let keyed = keyed_request env provider req cache
      in case keyed of
           None \<Rightarrow> call_live env provider req cache retry_cfg keyed wd
         | Some (key, canonical) \<Rightarrow>
             (let (found, wd) = cache_get (cc_backend cache) key wd
              in case found of
                   Inl e \<Rightarrow> (Inl (before_any_attempt CACHE_UNAVAILABLE (''cache read error: '' @ e)), wd)
                 | Inr (Some entry) \<Rightarrow> map_prod Inr id (hit provider entry key (cc_policy cache) wd)
                 | Inr None \<Rightarrow>
                     (let (adopted, wd) = adopt_legacy_canonical env provider req cache wd
                      in case adopted of
                           Some entry \<Rightarrow>
                             (let (entry, wd) = refile env cache key canonical None entry wd
                              in map_prod Inr id (hit provider entry key (cc_policy cache) wd))
                         | None \<Rightarrow>
                             (let (adopted, wd) = adopt_legacy env provider req cache wd
                              in case adopted of
                                   Some entry \<Rightarrow>
                                     (let (entry, wd) = refile env cache key canonical (Some PROVIDER) entry wd
                                      in map_prod Inr id (hit provider entry key (cc_policy cache) wd))
                                 | None \<Rightarrow>
                                     if cc_mode cache = ReadOnlyStrict
                                     then (Inl (before_any_attempt_for CACHE_MISS (''cache-only: miss for key '' @ show_key key) key), wd)
                                     else call_live env provider req cache retry_cfg keyed wd))))"

section \<open>What a call reads and writes\<close>

definition digest_32 :: "'w env \<Rightarrow> bool" where
  "digest_32 env \<longleftrightarrow> (\<forall>x. length (sha256 (nv_hashing env) x) = 32)"

lemma computed_key_valid: "digest_32 env \<Longrightarrow> valid_key (compute (nv_hashing env) v)"
  using digest_valid [of "nv_hashing env"] by (simp add: digest_32_def compute_def Let_def valid_key_def)

text \<open>All keys under which an answer to this request is looked for.\<close>

definition answer_keys :: "'w env \<Rightarrow> 'w Provider \<Rightarrow> ProviderRequest \<Rightarrow> 'c CacheCall \<Rightarrow> CacheKey set" where
  "answer_keys env provider req cache =
     (case keyed_request env provider req cache of None \<Rightarrow> {}
      | Some (key, _) \<Rightarrow> {key} \<union> set (canonical_keys env provider req (cc_repeat cache))
          \<union> set (legacy_keys env provider req (cc_repeat cache)))"

lemma keys_valid:
  assumes "digest_32 env"
  shows "keyed_request env provider req cache = Some (key, canonical) \<Longrightarrow> valid_key key"
    and "list_all valid_key (canonical_keys env provider req n)"
    and "list_all valid_key (legacy_keys env provider req n)"
  using computed_key_valid [OF assms]
  by (auto simp: keyed_request_def canonical_keys_def legacy_keys_def list_all_iff request_cache_key_parts
      legacy_provider_key_def split: if_splits)

lemma hit_result:
  "hit provider entry key policy wd = (oc, wd')
   \<Longrightarrow> co_cached oc \<and> co_response oc = entry_to_response entry provider \<and> co_cache_key oc = Some key
     \<and> co_attempts oc = ce_attempts entry \<and> co_provider_latency_ms oc = ce_provider_latency_ms entry
     \<and> wd_cache wd' = wd_cache wd \<and> wd_world wd' = wd_world wd \<and> wd_limiter wd' = wd_limiter wd"
  by (auto simp: hit_def Let_def case_prod_beta)

text \<open>What mode and policy let into the store.\<close>

definition storable :: "'c CacheCall \<Rightarrow> CacheEntry \<Rightarrow> bool" where
  "storable cache e \<longleftrightarrow> cc_mode cache = ReadWrite \<and> \<not> stored_entry_is_declined (cc_policy cache) e"

lemma refile_response:
  "refile env cache key canonical kind entry wd = (entry', wd')
   \<Longrightarrow> entry_to_response entry' provider = entry_to_response entry provider
     \<and> wd_world wd' = wd_world wd \<and> wd_limiter wd' = wd_limiter wd
     \<and> (wd_cache wd' = wd_cache wd
          \<or> wd_cache wd' = snd (be_put (cc_backend cache) key entry' (wd_cache wd)) \<and> storable cache entry')"
  by (auto simp: refile_def Let_def cache_put_def entry_to_response_def storable_def stored_entry_is_declined_def
      split: if_splits option.splits)

lemma note_adoption_parts [simp]:
  "wd_cache (note_adoption wd) = wd_cache wd" "wd_world (note_adoption wd) = wd_world wd"
  "wd_limiter (note_adoption wd) = wd_limiter wd"
  by (simp_all add: note_adoption_def)

lemma ask_probe_parts [simp]:
  "wd_cache (snd (ask_probe wd)) = wd_cache wd" "wd_world (snd (ask_probe wd)) = wd_world wd"
  "wd_limiter (snd (ask_probe wd)) = wd_limiter wd"
  by (simp_all add: ask_probe_def Let_def case_prod_beta)

lemma cache_get_parts:
  "cache_get be k wd = (r, wd') \<Longrightarrow> be_get be k (wd_cache wd) = (r, wd_cache wd')
     \<and> wd_world wd' = wd_world wd \<and> wd_limiter wd' = wd_limiter wd"
  by (auto simp: cache_get_def Let_def case_prod_beta)

context cache_backend
begin

text \<open>Reading under some keys: what is found was stored under one of them, and nothing is added.\<close>

definition reads :: "CacheKey set \<Rightarrow> CacheEntry option \<Rightarrow> ('w, 'v) World \<Rightarrow> ('w, 'v) World \<Rightarrow> bool" where
  "reads ks found wd wd' \<longleftrightarrow>
     (\<forall>e. found = Some e \<longrightarrow> (\<exists>k \<in> ks. e \<in> stored (wd_cache wd) k))
   \<and> (\<forall>k. valid_key k \<longrightarrow> stored (wd_cache wd') k \<subseteq> stored (wd_cache wd) k)
   \<and> wd_world wd' = wd_world wd \<and> wd_limiter wd' = wd_limiter wd"

lemma reads_none: "reads ks None wd wd"
  by (simp add: reads_def)

lemma reads_get:
  assumes "valid_key k" and "cache_get be k wd = (Inr found, wd')"
  shows "reads {k} found wd wd'"
  using cache_get_parts [OF assms(2)] assms(1) get_hit get_keeps
  unfolding reads_def by blast

lemma reads_get_error:
  assumes "valid_key k" and "cache_get be k wd = (Inl e, wd')"
  shows "reads {} None wd wd'"
  using cache_get_parts [OF assms(2)] assms(1) get_keeps
  unfolding reads_def by blast

lemma reads_trans:
  assumes "reads ks None wd wd1" and "reads ks' found wd1 wd2" and "\<And>k. k \<in> ks' \<Longrightarrow> valid_key k"
  shows "reads (ks \<union> ks') found wd wd2"
proof -
  have "stored (wd_cache wd1) k \<subseteq> stored (wd_cache wd) k" if "valid_key k" for k
    using assms(1) that by (simp add: reads_def)
  then show ?thesis using assms unfolding reads_def by (metis UnI2 subset_iff)
qed

lemma reads_mono: "reads ks found wd wd' \<Longrightarrow> ks \<subseteq> ks' \<Longrightarrow> reads ks' found wd wd'"
  unfolding reads_def by blast

lemma reads_note: "reads ks found wd wd' \<Longrightarrow> reads ks found wd (note_adoption wd')"
  by (simp add: reads_def)

lemma reads_ask: "reads ks found (snd (ask_probe wd)) wd' \<longleftrightarrow> reads ks found wd wd'"
  by (simp add: reads_def)

lemma reads_probe:
  "list_all valid_key ks \<Longrightarrow> probe_keys halt be ks wd = (found, wd') \<Longrightarrow> reads (set ks) found wd wd'"
proof (induction ks arbitrary: wd)
  case Nil
  then show ?case by (simp add: reads_none)
next
  case (Cons k ks)
  obtain r wd1 where get: "cache_get be k wd = (r, wd1)" by (cases "cache_get be k wd")
  have k: "valid_key k" "list_all valid_key ks" using Cons.prems by simp_all
  show ?case
  proof (cases r)
    case (Inl e)
    note err = reads_get_error [OF k(1) get [unfolded Inl]]
    show ?thesis
    proof (cases halt)
      case True
      then show ?thesis using Cons.prems(2) get Inl err by (auto intro: reads_mono)
    next
      case False
      then have "reads (set ks) found wd1 wd'" using Cons.IH [OF k(2)] Cons.prems(2) get Inl by simp
      then have "reads ({} \<union> set ks) found wd wd'" using k(2) by (intro reads_trans [OF err]) (auto simp: list_all_iff)
      then show ?thesis by (rule reads_mono) auto
    qed
  next
    case (Inr opt)
    note ok = reads_get [OF k(1) get [unfolded Inr]]
    show ?thesis
    proof (cases opt)
      case None
      then have "reads (set ks) found wd1 wd'" using Cons.IH [OF k(2)] Cons.prems(2) get Inr by simp
      then have "reads ({k} \<union> set ks) found wd wd'" using k(2)
        by (intro reads_trans [OF ok [unfolded None]]) (auto simp: list_all_iff)
      then show ?thesis by (rule reads_mono) auto
    next
      case (Some e)
      then show ?thesis using Cons.prems(2) get Inr ok by (auto intro!: reads_note intro: reads_mono)
    qed
  qed
qed

lemma reads_adopt:
  assumes "digest_32 env" and "cc_backend cache = be"
  shows "adopt_legacy_canonical env provider req cache wd = (found, wd')
      \<Longrightarrow> reads (set (canonical_keys env provider req (cc_repeat cache))) found wd wd'"
    and "adopt_legacy env provider req cache wd = (found, wd')
      \<Longrightarrow> reads (set (legacy_keys env provider req (cc_repeat cache))) found wd wd'"
proof -
  note probe = reads_probe [where wd = "snd (ask_probe wd)", unfolded reads_ask]
  have none: "reads ks None wd (snd (ask_probe wd))" for ks by (simp add: reads_def)
  show "adopt_legacy_canonical env provider req cache wd = (found, wd')
      \<Longrightarrow> reads (set (canonical_keys env provider req (cc_repeat cache))) found wd wd'"
    using keys_valid(2) [OF assms(1)] probe none assms(2)
    by (auto simp: adopt_legacy_canonical_def Let_def case_prod_beta reads_none split: if_splits)
  show "adopt_legacy env provider req cache wd = (found, wd')
      \<Longrightarrow> reads (set (legacy_keys env provider req (cc_repeat cache))) found wd wd'"
    using keys_valid(3) [OF assms(1)] probe none assms(2)
    by (auto simp: adopt_legacy_def Let_def case_prod_beta reads_none split: if_splits)
qed

lemma refile_stored:
  assumes "refile env cache key canonical kind entry wd = (entry', wd')" and "cc_backend cache = be"
    and "valid_key key" and "valid_key k"
  shows "stored (wd_cache wd') k \<subseteq> stored (wd_cache wd) k \<union> (if k = key \<and> storable cache entry' then {entry'} else {})"
proof (cases "wd_cache wd' = wd_cache wd")
  case False
  then have "storable cache entry'" "wd_cache wd' = snd (be_put be key entry' (wd_cache wd))"
    using refile_response [OF assms(1)] assms(2) by auto
  then show ?thesis
    using put_adds [OF assms(3,4), of entry' "wd_cache wd" _ "wd_cache wd'"]
    by (cases "be_put be key entry' (wd_cache wd)") simp
qed simp

text \<open>The four ways a call with a key ends: the cache cannot be read, an entry is replayed (found, or adopted
  and perhaps re-filed), a strict miss, or a live call after an unsuccessful lookup.\<close>

lemma call_with_cache_cases:
  assumes call: "call_with_cache env provider req cache retry_cfg wd = (r, wd')"
    and keyed: "keyed_request env provider req cache = Some (key, canonical)"
    and env: "digest_32 env" and be: "cc_backend cache = be"
  obtains
    (unavailable) e where "r = Inl (before_any_attempt CACHE_UNAVAILABLE e)" "reads {} None wd wd'"
  | (replayed) entry entry' wd1 wd2 oc where
      "reads (answer_keys env provider req cache) (Some entry) wd wd1"
      "entry_to_response entry' provider = entry_to_response entry provider"
      "wd_world wd2 = wd_world wd1" "wd_limiter wd2 = wd_limiter wd1"
      "\<And>k. valid_key k \<Longrightarrow> stored (wd_cache wd2) k
         \<subseteq> stored (wd_cache wd1) k \<union> (if k = key \<and> storable cache entry' then {entry'} else {})"
      "hit provider entry' key (cc_policy cache) wd2 = (oc, wd')" "r = Inr oc"
  | (missed) msg where "r = Inl (before_any_attempt_for CACHE_MISS msg key)" "cc_mode cache = ReadOnlyStrict"
      "reads (answer_keys env provider req cache) None wd wd'"
  | (live) wd1 where "reads (answer_keys env provider req cache) None wd wd1" "cc_mode cache \<noteq> ReadOnlyStrict"
      "call_live env provider req cache retry_cfg (Some (key, canonical)) wd1 = (r, wd')"
proof -
  let ?K = "answer_keys env provider req cache"
  note vkey = keys_valid(1) [OF env keyed]
  have K: "?K = {key} \<union> set (canonical_keys env provider req (cc_repeat cache))
      \<union> set (legacy_keys env provider req (cc_repeat cache))"
    using keyed by (simp add: answer_keys_def)
  obtain found wd1 where get: "cache_get be key wd = (found, wd1)" by (cases "cache_get be key wd")
  note call' = call [unfolded call_with_cache_def Let_def keyed be] get
  show thesis
  proof (cases found)
    case (Inl e)
    then show ?thesis
      using call' reads_get_error [OF vkey get [unfolded Inl]] by (intro unavailable) auto
  next
    case (Inr opt)
    note ok = reads_get [OF vkey get [unfolded Inr]]
    show ?thesis
    proof (cases opt)
      case (Some entry)
      obtain oc wd2 where h: "hit provider entry key (cc_policy cache) wd1 = (oc, wd2)"
        by (cases "hit provider entry key (cc_policy cache) wd1")
      show ?thesis
        by (rule replayed [of entry wd1 entry wd1 oc])
          (use ok Some K h call' Inr in \<open>auto intro: reads_mono\<close>)
    next
      case None
      obtain a2 wd2 where ad2: "adopt_legacy_canonical env provider req cache wd1 = (a2, wd2)"
        by (cases "adopt_legacy_canonical env provider req cache wd1")
      have r2: "reads ({key} \<union> set (canonical_keys env provider req (cc_repeat cache))) a2 wd wd2"
        using keys_valid(2) [OF env] by (intro reads_trans [OF ok [unfolded None] reads_adopt(1) [OF env be ad2]])
          (auto simp: list_all_iff)
      show ?thesis
      proof (cases a2)
        case (Some entry)
        obtain entry' wd3 where rf: "refile env cache key canonical None entry wd2 = (entry', wd3)"
          by (cases "refile env cache key canonical None entry wd2")
        obtain oc wd4 where h: "hit provider entry' key (cc_policy cache) wd3 = (oc, wd4)"
          by (cases "hit provider entry' key (cc_policy cache) wd3")
        show ?thesis
          by (rule replayed [of entry wd2 entry' wd3 oc])
            (use r2 Some K h call' Inr None ad2 rf refile_response [OF rf, of provider] refile_stored [OF rf be vkey]
              in \<open>auto intro: reads_mono\<close>)
      next
        case a2: None
        obtain a3 wd3 where ad3: "adopt_legacy env provider req cache wd2 = (a3, wd3)"
          by (cases "adopt_legacy env provider req cache wd2")
        have r3: "reads ?K a3 wd wd3" unfolding K
          using keys_valid(3) [OF env] by (intro reads_trans [OF r2 [unfolded a2] reads_adopt(2) [OF env be ad3]])
            (auto simp: list_all_iff)
        show ?thesis
        proof (cases a3)
          case (Some entry)
          obtain entry' wd4 where rf: "refile env cache key canonical (Some PROVIDER) entry wd3 = (entry', wd4)"
            by (cases "refile env cache key canonical (Some PROVIDER) entry wd3")
          obtain oc wd5 where h: "hit provider entry' key (cc_policy cache) wd4 = (oc, wd5)"
            by (cases "hit provider entry' key (cc_policy cache) wd4")
          show ?thesis
            by (rule replayed [of entry wd3 entry' wd4 oc])
              (use r3 Some h call' Inr None ad2 a2 ad3 rf refile_response [OF rf, of provider] refile_stored [OF rf be vkey]
                in auto)
        next
          case a3: None
          show ?thesis
          proof (cases "cc_mode cache = ReadOnlyStrict")
            case True
            then show ?thesis using call' Inr None ad2 a2 ad3 a3 r3 by (intro missed) auto
          next
            case False
            then show ?thesis using call' Inr None ad2 a2 ad3 a3 r3 by (intro live) auto
          qed
        qed
      qed
    qed
  qed
qed

lemma store_response_stored:
  assumes "e \<in> stored (wd_cache (store_response env provider cache (Some (key, canonical)) response stats wd)) k"
    and "cc_backend cache = be" and "valid_key key" and "valid_key k"
  shows "e \<in> stored (wd_cache wd) k \<or> k = key \<and> storable cache e \<and> ce_output e = pr_output response
    \<and> ce_tool_calls e = pr_tool_calls response"
proof (cases "cc_mode cache = ReadWrite
    \<and> should_store (cc_policy cache) (effective_reason (nv_serde env) (cc_policy cache) provider response)")
  case True
  let ?e = "response_to_entry env (wd_world wd) provider response stats canonical"
  have "should_store (cc_policy cache) (pv_classify_empty provider response)"
    using True by (cases "pv_classify_empty provider response") (auto simp: effective_reason_def should_store_def)
  then have new: "\<not> stored_entry_is_declined (cc_policy cache) ?e"
    by (simp add: stored_entry_is_declined_def response_to_entry_def)
  have "e \<in> stored (snd (be_put be key ?e (wd_cache wd))) k"
    using assms(1,2) True by (simp add: store_response_def cache_put_def)
  then have "e \<in> stored (wd_cache wd) k \<or> k = key \<and> e = ?e"
    using put_adds [OF assms(3,4), of ?e "wd_cache wd"]
    by (cases "be_put be key ?e (wd_cache wd)") (fastforce split: if_splits)
  then show ?thesis using new True by (auto simp: response_to_entry_def storable_def)
next
  case False
  then show ?thesis using assms(1) by (auto simp: store_response_def)
qed

lemma call_live_stored:
  assumes "call_live env provider req cache retry_cfg (Some (key, canonical)) wd = (r, wd')"
    and "cc_backend cache = be" and "valid_key key" and "valid_key k" and "e \<in> stored (wd_cache wd') k"
  shows "e \<in> stored (wd_cache wd) k \<or> k = key \<and> storable cache e
    \<and> (\<exists>oc. r = Inr oc \<and> ce_output e = pr_output (co_response oc) \<and> ce_tool_calls e = pr_tool_calls (co_response oc)
          \<and> co_cache_key oc = Some key)"
proof -
  obtain result stats lm w where run: "with_retry_limited (nv_runtime env) retry_cfg (\<lambda>_ w. pv_call provider req w)
      (wd_limiter wd) (wd_world wd) = (result, stats, lm, w)"
    by (cases "with_retry_limited (nv_runtime env) retry_cfg (\<lambda>_ w. pv_call provider req w) (wd_limiter wd) (wd_world wd)")
  show ?thesis
  proof (cases result)
    case (Inl err)
    then show ?thesis using assms(1,5) run by (auto simp: call_live_def Let_def)
  next
    case (Inr response)
    let ?wd = "wd\<lparr>wd_limiter := lm, wd_world := w\<rparr>"
    have wd': "wd' = store_response env provider cache (Some (key, canonical)) response stats ?wd"
      and r: "\<exists>oc. r = Inr oc \<and> co_response oc = response \<and> co_cache_key oc = Some key"
      using assms(1) run Inr by (auto simp: call_live_def Let_def)
    have "e \<in> stored (wd_cache (store_response env provider cache (Some (key, canonical)) response stats ?wd)) k"
      using assms(5) unfolding wd' by simp
    from store_response_stored [OF this assms(2-4)] r show ?thesis by auto
  qed
qed

lemma cached_outcome:
  assumes "digest_32 env" and "cc_backend cache = be"
    and "call_with_cache env provider req cache retry_cfg wd = (Inr oc, wd')" and "co_cached oc"
  shows "\<exists>k e. k \<in> answer_keys env provider req cache \<and> e \<in> stored (wd_cache wd) k
    \<and> co_response oc = entry_to_response e provider \<and> wd_world wd' = wd_world wd \<and> wd_limiter wd' = wd_limiter wd"
proof -
  have live: "\<not> co_cached oc" if "call_live env provider req cache retry_cfg keyed wd1 = (Inr oc, wd')" for keyed wd1
    using that by (auto simp: call_live_def Let_def case_prod_beta split: sum.splits)
  show ?thesis
  proof (cases "keyed_request env provider req cache")
    case None
    then show ?thesis using live assms(3,4) by (simp add: call_with_cache_def) blast
  next
    case (Some kc)
    then obtain key canonical where keyed: "keyed_request env provider req cache = Some (key, canonical)" by (cases kc) auto
    from assms(3) keyed assms(1,2) show ?thesis
    proof (cases rule: call_with_cache_cases)
      case (replayed entry entry' wd1 wd2 oc')
      then obtain k where k: "k \<in> answer_keys env provider req cache" "entry \<in> stored (wd_cache wd) k"
        and w1: "wd_world wd1 = wd_world wd" "wd_limiter wd1 = wd_limiter wd"
        unfolding reads_def by blast
      have "co_response oc = entry_to_response entry provider" "wd_world wd' = wd_world wd" "wd_limiter wd' = wd_limiter wd"
        using hit_result [OF replayed(6)] replayed(2,3,4,7) w1 by auto
      then show ?thesis using k by blast
    qed (use live assms(4) in auto)
  qed
qed

lemma call_adds:
  assumes "digest_32 env" and "cc_backend cache = be" and "valid_key k"
    and "call_with_cache env provider req cache retry_cfg wd = (r, wd')"
    and "e \<in> stored (wd_cache wd') k" and "e \<notin> stored (wd_cache wd) k"
  shows "storable cache e \<and> (\<exists>canonical. keyed_request env provider req cache = Some (k, canonical))
    \<and> (\<exists>oc. r = Inr oc \<and> co_cache_key oc = Some k \<and> ce_output e = pr_output (co_response oc) \<and> ce_tool_calls e = pr_tool_calls (co_response oc))"
proof (cases "keyed_request env provider req cache")
  case None
  then have "wd_cache wd' = wd_cache wd"
    using assms(4) by (auto simp: call_with_cache_def call_live_def store_response_def Let_def case_prod_beta split: sum.splits)
  then show ?thesis using assms(5,6) by simp
next
  case (Some kc)
  then obtain key canonical where keyed: "keyed_request env provider req cache = Some (key, canonical)" by (cases kc) auto
  note vkey = keys_valid(1) [OF assms(1) keyed]
  have old: "stored (wd_cache wd1) k \<subseteq> stored (wd_cache wd) k" if "reads ks found wd wd1" for ks found wd1
    using that assms(3) by (simp add: reads_def)
  from assms(4) keyed assms(1,2) show ?thesis
  proof (cases rule: call_with_cache_cases)
    case (replayed entry entry' wd1 wd2 oc)
    have "e \<in> stored (wd_cache wd2) k" using assms(5) hit_result [OF replayed(6)] by simp
    then have e: "k = key \<and> storable cache entry' \<and> e = entry'"
      using replayed(5) [OF assms(3)] old [OF replayed(1)] assms(6) by (auto split: if_splits)
    then show ?thesis using hit_result [OF replayed(6)] replayed(7) keyed by (auto simp: entry_to_response_def)
  next
    case (live wd1)
    have "e \<notin> stored (wd_cache wd1) k" using old [OF live(1)] assms(6) by blast
    then show ?thesis using call_live_stored [OF live(3) assms(2) vkey assms(3,5)] keyed by auto
  qed (use old assms(5,6) in auto)
qed

lemma strict_call:
  assumes "digest_32 env" and "cc_backend cache = be" and "cc_mode cache = ReadOnlyStrict"
    and "keyed_request env provider req cache \<noteq> None"
    and "call_with_cache env provider req cache retry_cfg wd = (r, wd')"
  shows "wd_world wd' = wd_world wd \<and> wd_limiter wd' = wd_limiter wd
    \<and> (case r of Inr oc \<Rightarrow> co_cached oc
        | Inl f \<Rightarrow> cf_attempts f = 0 \<and> cf_class f \<in> {CACHE_MISS, CACHE_UNAVAILABLE})"
proof -
  obtain key canonical where keyed: "keyed_request env provider req cache = Some (key, canonical)" using assms(4) by auto
  from assms(5) keyed assms(1,2) show ?thesis
  proof (cases rule: call_with_cache_cases)
    case (replayed entry entry' wd1 wd2 oc)
    then show ?thesis using hit_result [OF replayed(6)] by (auto simp: reads_def)
  qed (use assms(3) in \<open>auto simp: before_any_attempt_def before_any_attempt_for_def reads_def\<close>)
qed

end

text \<open>C6: A cached outcome is a replay and nothing else: its response is the one rebuilt from an entry that was
  stored, before the call, under one of the keys of this very request (its current key, or the keys older
  releases gave it), and answering it touches neither the provider, the clock nor the limiter. This holds for
  every backend that keeps its contract.\<close>

theorem cached_answer_provenance:
  assumes "cache_backend (cc_backend cache) stored" and "digest_32 env"
    and "call_with_cache env provider req cache retry_cfg wd = (Inr oc, wd')" and "co_cached oc"
  shows "\<exists>k e. k \<in> answer_keys env provider req cache \<and> e \<in> stored (wd_cache wd) k
    \<and> co_response oc = entry_to_response e provider \<and> wd_world wd' = wd_world wd \<and> wd_limiter wd' = wd_limiter wd"
  using assms(1,2) refl assms(3,4) by (rule cache_backend.cached_outcome)

text \<open>C10: A call adds to the store only in read-write mode, only under the key of its own request, only an
  answer that the policy on empty outputs keeps, and only the answer it returns: whatever entry is there
  after the call and was not before has the output and tool calls of the outcome.\<close>

theorem call_writes_only_its_answer:
  assumes "cache_backend (cc_backend cache) stored" and "digest_32 env" and "valid_key k"
    and "call_with_cache env provider req cache retry_cfg wd = (r, wd')"
    and "e \<in> stored (wd_cache wd') k" and "e \<notin> stored (wd_cache wd) k"
  shows "storable cache e \<and> (\<exists>canonical. keyed_request env provider req cache = Some (k, canonical))
    \<and> (\<exists>oc. r = Inr oc \<and> co_cache_key oc = Some k \<and> ce_output e = pr_output (co_response oc) \<and> ce_tool_calls e = pr_tool_calls (co_response oc))"
  using assms(1,2) refl assms(3-6) by (rule cache_backend.call_adds)

text \<open>C9: In read-only strict mode a request that has a key is answered offline: no provider call, no sleep,
  no limiter slot. The outcome is a replay, a cache miss or an unreadable cache, reported before any
  attempt.\<close>

theorem strict_mode_is_offline:
  assumes "cache_backend (cc_backend cache) stored" and "digest_32 env" and "cc_mode cache = ReadOnlyStrict"
    and "keyed_request env provider req cache \<noteq> None"
    and "call_with_cache env provider req cache retry_cfg wd = (r, wd')"
  shows "wd_world wd' = wd_world wd \<and> wd_limiter wd' = wd_limiter wd
    \<and> (case r of Inr oc \<Rightarrow> co_cached oc
        | Inl f \<Rightarrow> cf_attempts f = 0 \<and> cf_class f \<in> {CACHE_MISS, CACHE_UNAVAILABLE})"
  using assms(1,2) refl assms(3-5) by (rule cache_backend.strict_call)

section \<open>Replay from the local disk\<close>

lemma probe_keys_quiet:
  assumes "quiet (wd_cache wd)"
  shows "wd_cache (snd (probe_keys halt (LocalDiskCache sz) ks wd)) = wd_cache wd"
proof (induction ks)
  case (Cons k ks)
  have "cache_get (LocalDiskCache sz) k wd = (fst (disk_get k (wd_cache wd)), wd)"
    using assms by (simp add: cache_get_def LocalDiskCache_def disk_get_quiet)
  then show ?case using Cons.IH by (auto simp: Let_def split: sum.split option.split)
qed simp

lemma adopt_quiet:
  assumes "quiet (wd_cache wd)" and "cc_backend cache = LocalDiskCache sz"
  shows "wd_cache (snd (adopt_legacy_canonical env provider req cache wd)) = wd_cache wd"
    and "wd_cache (snd (adopt_legacy env provider req cache wd)) = wd_cache wd"
  using assms probe_keys_quiet [of "snd (ask_probe wd)"]
  by (simp_all add: adopt_legacy_canonical_def adopt_legacy_def Let_def case_prod_beta)

lemma call_miss_live:
  assumes "cc_backend cache = LocalDiskCache sz" and "quiet (wd_cache wd)"
    and "keyed_request env provider req cache = Some (key, canonical)"
    and "call_with_cache env provider req cache retry_cfg wd = (Inr oc, wd')" and "\<not> co_cached oc"
  obtains wd1 where "wd_cache wd1 = wd_cache wd" "read_file (path_for key) (wd_cache wd) = None"
    "call_live env provider req cache retry_cfg (Some (key, canonical)) wd1 = (Inr oc, wd')"
proof -
  have hits: "\<not> (map_prod Inr id (hit provider e key (cc_policy cache) w) = (Inr oc, wd'))" for e w
    using hit_result [of provider e key "cc_policy cache" w oc wd'] assms(5) by (cases "hit provider e key (cc_policy cache) w") auto
  have get: "cache_get (cc_backend cache) key wd = (fst (disk_get key (wd_cache wd)), wd)"
    using assms(1,2) by (simp add: cache_get_def LocalDiskCache_def disk_get_quiet)
  obtain a2 wd2 where 2: "adopt_legacy_canonical env provider req cache wd = (a2, wd2)" by fastforce
  obtain a3 wd3 where 3: "adopt_legacy env provider req cache wd2 = (a3, wd3)" by fastforce
  have same: "wd_cache wd2 = wd_cache wd" using adopt_quiet(1) [OF assms(2,1), of env provider req] 2 by simp
  then have same3: "wd_cache wd3 = wd_cache wd"
    using adopt_quiet(2) [of wd2 cache sz env provider req] assms(1,2) 3 by simp
  have "fst (disk_get key (wd_cache wd)) = Inr None \<and> call_live env provider req cache retry_cfg (Some (key, canonical)) wd3 = (Inr oc, wd')"
    using assms(4) hits by (auto simp: call_with_cache_def Let_def assms(3) get 2 3 case_prod_beta
        split: sum.splits option.splits if_splits)
  then show thesis using same3 assms(2) by (intro that [of wd3]) (auto simp: disk_get_quiet split: option.splits Body.splits)
qed

lemma call_live_stores:
  assumes "call_live env provider req cache retry_cfg (Some (key, canonical)) wd = (Inr oc, wd')"
    and "cc_mode cache = ReadWrite"
    and "should_store (cc_policy cache) (effective_reason (nv_serde env) (cc_policy cache) provider (co_response oc))"
  obtains stats w where "co_attempts oc = Some (rs_attempts stats)"
    "co_provider_latency_ms oc = Some (as_millis (rs_in_flight stats))" "co_cache_key oc = Some key"
    "wd_cache wd' = snd (be_put (cc_backend cache) key
       (response_to_entry env w provider (co_response oc) stats canonical) (wd_cache wd))"
proof -
  obtain result stats lm w where run: "with_retry_limited (nv_runtime env) retry_cfg (\<lambda>_ w. pv_call provider req w)
      (wd_limiter wd) (wd_world wd) = (result, stats, lm, w)"
    by (cases "with_retry_limited (nv_runtime env) retry_cfg (\<lambda>_ w. pv_call provider req w) (wd_limiter wd) (wd_world wd)")
  then show thesis using assms
    by (intro that [of stats w])
      (auto simp: call_live_def Let_def store_response_def cache_put_def split: sum.splits)
qed

text \<open>The fields of a response that a replay gives back unchanged.\<close>

definition same_answer :: "ProviderResponse \<Rightarrow> ProviderResponse \<Rightarrow> bool" where
  "same_answer a b \<longleftrightarrow> pr_output a = pr_output b \<and> pr_usage a = pr_usage b \<and> pr_stop_reason a = pr_stop_reason b
     \<and> pr_tool_calls a = pr_tool_calls b \<and> pr_reasoning a = pr_reasoning b \<and> pr_model a = pr_model b"

lemma entry_round_trip:
  "same_answer (entry_to_response (response_to_entry env w provider response stats canonical) provider) response
   \<and> pr_raw (entry_to_response (response_to_entry env w provider response stats canonical) provider)
      = json_to_persist (nv_serde env) True (pr_raw response)
   \<and> pr_cost_usd (entry_to_response (response_to_entry env w provider response stats canonical) provider)
      = or_else (recost (pr_usage response) provider) (pr_cost_usd response)"
  by (simp add: same_answer_def entry_to_response_def response_to_entry_def)


section \<open>A run of two calls\<close>

definition demo_env :: "nat env" where
  "demo_env = \<lparr>nv_hashing = length_hashing, nv_blake3 = (\<lambda>s. s), nv_serde = lib_serde quiet_libs, nv_runtime = tick_runtime,
     nv_utc_now = int, nv_version = ''1''\<rparr>"

definition demo_response :: ProviderResponse where
  "demo_response = \<lparr>pr_output = Text ''hi'', pr_usage = None, pr_cost_usd = None, pr_stop_reason = None, pr_raw = None,
     pr_tool_calls = [], pr_reasoning = None, pr_empty_reason = None, pr_model = None\<rparr>"

definition demo_provider :: "json option \<Rightarrow> nat Provider" where
  "demo_provider canonical = \<lparr>pv_id = ''p'', pv_fingerprint = JNull, pv_call = (\<lambda>_ w. (Inr demo_response, w + 1)), pv_cacheable = True,
     pv_program_digest = None, pv_rate = None, pv_legacy_fingerprints = [], pv_request_preview = (\<lambda>_. None),
     pv_canonical_request = (\<lambda>_. canonical), pv_address = None, pv_legacy_canonical_requests = (\<lambda>_. []),
     pv_cache_salt = None, pv_classify_empty = default_classify_empty\<rparr>"

definition demo_request :: ProviderRequest where
  "demo_request = \<lparr>rq_prompt = None, rq_vars = [], rq_params = [], rq_test = \<lparr>tm_id = ''t'', tm_tags = []\<rparr>,
     rq_case_salt = None, rq_tools = []\<rparr>"

definition demo_call :: "CacheMode \<Rightarrow> Disk CacheCall" where
  "demo_call mode = \<lparr>cc_backend = LocalDiskCache (\<lambda>_. 1), cc_mode = mode, cc_repeat = 0,
     cc_policy = \<lparr>ep_store = Reproducible, ep_refusal = []\<rparr>, cc_probe_legacy = True\<rparr>"

definition demo_world :: "(Disk, nat) World" where
  "demo_world = \<lparr>wd_cache = empty_disk, wd_state = new_run_state new_probe, wd_limiter = None, wd_aborted = None, wd_world = 0\<rparr>"

lemmas demo_defs = demo_env_def demo_provider_def demo_request_def demo_call_def demo_world_def

lemma demo_digest: "digest_32 demo_env"
  by (simp add: digest_32_def demo_env_def length_hashing_def)

lemma demo_backend: "cache_backend (cc_backend (demo_call mode)) disk_stored"
  using disk.cache_backend_axioms by (simp add: demo_call_def)

lemma demo_retry:
  "with_retry_limited tick_runtime default_policy (\<lambda>_ w. pv_call (demo_provider c) demo_request w) None 0
   = (Inr demo_response, \<lparr>rs_attempts = 1, rs_in_flight = 1\<rparr>, None, 1)"
  unfolding with_retry_limited_def
  by (subst retry_loop_step [where ?w1.0 = 0 and ?lm1.0 = None and out = "Inr demo_response" and ?w2.0 = 1])
    (simp_all add: wait_for_slot_def demo_provider_def tick_runtime_def)

lemma demo_miss:
  assumes "keyed_request demo_env (demo_provider (Some q)) demo_request (demo_call mode) = Some (key, canonical)"
  shows "call_with_cache demo_env (demo_provider (Some q)) demo_request (demo_call mode) default_policy demo_world
    = (if mode = ReadOnlyStrict
       then (Inl (before_any_attempt_for CACHE_MISS (''cache-only: miss for key '' @ show_key key) key), demo_world)
       else call_live demo_env (demo_provider (Some q)) demo_request (demo_call mode) default_policy
              (Some (key, canonical)) demo_world)"
proof -
  have "cache_get (cc_backend (demo_call mode)) key demo_world = (Inr None, demo_world)"
    by (simp add: cache_get_def LocalDiskCache_def disk_get_quiet demo_disk demo_world_def demo_call_def)
  moreover have "adopt_legacy_canonical demo_env (demo_provider (Some q)) demo_request (demo_call mode) demo_world = (None, demo_world)"
    "adopt_legacy demo_env (demo_provider (Some q)) demo_request (demo_call mode) demo_world = (None, demo_world)"
    by (simp_all add: adopt_legacy_canonical_def adopt_legacy_def demo_provider_def)
  moreover have "cc_mode (demo_call mode) = mode" by (simp add: demo_call_def)
  ultimately show ?thesis by (simp add: call_with_cache_def assms Let_def)
qed

lemma demo_keyed:
  assumes "mode \<noteq> Disabled"
  obtains key where "keyed_request demo_env (demo_provider (Some q)) demo_request (demo_call mode) = Some (key, q)"
  using assms by (simp add: keyed_request_def demo_provider_def demo_call_def)

lemma demo_should_store:
  "should_store (cc_policy (demo_call ReadWrite)) (effective_reason (nv_serde demo_env)
     (cc_policy (demo_call ReadWrite)) (demo_provider c) demo_response)"
  by (simp add: demo_response_def effective_reason_def demo_provider_def default_classify_empty_def
      classify_blank_def demo_call_def refusal_matches_def should_store_def trim_def is_whitespace_def then_some_def)

lemma demo_first_call:
  obtains oc wd where "call_with_cache demo_env (demo_provider (Some q)) demo_request (demo_call ReadWrite) default_policy demo_world
      = (Inr oc, wd)" "\<not> co_cached oc" "co_response oc = demo_response"
proof -
  obtain key where keyed: "keyed_request demo_env (demo_provider (Some q)) demo_request (demo_call ReadWrite) = Some (key, q)"
    using demo_keyed [of ReadWrite] by blast
  show thesis
    using demo_miss [OF keyed] demo_retry [of "Some q"] that
    by (simp add: call_live_def Let_def demo_env_def demo_world_def)
qed


text \<open>A call that is answered live over the empty disk: its answer is on the disk afterwards.\<close>

lemma demo_stored:
  obtains oc wd key e where
    "call_with_cache demo_env (demo_provider (Some JNull)) demo_request (demo_call ReadWrite) default_policy demo_world = (Inr oc, wd)"
    "keyed_request demo_env (demo_provider (Some JNull)) demo_request (demo_call ReadWrite) = Some (key, JNull)"
    "disk_get key (wd_cache wd) = (Inr (Some e), wd_cache wd)" "e \<in> disk_stored (wd_cache wd) key"
proof -
  obtain key where keyed: "keyed_request demo_env (demo_provider (Some JNull)) demo_request (demo_call ReadWrite) = Some (key, JNull)"
    using demo_keyed [of ReadWrite] by blast
  let ?w = "demo_world\<lparr>wd_limiter := None, wd_world := 1\<rparr>"
  let ?e = "response_to_entry demo_env (1::nat) (demo_provider (Some JNull)) demo_response \<lparr>rs_attempts = 1, rs_in_flight = 1\<rparr> JNull"
  have "store_response demo_env (demo_provider (Some JNull)) (demo_call ReadWrite) (Some (key, JNull)) demo_response
      \<lparr>rs_attempts = 1, rs_in_flight = 1\<rparr> ?w
    = ?w\<lparr>wd_cache := snd (disk_put (\<lambda>_. 1) key ?e empty_disk)\<rparr>"
    using demo_should_store by (simp add: store_response_def cache_put_def demo_call_def LocalDiskCache_def demo_world_def)
  then obtain oc wd where call: "call_with_cache demo_env (demo_provider (Some JNull)) demo_request (demo_call ReadWrite)
      default_policy demo_world = (Inr oc, wd)" and wd: "wd_cache wd = snd (disk_put (\<lambda>_. 1) key ?e empty_disk)"
    using demo_miss [OF keyed] demo_retry [of "Some JNull"]
    by (simp add: call_live_def Let_def demo_env_def demo_world_def)
  have "disk_get key (wd_cache wd) = (Inr (Some ?e), wd_cache wd)"
    using wd by (intro put_get_quiet [OF demo_disk(1,2)]) (simp add: prod_eq_iff)
  moreover have "?e \<in> disk_stored (wd_cache wd) key"
    using disk_get_result [OF calculation] by (simp add: disk_stored_def)
  ultimately show thesis using that [OF call keyed] by blast
qed

theorem cached_answer_provenance_witness:
  "\<exists>wd oc wd2 k e. call_with_cache demo_env (demo_provider (Some JNull)) demo_request (demo_call ReadWrite) default_policy wd
      = (Inr oc, wd2) \<and> co_cached oc \<and> e \<in> disk_stored (wd_cache wd) k
    \<and> co_response oc = entry_to_response e (demo_provider (Some JNull))"
proof -
  obtain oc wd key e where keyed: "keyed_request demo_env (demo_provider (Some JNull)) demo_request (demo_call ReadWrite) = Some (key, JNull)"
    and get: "disk_get key (wd_cache wd) = (Inr (Some e), wd_cache (wd :: (Disk, nat) World))" by (rule demo_stored)
  have "cache_get (cc_backend (demo_call ReadWrite)) key wd = (Inr (Some e), wd)"
    using get by (simp add: cache_get_def demo_call_def LocalDiskCache_def)
  then have call: "call_with_cache demo_env (demo_provider (Some JNull)) demo_request (demo_call ReadWrite) default_policy wd
      = map_prod Inr id (hit (demo_provider (Some JNull)) e key (cc_policy (demo_call ReadWrite)) wd)"
    by (simp add: call_with_cache_def keyed Let_def)
  obtain oc2 wd2 where h: "hit (demo_provider (Some JNull)) e key (cc_policy (demo_call ReadWrite)) wd = (oc2, wd2)" by fastforce
  from call h have call2: "call_with_cache demo_env (demo_provider (Some JNull)) demo_request (demo_call ReadWrite) default_policy wd
      = (Inr oc2, wd2)" by simp
  have "co_cached oc2" using hit_result [OF h] by simp
  with cached_answer_provenance [OF demo_backend demo_digest call2] call2 show ?thesis by blast
qed

theorem call_writes_only_its_answer_witness: "\<exists>e. storable (demo_call ReadWrite) e"
proof -
  obtain oc wd key e where
    call: "call_with_cache demo_env (demo_provider (Some JNull)) demo_request (demo_call ReadWrite) default_policy demo_world = (Inr oc, wd)"
    and keyed: "keyed_request demo_env (demo_provider (Some JNull)) demo_request (demo_call ReadWrite) = Some (key, JNull)"
    and e: "e \<in> disk_stored (wd_cache wd) key" by (rule demo_stored)
  have "e \<notin> disk_stored (wd_cache demo_world) key"
    by (simp add: disk_stored_def demo_world_def demo_disk)
  with call_writes_only_its_answer [OF demo_backend demo_digest keys_valid(1) [OF demo_digest keyed] call e]
  show ?thesis by blast
qed

theorem strict_mode_is_offline_witness:
  "\<exists>r wd. call_with_cache demo_env (demo_provider (Some JNull)) demo_request (demo_call ReadOnlyStrict) default_policy demo_world = (r, wd)
     \<and> wd_world wd = 0 \<and> (\<exists>f. r = Inl f \<and> cf_class f \<in> {CACHE_MISS, CACHE_UNAVAILABLE})"
proof -
  obtain key where keyed: "keyed_request demo_env (demo_provider (Some JNull)) demo_request (demo_call ReadOnlyStrict) = Some (key, JNull)"
    using demo_keyed [of ReadOnlyStrict] by blast
  have strict: "cc_mode (demo_call ReadOnlyStrict) = ReadOnlyStrict" by (simp add: demo_call_def)
  have ne: "keyed_request demo_env (demo_provider (Some JNull)) demo_request (demo_call ReadOnlyStrict) \<noteq> None"
    using keyed by simp
  obtain r wd where call: "call_with_cache demo_env (demo_provider (Some JNull)) demo_request (demo_call ReadOnlyStrict)
      default_policy demo_world = (r, wd)" by (cases "call_with_cache demo_env (demo_provider (Some JNull)) demo_request
        (demo_call ReadOnlyStrict) default_policy demo_world")
  moreover have "\<exists>f. r = Inl f" using call demo_miss [OF keyed] by auto
  ultimately show ?thesis
    using strict_mode_is_offline [OF demo_backend demo_digest strict ne call] by (auto simp: demo_world_def)
qed

text \<open>Strict mode does not cover a request without a canonical form: such a call has no key, so it skips the
  cache and goes live, here reaching the provider and returning its answer.\<close>

theorem strict_mode_without_key_goes_live:
  "\<exists>oc wd. call_with_cache demo_env (demo_provider None) demo_request (demo_call ReadOnlyStrict) default_policy demo_world
      = (Inr oc, wd) \<and> \<not> co_cached oc \<and> wd_world wd = 1"
  using demo_retry [of None]
  by (simp add: call_with_cache_def keyed_request_def demo_provider_def demo_call_def call_live_def Let_def
      store_response_def demo_env_def demo_world_def)

end
