(* ===== verification/Fallback.thy ===== *)
theory Fallback
  imports CallCache
begin

text \<open>
  Provider fallback chains (\<open>crates/domarinn-core/src/runner_fallback.rs\<close>) with the test filter that
  decides which links a test admits (\<open>filter.rs\<close>) and the digest of a provider (\<open>digests.rs\<close>).
  A panic is the result \<open>None\<close>.
\<close>

section \<open>Model\<close>

subsection \<open>Filters (\<open>filter.rs\<close>)\<close>

text \<open>The part of a test case (\<open>config.rs\<close>) the filter reads.\<close>

record TestSelector =
  ts_id :: "string option"
  ts_tags :: "string list"
  ts_only_providers :: "string list"
  ts_skip_providers :: "string list"

record FilterOpts =
  fo_tags :: "string list"
  fo_filters :: "string list"
  fo_providers :: "string list"
  fo_prompts :: "string list"

text \<open>A compiled glob set is the predicate it decides.\<close>

record Filter =
  fi_tags :: "string list"
  fi_id_globs :: "(string \<Rightarrow> bool) option"
  fi_providers :: "string list"
  fi_prompts :: "string list"

fun compile_globs :: "(string \<Rightarrow> string + (string \<Rightarrow> bool)) \<Rightarrow> string list \<Rightarrow> (string \<times> string) + (string \<Rightarrow> bool)" where
  "compile_globs glob [] = Inr (\<lambda>_. False)"
| "compile_globs glob (p # ps) = (case glob p of
     Inl e \<Rightarrow> Inl (p, e)
   | Inr g \<Rightarrow> (case compile_globs glob ps of Inl e \<Rightarrow> Inl e | Inr gs \<Rightarrow> Inr (\<lambda>s. g s \<or> gs s)))"

definition filter_build :: "(string \<Rightarrow> string + (string \<Rightarrow> bool)) \<Rightarrow> FilterOpts \<Rightarrow> (string \<times> string) + Filter" where
  "filter_build glob opts =
     (let make = (\<lambda>globs. \<lparr>fi_tags = fo_tags opts, fi_id_globs = globs, fi_providers = fo_providers opts,
            fi_prompts = fo_prompts opts\<rparr>)
      in if fo_filters opts = [] then Inr (make None)
         else case compile_globs glob (fo_filters opts) of Inl e \<Rightarrow> Inl e | Inr g \<Rightarrow> Inr (make (Some g)))"

definition matches_test :: "Filter \<Rightarrow> ('a) TestSelector_scheme \<Rightarrow> bool" where
  "matches_test f tc =
     ((fi_tags f = [] \<or> list_ex (\<lambda>t. List.member (ts_tags tc) t) (fi_tags f))
    \<and> (case fi_id_globs f of None \<Rightarrow> True
       | Some globs \<Rightarrow> (case ts_id tc of None \<Rightarrow> False | Some i \<Rightarrow> globs i)))"

definition test_allows_provider :: "string \<Rightarrow> ('a) TestSelector_scheme \<Rightarrow> bool" where
  "test_allows_provider pid tc =
     (if ts_only_providers tc \<noteq> [] \<and> \<not> List.member (ts_only_providers tc) pid then False
      else \<not> List.member (ts_skip_providers tc) pid)"

definition provider_included :: "Filter \<Rightarrow> string \<Rightarrow> ('a) TestSelector_scheme \<Rightarrow> bool" where
  "provider_included f pid tc =
     (if fi_providers f \<noteq> [] \<and> \<not> List.member (fi_providers f) pid then False else test_allows_provider pid tc)"

definition prompt_included :: "Filter \<Rightarrow> string \<Rightarrow> bool" where
  "prompt_included f pid = (fi_prompts f = [] \<or> List.member (fi_prompts f) pid)"

subsection \<open>The policy\<close>

definition FALLBACK_ERROR_CLASSES :: "ErrorClass list" where
  "FALLBACK_ERROR_CLASSES = [PROVIDER_AUTH, PROVIDER_UNAVAILABLE, PROVIDER_TIMEOUT, PROVIDER_PROTOCOL,
     PROVIDER_RATE_LIMIT, EXEC_FAILED]"

definition DEFAULT_FALLBACK_ON_EMPTY_REASON :: "EmptyReason list" where
  "DEFAULT_FALLBACK_ON_EMPTY_REASON = [REFUSAL, CONTENT_FILTER]"

record FallbackPolicy =
  fp_on_empty_reason :: "string list"
  fp_enabled :: bool

definition fallback_resolve :: "string list option \<Rightarrow> bool \<Rightarrow> string list option \<Rightarrow> FallbackPolicy" where
  "fallback_resolve suite_reasons enabled override_reasons =
     \<lparr>fp_on_empty_reason = unwrap_or (or_else override_reasons suite_reasons) DEFAULT_FALLBACK_ON_EMPTY_REASON,
      fp_enabled = enabled\<rparr>"

record FallbackAttempt =
  fa_provider_id :: string
  fa_empty_reason :: "EmptyReason option"
  fa_error_class :: "ErrorClass option"

definition hand_off ::
  "serde \<Rightarrow> FallbackPolicy \<Rightarrow> EmptyPolicy \<Rightarrow> 'w Provider \<Rightarrow> CallFailure + CallOutcome \<Rightarrow> FallbackAttempt option" where
  "hand_off sd fp policy provider outcome = (case outcome of
       Inr oc \<Rightarrow> Option.bind (effective_reason sd policy provider (co_response oc)) (\<lambda>reason.
         then_some (List.member (fp_on_empty_reason fp) reason)
           \<lparr>fa_provider_id = pv_id provider, fa_empty_reason = Some reason, fa_error_class = None\<rparr>)
     | Inl f \<Rightarrow> then_some (List.member FALLBACK_ERROR_CLASSES (cf_class f))
           \<lparr>fa_provider_id = pv_id provider, fa_empty_reason = None, fa_error_class = Some (cf_class f)\<rparr>)"

subsection \<open>The walk\<close>

definition digest :: "'w env \<Rightarrow> json \<Rightarrow> string" where
  "digest env v = ''blake3:'' @ nv_blake3 env (canonical_json (num_text (nv_hashing env)) (str_text (nv_hashing env)) v)"

definition provider_digest :: "'w env \<Rightarrow> json \<Rightarrow> string" where
  "provider_digest env fingerprint = digest env fingerprint"

record 'w Attempt =
  at_provider :: "'w Provider"
  at_provider_digest :: "string option"
  at_request :: "json option"
  at_outcome :: "CallFailure + CallOutcome"

record 'w ChainOutcome = "'w Attempt" +
  ch_attempted :: "FallbackAttempt list"

record ('c, 'w) ChainCtx =
  cx_cache :: "'c CacheCall"
  cx_retry_cfg :: RetryPolicy
  cx_empty_policy :: EmptyPolicy
  cx_fallback :: FallbackPolicy
  cx_include_raw :: bool
  cx_has_latency_assert :: bool

definition settle :: "'w Attempt \<Rightarrow> FallbackAttempt list \<Rightarrow> 'w ChainOutcome" where
  "settle a attempted = \<lparr>at_provider = at_provider a, at_provider_digest = at_provider_digest a,
     at_request = at_request a, at_outcome = at_outcome a, ch_attempted = attempted\<rparr>"

definition attempt_link ::
  "'w env \<Rightarrow> ProviderRequest \<Rightarrow> ('c, 'w) ChainCtx \<Rightarrow> nat \<Rightarrow> 'w Provider \<Rightarrow> ('c, 'w) World \<Rightarrow> 'w Attempt \<times> ('c, 'w) World" where
  "attempt_link env req chain i provider wd =
     (let (outcome, wd) = call_with_cache env provider req ((cx_cache chain)\<lparr>cc_probe_legacy := (i = 0)\<rparr>) (cx_retry_cfg chain) wd
      in (\<lparr>at_provider = provider, at_provider_digest = Some (provider_digest env (pv_fingerprint provider)),
           at_request = (if cx_include_raw chain then pv_request_preview provider req else None), at_outcome = outcome\<rparr>, wd))"

fun is_err :: "'e + 'a \<Rightarrow> bool" where
  "is_err (Inl _) = True"
| "is_err (Inr _) = False"

text \<open>What link \<open>i\<close>, where the walk ends, reports: the primary's attempt when this link did not improve on it.\<close>

definition report ::
  "nat \<Rightarrow> bool \<Rightarrow> 'w Attempt \<Rightarrow> FallbackAttempt list \<Rightarrow> 'w Attempt option \<Rightarrow> 'w ChainOutcome" where
  "report i triggered attempt attempted primary =
     (if i > 0 \<and> (is_err (at_outcome attempt) \<or> triggered)
      then (case primary of Some p \<Rightarrow> settle p [] | None \<Rightarrow> settle attempt attempted)
      else settle attempt attempted)"

text \<open>The loop over the links from link \<open>i\<close> on, with what was attempted and the primary's attempt so far.\<close>

fun chain_loop ::
  "'w env \<Rightarrow> ProviderRequest \<Rightarrow> ('c, 'w) ChainCtx \<Rightarrow> nat \<Rightarrow> nat \<Rightarrow> FallbackAttempt list \<Rightarrow> 'w Attempt option
   \<Rightarrow> 'w Provider list \<Rightarrow> ('c, 'w) World \<Rightarrow> 'w ChainOutcome option \<times> ('c, 'w) World" where
  "chain_loop env req chain links i attempted primary [] wd = (map_option (\<lambda>p. settle p []) primary, wd)"
| "chain_loop env req chain links i attempted primary (provider # rest) wd =
     (if i > 0 \<and> abort_reason (wd_aborted wd) \<noteq> None then (map_option (\<lambda>p. settle p []) primary, wd)
      else
        let (attempt, wd) = attempt_link env req chain i provider wd;
            handoff = (if links > 1
                       then hand_off (nv_serde env) (cx_fallback chain) (cx_empty_policy chain) provider (at_outcome attempt)
                       else None)
        in case handoff of
             Some rec \<Rightarrow>
               if rest \<noteq> []
               then chain_loop env req chain links (i + 1) (attempted @ [rec]) (if i = 0 then Some attempt else primary) rest wd
               else (Some (report i True attempt attempted primary), wd)
           | None \<Rightarrow> (Some (report i False attempt attempted primary), wd))"

definition walks :: "('c, 'w) ChainCtx \<Rightarrow> 'w Provider list \<Rightarrow> bool" where
  "walks chain fallbacks = (fp_enabled (cx_fallback chain) \<and> fallbacks \<noteq> []
     \<and> cc_mode (cx_cache chain) \<noteq> ReadOnlyStrict \<and> \<not> cx_has_latency_assert chain)"

definition call_chain ::
  "'w env \<Rightarrow> 'w Provider \<Rightarrow> 'w Provider list \<Rightarrow> ProviderRequest \<Rightarrow> ('c, 'w) ChainCtx \<Rightarrow> ('c, 'w) World
   \<Rightarrow> 'w ChainOutcome option \<times> ('c, 'w) World" where
  "call_chain env primary fallbacks req chain wd =
     (let links = (if walks chain fallbacks then primary # fallbacks else [primary])
      in chain_loop env req chain (length links) 0 [] None links wd)"

text \<open>The links a cell may fall back to: each listed id once, in order.\<close>

fun first_of_each :: "string set \<Rightarrow> string list \<Rightarrow> string list" where
  "first_of_each seen [] = []"
| "first_of_each seen (x # xs) = (if x \<in> seen then first_of_each seen xs else x # first_of_each (insert x seen) xs)"

definition resolve_chain ::
  "string \<Rightarrow> string list \<Rightarrow> (string \<rightharpoonup> 'w Provider) \<Rightarrow> ('a) TestSelector_scheme \<Rightarrow> 'w Provider list" where
  "resolve_chain primary_id ids by_id tc =
     List.map_filter (\<lambda>i. if i \<noteq> primary_id \<and> test_allows_provider i tc \<and> by_id i \<noteq> None then by_id i else None)
       (first_of_each {} ids)"

section \<open>Properties\<close>

lemma attempt_link_parts:
  "attempt_link env req chain i provider wd = (a, wd')
   \<Longrightarrow> at_provider a = provider \<and> at_outcome a = fst (call_with_cache env provider req ((cx_cache chain)\<lparr>cc_probe_legacy := (i = 0)\<rparr>)
        (cx_retry_cfg chain) wd)"
  by (auto simp: attempt_link_def Let_def case_prod_beta)

text \<open>A record of a hand-off names the link that was left and why.\<close>

definition good_reason :: "FallbackPolicy \<Rightarrow> FallbackAttempt \<Rightarrow> bool" where
  "good_reason fp a \<longleftrightarrow>
     (case fa_empty_reason a of Some r \<Rightarrow> List.member (fp_on_empty_reason fp) r \<and> fa_error_class a = None
      | None \<Rightarrow> (\<exists>c. fa_error_class a = Some c \<and> List.member FALLBACK_ERROR_CLASSES c))"

lemma hand_off_Some: "hand_off sd fp pol provider out = Some rec \<Longrightarrow> fa_provider_id rec = pv_id provider \<and> good_reason fp rec"
  by (auto simp: hand_off_def good_reason_def bind_eq_Some_conv split: sum.splits)

text \<open>A link that improved on the primary: it answered, and its answer is no trigger itself.\<close>

definition improved :: "'w env \<Rightarrow> ('c, 'w) ChainCtx \<Rightarrow> 'w ChainOutcome \<Rightarrow> bool" where
  "improved env chain oc \<longleftrightarrow> \<not> is_err (at_outcome oc)
     \<and> hand_off (nv_serde env) (cx_fallback chain) (cx_empty_policy chain) (at_provider oc) (at_outcome oc) = None"

lemma chain_loop_tail:
  assumes "links > 1" and "i > 0" and "chain_loop env req chain links i attempted (Some p) rest wd = (res, wd')"
    and "list_all (good_reason (cx_fallback chain)) attempted"
  shows "\<exists>oc. res = Some oc \<and> (oc = settle p []
      \<or> (\<exists>pre link post. rest = pre @ link # post \<and> at_provider oc = link \<and> improved env chain oc
           \<and> map fa_provider_id (ch_attempted oc) = map fa_provider_id attempted @ map pv_id pre
           \<and> list_all (good_reason (cx_fallback chain)) (ch_attempted oc)))"
  using assms(2-)
proof (induction rest arbitrary: i attempted wd)
  case (Cons provider rest)
  show ?case
  proof (cases "abort_reason (wd_aborted wd) = None")
    case False
    then show ?thesis using Cons.prems by auto
  next
    case True
    obtain a wd1 where a: "attempt_link env req chain i provider wd = (a, wd1)" by fastforce
    note parts = attempt_link_parts [OF a]
    let ?h = "hand_off (nv_serde env) (cx_fallback chain) (cx_empty_policy chain) provider (at_outcome a)"
    consider (walk) rec where "rest \<noteq> []" "?h = Some rec" | (give_up) "is_err (at_outcome a) \<or> ?h \<noteq> None" "rest = [] \<or> ?h = None"
      | (answer) "\<not> is_err (at_outcome a)" "?h = None" by (cases ?h) auto
    then show ?thesis
    proof cases
      case walk
      have "chain_loop env req chain links (i + 1) (attempted @ [rec]) (Some p) rest wd1 = (res, wd')"
        using Cons.prems a walk True assms(1) by simp
      from Cons.IH [OF _ this] obtain oc where res: "res = Some oc" and
        "oc = settle p [] \<or> (\<exists>pre link post. rest = pre @ link # post \<and> at_provider oc = link \<and> improved env chain oc
           \<and> map fa_provider_id (ch_attempted oc) = map fa_provider_id (attempted @ [rec]) @ map pv_id pre
           \<and> list_all (good_reason (cx_fallback chain)) (ch_attempted oc))"
        using Cons.prems(3) hand_off_Some [OF walk(2)] by auto
      then consider "oc = settle p []"
        | pre link post where "provider # rest = (provider # pre) @ link # post" "at_provider oc = link" "improved env chain oc"
            "map fa_provider_id (ch_attempted oc) = map fa_provider_id attempted @ map pv_id (provider # pre)"
            "list_all (good_reason (cx_fallback chain)) (ch_attempted oc)"
        using hand_off_Some [OF walk(2)] by auto
      then show ?thesis
      proof cases
        case 2
        then show ?thesis using res by blast
      qed (use res in simp)
    next
      case give_up
      then have "(res, wd') = (Some (settle p []), wd1)"
        using Cons.prems a True assms(1) by (auto simp: report_def split: option.splits)
      then show ?thesis by simp
    next
      case answer
      then have "(res, wd') = (Some (settle a attempted), wd1)"
        using Cons.prems a True assms(1) by (simp add: report_def)
      then show ?thesis using answer parts Cons.prems(3)
        by (intro exI [of _ "settle a attempted"] conjI disjI2 exI [of _ "[]"] exI [of _ provider] exI [of _ rest])
          (auto simp: improved_def settle_def)
    qed
  qed
qed auto

lemma call_chain_outcome:
  "\<exists>oc. fst (call_chain env primary fallbacks req chain wd) = Some oc
    \<and> (at_provider oc = primary \<and> ch_attempted oc = []
        \<and> at_outcome oc = fst (call_with_cache env primary req ((cx_cache chain)\<lparr>cc_probe_legacy := True\<rparr>) (cx_retry_cfg chain) wd)
       \<or> walks chain fallbacks \<and> (\<exists>pre link post. fallbacks = pre @ link # post \<and> at_provider oc = link
            \<and> improved env chain oc \<and> map fa_provider_id (ch_attempted oc) = pv_id primary # map pv_id pre
            \<and> list_all (good_reason (cx_fallback chain)) (ch_attempted oc)))"
proof -
  obtain res wd' where chain: "call_chain env primary fallbacks req chain wd = (res, wd')"
    by (cases "call_chain env primary fallbacks req chain wd")
  let ?links = "if walks chain fallbacks then primary # fallbacks else [primary]"
  obtain a wd1 where a: "attempt_link env req chain 0 primary wd = (a, wd1)" by fastforce
  note parts = attempt_link_parts [OF a, simplified]
  let ?h = "hand_off (nv_serde env) (cx_fallback chain) (cx_empty_policy chain) primary (at_outcome a)"
  have run: "chain_loop env req chain (length ?links) 0 [] None ?links wd = (res, wd')"
    using chain by (simp add: call_chain_def Let_def)
  show ?thesis
  proof (cases "walks chain fallbacks \<and> ?h \<noteq> None")
    case True
    then obtain rec where rec: "?h = Some rec" and w: "walks chain fallbacks" by auto
    then have ne: "fallbacks \<noteq> []" by (simp add: walks_def)
    have "chain_loop env req chain (length ?links) 1 [rec] (Some a) fallbacks wd1 = (res, wd')"
      using run a rec w ne by (simp add: Let_def)
    then have "\<exists>oc. res = Some oc \<and> (oc = settle a [] \<or> (\<exists>pre link post. fallbacks = pre @ link # post \<and> at_provider oc = link \<and> improved env chain oc
         \<and> map fa_provider_id (ch_attempted oc) = map fa_provider_id [rec] @ map pv_id pre
         \<and> list_all (good_reason (cx_fallback chain)) (ch_attempted oc)))"
      using w ne hand_off_Some [OF rec] by (intro chain_loop_tail) auto
    moreover have "map fa_provider_id [rec] @ ids = pv_id primary # ids" for ids
      using hand_off_Some [OF rec] by simp
    moreover have "at_provider (settle a []) = primary" "ch_attempted (settle a []) = []"
      "at_outcome (settle a []) = at_outcome a" using parts by (simp_all add: settle_def)
    ultimately show ?thesis using parts w unfolding chain fst_conv by metis
  next
    case False
    then have "(res, wd') = (Some (settle a []), wd1)"
      using run a by (auto simp: Let_def walks_def report_def split: if_splits option.splits)
    then show ?thesis using parts unfolding chain by (auto simp: settle_def)
  qed
qed

lemma first_of_each_sound:
  "distinct (first_of_each seen xs) \<and> set (first_of_each seen xs) = set xs - seen"
  by (induction xs arbitrary: seen) auto

text \<open>C33: Falling back never leaves a case worse off. A chain always ends with an outcome: either the
  primary's own, exactly as a run without fallbacks would report it and with nothing recorded as
  attempted, or that of a fallback which answered and whose answer is no reason to hand off; then the
  record names the primary and every link before it, each with the empty reason or error class that the
  policy hands off on. When fallback is off, no link is left, the run is offline (read-only strict) or the
  case measures latency, only the primary is asked.\<close>

theorem call_chain_never_worse:
  "\<exists>oc. fst (call_chain env primary fallbacks req chain wd) = Some oc
    \<and> (at_provider oc = primary \<and> ch_attempted oc = []
        \<and> at_outcome oc = fst (call_with_cache env primary req ((cx_cache chain)\<lparr>cc_probe_legacy := True\<rparr>) (cx_retry_cfg chain) wd)
       \<or> walks chain fallbacks \<and> (\<exists>pre link post. fallbacks = pre @ link # post \<and> at_provider oc = link
            \<and> improved env chain oc \<and> map fa_provider_id (ch_attempted oc) = pv_id primary # map pv_id pre
            \<and> list_all (good_reason (cx_fallback chain)) (ch_attempted oc)))"
  by (rule call_chain_outcome)

lemma call_chain_total: "\<exists>oc wd'. call_chain env primary fallbacks req chain wd = (Some oc, wd')"
  using call_chain_outcome [of env primary fallbacks req chain wd] by (metis prod.collapse)

lemma call_chain_single:
  "\<not> walks chain fallbacks \<Longrightarrow> call_chain env primary fallbacks req chain wd
   = (let (a, wd') = attempt_link env req chain 0 primary wd in (Some (settle a []), wd'))"
  by (simp add: call_chain_def report_def Let_def case_prod_beta)

text \<open>The fallback links of a cell are the listed providers that the test admits and the run has built,
  without the primary itself, each once and in the listed order; none that qualifies is left out.\<close>

theorem resolve_chain_exact:
  assumes "\<And>i p. by_id i = Some p \<Longrightarrow> pv_id p = i"
  shows "distinct (map pv_id (resolve_chain primary_id ids by_id tc))
    \<and> set (resolve_chain primary_id ids by_id tc)
      = {p. \<exists>i \<in> set ids. by_id i = Some p \<and> i \<noteq> primary_id \<and> test_allows_provider i tc}
    \<and> map pv_id (resolve_chain primary_id ids by_id tc)
      = filter (\<lambda>i. i \<noteq> primary_id \<and> test_allows_provider i tc \<and> by_id i \<noteq> None) (first_of_each {} ids)"
proof -
  let ?keep = "\<lambda>i. i \<noteq> primary_id \<and> test_allows_provider i tc \<and> by_id i \<noteq> None"
  have ids: "map pv_id (List.map_filter (\<lambda>i. if ?keep i then by_id i else None) xs) = filter ?keep xs" for xs
    using assms by (induction xs) (auto simp: List.map_filter_simps split: option.splits)
  have elems: "set (List.map_filter (\<lambda>i. if ?keep i then by_id i else None) xs)
      = {p. \<exists>i \<in> set xs. by_id i = Some p \<and> i \<noteq> primary_id \<and> test_allows_provider i tc}" for xs
    by (induction xs) (auto simp: List.map_filter_simps split: option.splits)
  show ?thesis
    using first_of_each_sound [of "{}" ids] ids [of "first_of_each {} ids"] elems [of "first_of_each {} ids"]
    by (auto simp: resolve_chain_def)
qed

theorem resolve_chain_exact_witness:
  "map pv_id (resolve_chain ''x'' [''p'', ''q'', ''x'', ''p''] [''p'' \<mapsto> demo_provider None]
     \<lparr>ts_id = None, ts_tags = [], ts_only_providers = [], ts_skip_providers = []\<rparr>) = [''p'']"
proof -
  let ?tc = "\<lparr>ts_id = None, ts_tags = [], ts_only_providers = [], ts_skip_providers = []\<rparr>"
  have "pv_id p = i" if "[''p'' \<mapsto> demo_provider None] i = Some p" for i p
    using that by (auto simp: demo_provider_def split: if_splits)
  then have "map pv_id (resolve_chain ''x'' [''p'', ''q'', ''x'', ''p''] [''p'' \<mapsto> demo_provider None] ?tc)
      = filter (\<lambda>i. i \<noteq> ''x'' \<and> test_allows_provider i ?tc \<and> [''p'' \<mapsto> demo_provider None] i \<noteq> None)
          (first_of_each {} [''p'', ''q'', ''x'', ''p''])"
    using resolve_chain_exact [of "[''p'' \<mapsto> demo_provider None]"] by blast
  then show ?thesis by (simp add: test_allows_provider_def)
qed

end
