(* ===== verification/GraderCache.thy ===== *)
theory GraderCache
  imports CallCache
begin

text \<open>
  The grader's errors (\<open>crates/domarinn-core/src/errors.rs\<close>) and the cached exchange every graded
  assertion goes through (\<open>request_cache.rs\<close>): replay a stored payload or verdict, adopt one under an
  older key, or ask live and store the payload. What a caller parses, how it asks and how it names a strict
  miss are arguments, as in the code. A panic is the result \<open>None\<close>.
\<close>

section \<open>Model\<close>

subsection \<open>Errors\<close>

datatype GraderError =
    Unconfigured string
  | Unsupported string string
  | Transport string
  | ExecFailed string
  | CacheMiss string
  | AuthRejected nat
  | TruncatedVerdict string
  | InvalidVerdict string
  | Misconfigured string
  | Internal string

definition grader_error_text :: "GraderError \<Rightarrow> string" where
  "grader_error_text e = (case e of
       Unconfigured k \<Rightarrow> ''no grader is configured for '' @ [CHR 0x27] @ k @ [CHR 0x27] @ '' assertions in this suite''
     | Unsupported p k \<Rightarrow> ''grader provider type '' @ p @ '' does not support '' @ k
     | Transport m \<Rightarrow> ''grader transport: '' @ m
     | ExecFailed m \<Rightarrow> ''exec assert failed: '' @ m
     | CacheMiss m \<Rightarrow> m
     | AuthRejected st \<Rightarrow> ''grader credential rejected (HTTP '' @ show_nat st @ '')''
     | TruncatedVerdict s \<Rightarrow> ''verdict truncated ('' @ s @ ''); raise the grader'' @ [CHR 0x27] @ ''s max_tokens''
     | InvalidVerdict m \<Rightarrow> ''grader returned no usable verdict: '' @ m
     | Misconfigured m \<Rightarrow> ''grader misconfigured: '' @ m
     | Internal m \<Rightarrow> ''internal: '' @ m)"

definition is_retryable :: "GraderError \<Rightarrow> bool" where
  "is_retryable e = (case e of InvalidVerdict _ \<Rightarrow> True | TruncatedVerdict _ \<Rightarrow> True | _ \<Rightarrow> False)"

definition grader_class :: "GraderError \<Rightarrow> ErrorClass" where
  "grader_class e = (case e of
       Unconfigured _ \<Rightarrow> GRADER_MISSING | Unsupported _ _ \<Rightarrow> GRADER_MISSING | Misconfigured _ \<Rightarrow> GRADER_MISSING
     | AuthRejected _ \<Rightarrow> PROVIDER_AUTH
     | Transport _ \<Rightarrow> GRADER_UNAVAILABLE
     | ExecFailed _ \<Rightarrow> CHECKER_FAILED
     | CacheMiss _ \<Rightarrow> CACHE_MISS
     | TruncatedVerdict _ \<Rightarrow> GRADER_FAILED | InvalidVerdict _ \<Rightarrow> GRADER_FAILED | Internal _ \<Rightarrow> GRADER_FAILED)"

subsection \<open>Exchanges\<close>

text \<open>The migration probe of a \<open>RequestCache\<close> is the run's, in the world.\<close>

record 'c RequestCache =
  rc_backend :: "'c CacheBackend"
  rc_mode :: CacheMode
  rc_repeat :: u32

record LegacyVerdict =
  lv_fingerprint :: json
  lv_graded :: json

record Exchange =
  xg_canonical :: json
  xg_kind :: EntryKind
  xg_case_salt :: "string option"
  xg_provider_salt :: "string option"
  xg_legacy :: "LegacyVerdict option"
  xg_legacy_canonical :: "json list"

record EntryMeta =
  em_output :: Output
  em_usage :: "TokenUsage option"
  em_cost_usd :: "f64 option"
  em_model :: "string option"

record 't Parsed =
  pd_value :: 't
  pd_cached :: bool
  pd_stored_cost_usd :: "f64 option"

datatype 't Served = Verdict Graded | ParsedPayload "'t Parsed"

definition parsed_only :: "'t Served \<Rightarrow> GraderError + 't Parsed" where
  "parsed_only s = (case s of ParsedPayload p \<Rightarrow> Inr p
     | Verdict _ \<Rightarrow> Inl (Internal ''a verdict was adopted for a call type with no legacy key space''))"

definition MAX_REASKS :: u32 where "MAX_REASKS = 2"

text \<open>\<open>ask_live\<close>, from the given attempt on.\<close>

function ask_live ::
  "('w \<Rightarrow> (GraderError + json) \<times> 'w) \<Rightarrow> (json \<Rightarrow> GraderError + 't) \<Rightarrow> u32 \<Rightarrow> u32 \<Rightarrow> 'w
   \<Rightarrow> (GraderError + json \<times> 't) \<times> 'w" where
  "ask_live live parse reasks attempt w =
     (let (answer, w) = live w;
          outcome = (case answer of
              Inr payload \<Rightarrow> (case parse payload of Inr v \<Rightarrow> Inr (payload, v) | Inl e \<Rightarrow> Inl e)
            | Inl e \<Rightarrow> Inl e)
      in case outcome of
           Inr pv \<Rightarrow> (Inr pv, w)
         | Inl e \<Rightarrow> if attempt \<ge> reasks \<or> \<not> is_retryable e then (Inl e, w)
                    else ask_live live parse reasks (attempt + 1) w)"
  by pat_completeness auto
termination
  by (relation "measure (\<lambda>(_, _, reasks, attempt, _). reasks - attempt)") auto

declare ask_live.simps [simp del]

definition graded_of :: "GradedVerdict \<Rightarrow> CacheEntry \<Rightarrow> Graded" where
  "graded_of v e = \<lparr>gr_verdict = v, gr_usage = ce_usage e, gr_cost_usd = ce_cost_usd e, gr_model = ce_model e, gr_cached = True\<rparr>"

definition serve :: "(json \<Rightarrow> GraderError + 't) \<Rightarrow> CacheEntry \<Rightarrow> 't Served option" where
  "serve parse entry = (case ce_verdict entry of
       Some v \<Rightarrow> Some (Verdict (graded_of v entry))
     | None \<Rightarrow> (case ce_raw entry of
          None \<Rightarrow> None
        | Some payload \<Rightarrow> (case parse payload of
             Inr v \<Rightarrow> Some (ParsedPayload \<lparr>pd_value = v, pd_cached = True, pd_stored_cost_usd = ce_cost_usd entry\<rparr>)
           | Inl _ \<Rightarrow> None)))"

definition exchange_key :: "hashing \<Rightarrow> Exchange \<Rightarrow> u32 \<Rightarrow> json \<Rightarrow> CacheKey" where
  "exchange_key h x rep canonical = request_cache_key h canonical rep (xg_provider_salt x) (xg_case_salt x)"

definition grader_adopt_canonical ::
  "'w env \<Rightarrow> 'c RequestCache \<Rightarrow> Exchange \<Rightarrow> ('c, 'w) World \<Rightarrow> CacheEntry option \<times> ('c, 'w) World" where
  "grader_adopt_canonical env cache x wd =
     (if xg_legacy_canonical x = [] then (None, wd)
      else let (go, wd) = ask_probe wd
           in if \<not> go then (None, wd)
              else probe_keys False (rc_backend cache)
                     (map (exchange_key (nv_hashing env) x (rc_repeat cache)) (xg_legacy_canonical x)) wd)"

definition grader_adopt_legacy ::
  "'w env \<Rightarrow> 'c RequestCache \<Rightarrow> Exchange \<Rightarrow> ('c, 'w) World \<Rightarrow> CacheEntry option \<times> ('c, 'w) World" where
  "grader_adopt_legacy env cache x wd = (case xg_legacy x of
       None \<Rightarrow> (None, wd)
     | Some legacy \<Rightarrow>
         (let (go, wd) = ask_probe wd
          in if \<not> go then (None, wd)
             else let (r, wd) = cache_get (rc_backend cache)
                        (legacy_grader_verdict_key (nv_hashing env) (lv_fingerprint legacy) (lv_graded legacy) (rc_repeat cache)) wd
                  in case r of
                       Inr (Some entry) \<Rightarrow> if ce_verdict entry \<noteq> None then (Some entry, note_adoption wd) else (None, wd)
                     | _ \<Rightarrow> (None, wd)))"

definition fresh_entry :: "'w env \<Rightarrow> 'w \<Rightarrow> json \<Rightarrow> EntryKind \<Rightarrow> json \<Rightarrow> EntryMeta \<Rightarrow> CacheEntry" where
  "fresh_entry env w canonical kind payload meta =
     \<lparr>ce_created_at = nv_utc_now env w, ce_kind = Some kind, ce_provider_fingerprint = None,
      ce_request = Some (request_to_persist (nv_serde env) canonical), ce_output = em_output meta,
      ce_usage = em_usage meta, ce_cost_usd = em_cost_usd meta, ce_stop_reason = None, ce_raw = Some payload,
      ce_attempts = None, ce_provider_latency_ms = None, ce_model = em_model meta, ce_program_digest = None,
      ce_address = None, ce_verdict = None, ce_reasoning = None, ce_empty_reason = None, ce_tool_calls = [],
      ce_domarinn_version = nv_version env\<rparr>"

definition ask_world ::
  "('w \<Rightarrow> (GraderError + json) \<times> 'w) \<Rightarrow> (json \<Rightarrow> GraderError + 't) \<Rightarrow> u32 \<Rightarrow> ('c, 'w) World
   \<Rightarrow> (GraderError + json \<times> 't) \<times> ('c, 'w) World" where
  "ask_world live parse reasks wd =
     (let (r, w) = ask_live live parse reasks 0 (wd_world wd) in (r, wd\<lparr>wd_world := w\<rparr>))"

text \<open>The end of an exchange that no entry answered.\<close>

definition exchange_live ::
  "'w env \<Rightarrow> 'c RequestCache \<Rightarrow> Exchange \<Rightarrow> (json \<Rightarrow> GraderError + 't) \<Rightarrow> ('t \<Rightarrow> EntryMeta) \<Rightarrow> u32
   \<Rightarrow> ('w \<Rightarrow> (GraderError + json) \<times> 'w) \<Rightarrow> CacheKey \<Rightarrow> ('c, 'w) World \<Rightarrow> (GraderError + 't Served) \<times> ('c, 'w) World" where
  "exchange_live env cache x parse meta reasks live key wd =
     (let (r, wd) = ask_world live parse reasks wd
      in case r of
           Inl e \<Rightarrow> (Inl e, wd)
         | Inr (payload, v) \<Rightarrow>
             (Inr (ParsedPayload \<lparr>pd_value = v, pd_cached = False, pd_stored_cost_usd = None\<rparr>),
              if rc_mode cache = ReadWrite
              then cache_put (rc_backend cache) key
                     (fresh_entry env (wd_world wd) (xg_canonical x) (xg_kind x) payload (meta v)) wd
              else wd))"

definition refile_exchange ::
  "'w env \<Rightarrow> 'c RequestCache \<Rightarrow> Exchange \<Rightarrow> CacheKey \<Rightarrow> EntryKind option \<Rightarrow> CacheEntry \<Rightarrow> ('c, 'w) World \<Rightarrow> ('c, 'w) World" where
  "refile_exchange env cache x key kind entry wd =
     (if rc_mode cache = ReadWrite
      then let entry = entry\<lparr>ce_request := Some (request_to_persist (nv_serde env) (xg_canonical x))\<rparr>;
               entry = (case kind of None \<Rightarrow> entry | Some k \<Rightarrow> entry\<lparr>ce_kind := Some k\<rparr>)
           in cache_put (rc_backend cache) key entry wd
      else wd)"

definition exchange_legacy ::
  "'w env \<Rightarrow> 'c RequestCache \<Rightarrow> Exchange \<Rightarrow> (json \<Rightarrow> GraderError + 't) \<Rightarrow> ('t \<Rightarrow> EntryMeta)
   \<Rightarrow> (CacheKey \<Rightarrow> GraderError) \<Rightarrow> u32 \<Rightarrow> ('w \<Rightarrow> (GraderError + json) \<times> 'w) \<Rightarrow> CacheKey \<Rightarrow> ('c, 'w) World
   \<Rightarrow> (GraderError + 't Served) option \<times> ('c, 'w) World" where
  "exchange_legacy env cache x parse meta strict_miss reasks live key wd =
     (let (adopted, wd) = grader_adopt_legacy env cache x wd
      in case adopted of
           Some entry \<Rightarrow>
             (map_option (\<lambda>v. Inr (Verdict (graded_of v entry))) (ce_verdict entry),
              refile_exchange env cache x key (Some (xg_kind x)) entry wd)
         | None \<Rightarrow>
             if rc_mode cache = ReadOnlyStrict then (Some (Inl (strict_miss key)), wd)
             else map_prod Some id (exchange_live env cache x parse meta reasks live key wd))"

definition exchange_adopt ::
  "'w env \<Rightarrow> 'c RequestCache \<Rightarrow> Exchange \<Rightarrow> (json \<Rightarrow> GraderError + 't) \<Rightarrow> ('t \<Rightarrow> EntryMeta)
   \<Rightarrow> (CacheKey \<Rightarrow> GraderError) \<Rightarrow> u32 \<Rightarrow> ('w \<Rightarrow> (GraderError + json) \<times> 'w) \<Rightarrow> CacheKey \<Rightarrow> ('c, 'w) World
   \<Rightarrow> (GraderError + 't Served) option \<times> ('c, 'w) World" where
  "exchange_adopt env cache x parse meta strict_miss reasks live key wd =
     (let (adopted, wd) = grader_adopt_canonical env cache x wd
      in case Option.bind adopted (\<lambda>entry. map_option (Pair entry) (serve parse entry)) of
           Some (entry, served) \<Rightarrow> (Some (Inr served), refile_exchange env cache x key None entry wd)
         | None \<Rightarrow> exchange_legacy env cache x parse meta strict_miss reasks live key wd)"

definition cached_exchange ::
  "'w env \<Rightarrow> 'c RequestCache option \<Rightarrow> Exchange \<Rightarrow> (json \<Rightarrow> GraderError + 't) \<Rightarrow> ('t \<Rightarrow> EntryMeta)
   \<Rightarrow> (CacheKey \<Rightarrow> GraderError) \<Rightarrow> u32 \<Rightarrow> ('w \<Rightarrow> (GraderError + json) \<times> 'w) \<Rightarrow> ('c, 'w) World
   \<Rightarrow> (GraderError + 't Served) option \<times> ('c, 'w) World" where
  "cached_exchange env cache x parse meta strict_miss reasks live wd = (case cache of
       None \<Rightarrow>
         (let (r, wd) = ask_world live parse reasks wd
          in (Some (case r of Inl e \<Rightarrow> Inl e
                | Inr (_, v) \<Rightarrow> Inr (ParsedPayload \<lparr>pd_value = v, pd_cached = False, pd_stored_cost_usd = None\<rparr>)), wd))
     | Some cache \<Rightarrow>
         (let key = exchange_key (nv_hashing env) x (rc_repeat cache) (xg_canonical x);
              (found, wd) = cache_get (rc_backend cache) key wd
          in case (case found of Inr (Some entry) \<Rightarrow> serve parse entry | _ \<Rightarrow> None) of
               Some served \<Rightarrow> (Some (Inr served), wd)
             | None \<Rightarrow> exchange_adopt env cache x parse meta strict_miss reasks live key wd))"

section \<open>How often a grader is asked\<close>

text \<open>The same grader with a log of its answers.\<close>

definition logged :: "('w \<Rightarrow> (GraderError + json) \<times> 'w) \<Rightarrow> 'w \<times> (GraderError + json) list \<Rightarrow> (GraderError + json) \<times> 'w \<times> (GraderError + json) list" where
  "logged live wl = (let (a, w) = live (fst wl) in (a, w, snd wl @ [a]))"

definition reading :: "(json \<Rightarrow> GraderError + 't) \<Rightarrow> GraderError + json \<Rightarrow> GraderError + json \<times> 't" where
  "reading parse a = (case a of Inr payload \<Rightarrow> (case parse payload of Inr v \<Rightarrow> Inr (payload, v) | Inl e \<Rightarrow> Inl e) | Inl e \<Rightarrow> Inl e)"

definition unusable :: "(json \<Rightarrow> GraderError + 't) \<Rightarrow> GraderError + json \<Rightarrow> bool" where
  "unusable parse a = (case reading parse a of Inl e \<Rightarrow> is_retryable e | Inr _ \<Rightarrow> False)"

lemma ask_live_step:
  "ask_live live parse reasks attempt w =
     (let (a, w) = live w in
      if unusable parse a \<and> attempt < reasks then ask_live live parse reasks (attempt + 1) w else (reading parse a, w))"
  by (subst ask_live.simps) (auto simp: unusable_def reading_def Let_def case_prod_beta split: sum.splits)

lemma ask_live_log:
  "attempt \<le> reasks \<Longrightarrow> ask_live (logged live) parse reasks attempt (w, past) = (r, w', answers)
   \<Longrightarrow> \<exists>tried a. answers = past @ tried @ [a] \<and> length tried \<le> reasks - attempt
     \<and> list_all (unusable parse) tried \<and> r = reading parse a
     \<and> (unusable parse a \<longrightarrow> length tried = reasks - attempt)
     \<and> ask_live live parse reasks attempt w = (r, w')"
proof (induction "reasks - attempt" arbitrary: attempt w past)
  case 0
  then show ?case
    by (subst ask_live_step, subst (asm) ask_live_step)
      (auto simp: logged_def Let_def case_prod_beta)
next
  case (Suc n)
  obtain a w1 where live: "live w = (a, w1)" by (cases "live w")
  show ?case
  proof (cases "unusable parse a")
    case False
    then show ?thesis using Suc.prems(2) live
      by (subst ask_live_step, subst (asm) ask_live_step) (auto simp: logged_def Let_def)
  next
    case True
    have less: "attempt < reasks" and n: "n = reasks - (attempt + 1)" using Suc.hyps(2) by simp_all
    from Suc.prems(2) live True less
    have rec: "ask_live (logged live) parse reasks (attempt + 1) (w1, past @ [a]) = (r, w', answers)"
      by (subst (asm) ask_live_step) (simp add: logged_def Let_def)
    from less have le: "attempt + 1 \<le> reasks" by simp
    obtain tried b where ih: "answers = (past @ [a]) @ tried @ [b]" "length tried \<le> reasks - (attempt + 1)"
        "list_all (unusable parse) tried" "r = reading parse b"
        "unusable parse b \<longrightarrow> length tried = reasks - (attempt + 1)"
        "ask_live live parse reasks (attempt + 1) w1 = (r, w')"
      using Suc.hyps(1) [OF n le rec] by blast
    have "ask_live live parse reasks attempt w = (r, w')"
      using ih(6) live True less by (subst ask_live_step) (simp add: Let_def)
    then show ?thesis using ih less True by (intro exI [of _ "a # tried"] exI [of _ b]) auto
  qed
qed

text \<open>A grader is asked at most \<open>reasks\<close> more times, and only as long as it answers with nothing usable as a
  verdict: every answer but the last was unparsable or truncated, the last one is the result, and an
  unusable last answer means that the budget is spent. A transport failure, a rejected credential or a
  configuration error is never asked about twice.\<close>

theorem reask_bound:
  assumes "ask_live (logged live) parse reasks 0 (w, []) = (r, w', answers)"
  shows "answers \<noteq> [] \<and> length answers \<le> reasks + 1 \<and> list_all (unusable parse) (butlast answers)
    \<and> r = reading parse (last answers)
    \<and> (unusable parse (last answers) \<longrightarrow> length answers = reasks + 1)
    \<and> ask_live live parse reasks 0 w = (r, w')"
  using ask_live_log [OF _ assms] by auto

theorem reask_bound_witness:
  "\<exists>r w answers. ask_live (logged (\<lambda>n. (Inr JNull, n + 1))) (\<lambda>_. Inl (InvalidVerdict []) :: GraderError + nat) 2 0 (0 :: nat, []) = (r, w, answers)
     \<and> length answers \<le> 3 \<and> answers \<noteq> []"
proof -
  obtain r w answers where a: "ask_live (logged (\<lambda>n. (Inr JNull, n + 1))) (\<lambda>_. Inl (InvalidVerdict []) :: GraderError + nat) 2 0 (0 :: nat, [])
      = (r, w, answers)" by (rule prod_cases3)
  then show ?thesis using reask_bound [OF a] by auto
qed

section \<open>What an exchange reads\<close>

definition exchange_keys :: "'w env \<Rightarrow> 'c RequestCache \<Rightarrow> Exchange \<Rightarrow> CacheKey set" where
  "exchange_keys env cache x =
     exchange_key (nv_hashing env) x (rc_repeat cache) ` ({xg_canonical x} \<union> set (xg_legacy_canonical x))
   \<union> (case xg_legacy x of None \<Rightarrow> {}
      | Some l \<Rightarrow> {legacy_grader_verdict_key (nv_hashing env) (lv_fingerprint l) (lv_graded l) (rc_repeat cache)})"

lemma exchange_keys_valid: "digest_32 env \<Longrightarrow> k \<in> exchange_keys env cache x \<Longrightarrow> valid_key k"
  using computed_key_valid
  by (auto simp: exchange_keys_def exchange_key_def request_cache_key_parts legacy_grader_verdict_key_def split: option.splits)

definition served_cached :: "'t Served \<Rightarrow> bool" where
  "served_cached s = (case s of Verdict g \<Rightarrow> gr_cached g | ParsedPayload p \<Rightarrow> pd_cached p)"

lemma serve_cached: "serve parse e = Some s \<Longrightarrow> served_cached s"
  by (auto simp: serve_def served_cached_def graded_of_def split: option.splits sum.splits)

text \<open>What an exchange answers when the grader was asked.\<close>

definition fresh_reply :: "GraderError + json \<times> 't \<Rightarrow> GraderError + 't Served" where
  "fresh_reply a = (case a of Inl e \<Rightarrow> Inl e
     | Inr (_, v) \<Rightarrow> Inr (ParsedPayload \<lparr>pd_value = v, pd_cached = False, pd_stored_cost_usd = None\<rparr>))"

lemma refile_exchange_parts [simp]:
  "wd_world (refile_exchange env cache x key kind e wd) = wd_world wd"
  "wd_limiter (refile_exchange env cache x key kind e wd) = wd_limiter wd"
  by (simp_all add: refile_exchange_def cache_put_def Let_def)

context cache_backend
begin

lemma reads_forget: "reads ks (Some e) wd wd' \<Longrightarrow> reads ks None wd wd'"
  by (simp add: reads_def)

lemma reads_grader_canonical:
  assumes "digest_32 env" and "rc_backend cache = be" and "grader_adopt_canonical env cache x wd = (found, wd')"
  shows "reads (exchange_keys env cache x) found wd wd'"
proof -
  let ?ks = "map (exchange_key (nv_hashing env) x (rc_repeat cache)) (xg_legacy_canonical x)"
  have sub: "set ?ks \<subseteq> exchange_keys env cache x" by (auto simp: exchange_keys_def)
  then have "list_all valid_key ?ks" using exchange_keys_valid [OF assms(1)] by (auto simp: list_all_iff)
  note probe = reads_probe [OF this, where wd = "snd (ask_probe wd)", unfolded reads_ask, THEN reads_mono, OF _ sub]
  have none: "reads ks None wd (snd (ask_probe wd))" for ks by (simp add: reads_def)
  show ?thesis using assms(2,3) probe none
    by (auto simp: grader_adopt_canonical_def Let_def case_prod_beta reads_none split: if_splits)
qed

lemma reads_grader_legacy:
  assumes "digest_32 env" and "rc_backend cache = be" and "grader_adopt_legacy env cache x wd = (found, wd')"
  shows "reads (exchange_keys env cache x) found wd wd'" and "\<And>e. found = Some e \<Longrightarrow> ce_verdict e \<noteq> None"
proof -
  have none: "reads ks None wd (snd (ask_probe wd))" for ks by (simp add: reads_def)
  show "reads (exchange_keys env cache x) found wd wd'"
  proof (cases "xg_legacy x")
    case (Some l)
    let ?k = "legacy_grader_verdict_key (nv_hashing env) (lv_fingerprint l) (lv_graded l) (rc_repeat cache)"
    have sub: "{?k} \<subseteq> exchange_keys env cache x" by (simp add: exchange_keys_def Some)
    then have k: "valid_key ?k" using exchange_keys_valid [OF assms(1)] by blast
    obtain r wd1 where get: "cache_get be ?k (snd (ask_probe wd)) = (r, wd1)" by (cases "cache_get be ?k (snd (ask_probe wd))")
    have some: "reads (exchange_keys env cache x) opt wd wd1" if "r = Inr opt" for opt
      using reads_get [OF k, of "snd (ask_probe wd)" opt wd1] get that reads_mono [OF _ sub] by (simp add: reads_ask)
    then have hit: "reads (exchange_keys env cache x) None wd wd1" if "r = Inr opt" for opt
      using that by (cases opt) (auto dest: reads_forget)
    have "reads (exchange_keys env cache x) None wd wd1" if "r = Inl e" for e
      using reads_get_error [OF k, of "snd (ask_probe wd)" e wd1] get that by (auto simp: reads_ask intro: reads_mono)
    then show ?thesis using assms(2,3) none get Some some hit
      by (auto simp: grader_adopt_legacy_def Let_def case_prod_beta reads_none split: if_splits sum.splits option.splits
          intro!: reads_note)
  qed (use assms(3) in \<open>simp add: grader_adopt_legacy_def reads_none\<close>)
  show "\<And>e. found = Some e \<Longrightarrow> ce_verdict e \<noteq> None" using assms(3)
    by (auto simp: grader_adopt_legacy_def Let_def case_prod_beta split: if_splits sum.splits option.splits)
qed

text \<open>The three ways an exchange over a cache ends.\<close>

lemma exchange_cases:
  assumes x: "cached_exchange env (Some cache) x parse meta strict_miss reasks live wd = (r, wd')"
    and env: "digest_32 env" and be: "rc_backend cache = be"
  obtains
    (served) e s wd1 kind where "reads (exchange_keys env cache x) (Some e) wd wd1" "serve parse e = Some s" "r = Some (Inr s)"
      "wd' = wd1 \<or> wd' = refile_exchange env cache x (exchange_key (nv_hashing env) x (rc_repeat cache) (xg_canonical x)) kind e wd1"
  | (miss) "reads (exchange_keys env cache x) None wd wd'" "rc_mode cache = ReadOnlyStrict"
      "r = Some (Inl (strict_miss (exchange_key (nv_hashing env) x (rc_repeat cache) (xg_canonical x))))"
  | (live) wd1 where "reads (exchange_keys env cache x) None wd wd1" "rc_mode cache \<noteq> ReadOnlyStrict"
      "map_prod Some id (exchange_live env cache x parse meta reasks live
         (exchange_key (nv_hashing env) x (rc_repeat cache) (xg_canonical x)) wd1) = (r, wd')"
proof -
  let ?ks = "exchange_keys env cache x"
  let ?key = "exchange_key (nv_hashing env) x (rc_repeat cache) (xg_canonical x)"
  have valid: "\<And>k. k \<in> ?ks \<Longrightarrow> valid_key k" using exchange_keys_valid [OF env] .
  have key: "?key \<in> ?ks" by (simp add: exchange_keys_def)
  obtain found wd1 where get: "cache_get be ?key wd = (found, wd1)" by fastforce
  have r1: "reads ?ks opt wd wd1" if "found = Inr opt" for opt
    using reads_get [OF valid [OF key]] get that key by (auto intro: reads_mono)
  have r1n: "reads ?ks None wd wd1"
  proof (cases found)
    case (Inl e)
    then show ?thesis using reads_get_error [OF valid [OF key]] get by (auto intro: reads_mono)
  next
    case (Inr opt)
    then show ?thesis using r1 by (cases opt) (auto dest: reads_forget)
  qed
  obtain a2 wd2 where 2: "grader_adopt_canonical env cache x wd1 = (a2, wd2)" by fastforce
  have r2: "reads ?ks a2 wd wd2"
    using reads_trans [OF r1n reads_grader_canonical [OF env be 2] valid] by simp
  then have r2n: "reads ?ks None wd wd2" by (cases a2) (auto dest: reads_forget)
  obtain a3 wd3 where 3: "grader_adopt_legacy env cache x wd2 = (a3, wd3)" by fastforce
  have r3: "reads ?ks a3 wd wd3"
    using reads_trans [OF r2n reads_grader_legacy(1) [OF env be 3] valid] by simp
  show thesis
  proof (cases "case found of Inr (Some entry) \<Rightarrow> serve parse entry | _ \<Rightarrow> None")
    case (Some s)
    then obtain e where e: "found = Inr (Some e)" "serve parse e = Some s" by (auto split: sum.splits option.splits)
    show thesis by (rule served [OF r1 [OF e(1)] e(2)])
      (use x be get e in \<open>auto simp: cached_exchange_def Let_def\<close>)
  next
    case None
    note adopt = x [unfolded cached_exchange_def, simplified, unfolded be get Let_def, simplified, unfolded None, simplified]
    show thesis
    proof (cases "Option.bind a2 (\<lambda>entry. map_option (Pair entry) (serve parse entry))")
      case (Some es)
      then obtain e s where e: "a2 = Some e" "serve parse e = Some s" by (auto simp: bind_eq_Some_conv)
      show thesis by (rule served [OF _ e(2), of wd2 None])
        (use adopt 2 e r2 in \<open>auto simp: exchange_adopt_def Let_def\<close>)
    next
      case None
      note legacy = adopt [unfolded exchange_adopt_def 2 Let_def, simplified, unfolded None, simplified,
          unfolded exchange_legacy_def 3 Let_def, simplified]
      show thesis
      proof (cases a3)
        case (Some e)
        then obtain v where v: "ce_verdict e = Some v" using reads_grader_legacy(2) [OF env be 3] by auto
        show thesis
          by (rule served [of e wd3 "Verdict (graded_of v e)" "Some (xg_kind x)"])
            (use r3 Some v legacy in \<open>auto simp: serve_def\<close>)
      next
        case None
        then show thesis using legacy r3 miss live [of wd3] by (cases "rc_mode cache = ReadOnlyStrict") auto
      qed
    qed
  qed
qed


lemma exchange_outcome:
  assumes "digest_32 env" and "rc_backend cache = be"
    and "cached_exchange env (Some cache) x parse meta strict_miss reasks live wd = (r, wd')"
  shows "(\<exists>s k e. r = Some (Inr s) \<and> served_cached s \<and> k \<in> exchange_keys env cache x \<and> e \<in> stored (wd_cache wd) k
        \<and> serve parse e = Some s \<and> wd_world wd' = wd_world wd)
    \<or> rc_mode cache = ReadOnlyStrict \<and> wd_world wd' = wd_world wd
        \<and> r = Some (Inl (strict_miss (exchange_key (nv_hashing env) x (rc_repeat cache) (xg_canonical x))))
    \<or> rc_mode cache \<noteq> ReadOnlyStrict
        \<and> (r, wd_world wd') = map_prod (Some \<circ> fresh_reply) id (ask_live live parse reasks 0 (wd_world wd))"
    and "rc_mode cache \<noteq> ReadWrite \<Longrightarrow> valid_key k \<Longrightarrow> stored (wd_cache wd') k \<subseteq> stored (wd_cache wd) k"
proof -
  have asked: "(r, wd_world wd') = map_prod (Some \<circ> fresh_reply) id (ask_live live parse reasks 0 (wd_world wd1))
      \<and> (rc_mode cache \<noteq> ReadWrite \<longrightarrow> wd_cache wd' = wd_cache wd1)"
    if "map_prod Some id (exchange_live env cache x parse meta reasks live key wd1) = (r, wd')" for key wd1
    using that by (auto simp: exchange_live_def ask_world_def fresh_reply_def cache_put_def Let_def case_prod_beta
        map_prod_def split: sum.splits if_splits)
  show "(\<exists>s k e. r = Some (Inr s) \<and> served_cached s \<and> k \<in> exchange_keys env cache x \<and> e \<in> stored (wd_cache wd) k
        \<and> serve parse e = Some s \<and> wd_world wd' = wd_world wd)
    \<or> rc_mode cache = ReadOnlyStrict \<and> wd_world wd' = wd_world wd
        \<and> r = Some (Inl (strict_miss (exchange_key (nv_hashing env) x (rc_repeat cache) (xg_canonical x))))
    \<or> rc_mode cache \<noteq> ReadOnlyStrict
        \<and> (r, wd_world wd') = map_prod (Some \<circ> fresh_reply) id (ask_live live parse reasks 0 (wd_world wd))"
    using assms(3,1,2)
  proof (cases rule: exchange_cases)
    case (served e s wd1 kind)
    then show ?thesis using serve_cached [OF served(2)] unfolding reads_def by auto
  next
    case miss
    then show ?thesis by (simp add: reads_def)
  next
    case (live wd1)
    then show ?thesis using asked [OF live(3)] by (simp add: reads_def)
  qed
  show "rc_mode cache \<noteq> ReadWrite \<Longrightarrow> valid_key k \<Longrightarrow> stored (wd_cache wd') k \<subseteq> stored (wd_cache wd) k"
    using assms(3,1,2)
  proof (cases rule: exchange_cases)
    case (live wd1)
    assume "rc_mode cache \<noteq> ReadWrite" "valid_key k"
    then show ?thesis using asked [OF live(3)] live(1) by (simp add: reads_def)
  qed (auto simp: reads_def refile_exchange_def)
qed

end

text \<open>C11: An exchange over a cache never panics and ends in one of three ways. Either it replays, without
  touching the grader, an entry that was stored under one of the keys of this very exchange; or, in strict
  mode, it is a miss, again without touching the grader; or it is what asking the grader gives. Outside
  read-write mode nothing is added to the store. This holds for every backend that keeps its contract.\<close>

theorem exchange_contract:
  assumes "cache_backend (rc_backend cache) stored" and "digest_32 env"
    and "cached_exchange env (Some cache) x parse meta strict_miss reasks live wd = (r, wd')"
  shows "((\<exists>s k e. r = Some (Inr s) \<and> served_cached s \<and> k \<in> exchange_keys env cache x \<and> e \<in> stored (wd_cache wd) k
        \<and> serve parse e = Some s \<and> wd_world wd' = wd_world wd)
    \<or> rc_mode cache = ReadOnlyStrict \<and> wd_world wd' = wd_world wd
        \<and> r = Some (Inl (strict_miss (exchange_key (nv_hashing env) x (rc_repeat cache) (xg_canonical x))))
    \<or> rc_mode cache \<noteq> ReadOnlyStrict
        \<and> (r, wd_world wd') = map_prod (Some \<circ> fresh_reply) id (ask_live live parse reasks 0 (wd_world wd)))
    \<and> (rc_mode cache \<noteq> ReadWrite \<longrightarrow> (\<forall>k. valid_key k \<longrightarrow> stored (wd_cache wd') k \<subseteq> stored (wd_cache wd) k))"
  using cache_backend.exchange_outcome [OF assms(1,2) refl assms(3)] by blast

section \<open>Replay from the local disk\<close>

lemma grader_adopt_quiet:
  assumes "quiet (wd_cache wd)" and "rc_backend cache = LocalDiskCache sz"
  shows "wd_cache (snd (grader_adopt_canonical env cache x wd)) = wd_cache wd"
    and "wd_cache (snd (grader_adopt_legacy env cache x wd)) = wd_cache wd"
  using assms probe_keys_quiet [of "snd (ask_probe wd)"]
  by (simp_all add: grader_adopt_canonical_def grader_adopt_legacy_def Let_def case_prod_beta cache_get_def LocalDiskCache_def
      disk_get_quiet split: option.splits sum.splits)

lemma exchange_asked:
  assumes "rc_backend cache = LocalDiskCache sz" and "quiet (wd_cache wd)"
    and "key = exchange_key (nv_hashing env) x (rc_repeat cache) (xg_canonical x)"
    and "cached_exchange env (Some cache) x parse meta strict_miss reasks live wd = (Some (Inr s), wd')" and "\<not> served_cached s"
  obtains wd1 where "wd_cache wd1 = wd_cache wd" "exchange_live env cache x parse meta reasks live key wd1 = (Inr s, wd')"
proof -
  have get: "cache_get (LocalDiskCache sz) key wd = (fst (disk_get key (wd_cache wd)), wd)"
    using assms(2) by (simp add: cache_get_def LocalDiskCache_def disk_get_quiet)
  obtain a2 wd2 where 2: "grader_adopt_canonical env cache x wd = (a2, wd2)" by fastforce
  obtain a3 wd3 where 3: "grader_adopt_legacy env cache x wd2 = (a3, wd3)" by fastforce
  have "wd_cache wd2 = wd_cache wd" using grader_adopt_quiet(1) [OF assms(2,1), of env x] 2 by simp
  then have same: "wd_cache wd3 = wd_cache wd"
    using grader_adopt_quiet(2) [of wd2 cache sz env x] assms(1,2) 3 by simp
  have nserve: "\<And>e. serve parse e \<noteq> Some s" "\<And>v e. s \<noteq> Verdict (graded_of v e)"
    using assms(5) serve_cached by (auto simp: served_cached_def graded_of_def)
  have "exchange_live env cache x parse meta reasks live key wd3 = (Inr s, wd')"
    using assms(4) nserve
    by (cases "exchange_live env cache x parse meta reasks live key wd3")
      (auto simp: cached_exchange_def exchange_adopt_def exchange_legacy_def Let_def get 2 3 assms(1) assms(3) [symmetric]
        bind_eq_Some_conv split: sum.splits option.splits if_splits)
  then show thesis using same by (rule that [rotated])
qed

lemma ask_live_parses: "ask_live live parse reasks attempt w = (Inr (payload, v), w') \<Longrightarrow> parse payload = Inr v"
proof (induction live parse reasks attempt w rule: ask_live.induct)
  case (1 live parse reasks attempt w)
  obtain a w1 where live: "live w = (a, w1)" by (cases "live w")
  from 1 live show ?case
    by (subst (asm) (2) ask_live.simps) (auto split: sum.splits if_splits)
qed

text \<open>What a grader answered is replayed. When an exchange over a working local disk, with no entry yet under its
  key, was answered live in read-write mode, the same exchange later finds the same value in the cache, with
  the price recorded then, and asks nobody.\<close>

theorem exchange_replays:
  assumes "rc_backend cache = LocalDiskCache sz" and "rc_mode cache = ReadWrite" and "quiet (wd_cache wd)"
    and "key = exchange_key (nv_hashing env) x (rc_repeat cache) (xg_canonical x)"
    and "fst (disk_get key (wd_cache wd)) = Inr None"
    and "cached_exchange env (Some cache) x parse meta strict_miss reasks live wd = (Some (Inr s), wd')" and "\<not> served_cached s"
    and "wd_cache later = wd_cache wd'"
  shows "\<exists>v. s = ParsedPayload \<lparr>pd_value = v, pd_cached = False, pd_stored_cost_usd = None\<rparr>
    \<and> cached_exchange env (Some cache) x parse meta strict_miss reasks live later
      = (Some (Inr (ParsedPayload \<lparr>pd_value = v, pd_cached = True, pd_stored_cost_usd = em_cost_usd (meta v)\<rparr>)), later)"
proof -
  obtain wd1 where wd1: "wd_cache wd1 = wd_cache wd" "exchange_live env cache x parse meta reasks live key wd1 = (Inr s, wd')"
    using exchange_asked [OF assms(1,3,4,6,7)] by blast
  obtain w payload v where ask: "ask_live live parse reasks 0 (wd_world wd1) = (Inr (payload, v), w)"
    and s: "s = ParsedPayload \<lparr>pd_value = v, pd_cached = False, pd_stored_cost_usd = None\<rparr>"
    and put: "wd_cache wd' = snd (disk_put sz key (fresh_entry env w (xg_canonical x) (xg_kind x) payload (meta v)) (wd_cache wd))"
    using wd1 assms(1,2)
    by (auto simp: exchange_live_def ask_world_def cache_put_def LocalDiskCache_def Let_def case_prod_beta prod_eq_iff split: sum.splits)
  have "parse payload = Inr v" by (rule ask_live_parses [OF ask])
  moreover have "read_file (path_for key) (wd_cache wd) = None"
    using assms(3,5) by (auto simp: disk_get_quiet split: option.splits Body.splits)
  then have "disk_get key (wd_cache later) = (Inr (Some (fresh_entry env w (xg_canonical x) (xg_kind x) payload (meta v))), wd_cache later)"
    using put put_get_quiet [OF assms(3)] assms(8) by (metis prod.collapse)
  ultimately show ?thesis
    using assms(1,4) s by (simp add: cached_exchange_def cache_get_def LocalDiskCache_def serve_def fresh_entry_def)
qed

definition demo_exchange :: Exchange where
  "demo_exchange = \<lparr>xg_canonical = JNull, xg_kind = JUDGE, xg_case_salt = None, xg_provider_salt = None, xg_legacy = None,
     xg_legacy_canonical = []\<rparr>"

definition demo_request_cache :: "CacheMode \<Rightarrow> Disk RequestCache" where
  "demo_request_cache mode = \<lparr>rc_backend = LocalDiskCache (\<lambda>_. 1), rc_mode = mode, rc_repeat = 0\<rparr>"

definition demo_meta :: "json \<Rightarrow> EntryMeta" where
  "demo_meta _ = \<lparr>em_output = Text [], em_usage = None, em_cost_usd = None, em_model = None\<rparr>"

definition demo_ask :: "nat \<Rightarrow> (GraderError + json) \<times> nat" where
  "demo_ask n = (Inr (JBool True), n + 1)"

abbreviation demo_run :: "CacheMode \<Rightarrow> (Disk, nat) World \<Rightarrow> (GraderError + json Served) option \<times> (Disk, nat) World" where
  "demo_run mode \<equiv> cached_exchange demo_env (Some (demo_request_cache mode)) demo_exchange Inr demo_meta
     (\<lambda>k. CacheMiss (show_key k)) MAX_REASKS demo_ask"

lemma demo_exchange_asks:
  assumes "mode \<noteq> ReadOnlyStrict"
  shows "\<exists>wd. demo_run mode demo_world
    = (Some (Inr (ParsedPayload \<lparr>pd_value = JBool True, pd_cached = False, pd_stored_cost_usd = None\<rparr>)), wd)"
  using assms
  by (simp add: cached_exchange_def exchange_adopt_def exchange_legacy_def exchange_live_def ask_world_def ask_live.simps
      grader_adopt_canonical_def grader_adopt_legacy_def demo_exchange_def demo_request_cache_def demo_ask_def
      cache_get_def LocalDiskCache_def disk_get_quiet demo_disk demo_world_def)

theorem exchange_replays_witness:
  "\<exists>s wd. demo_run ReadWrite demo_world = (Some (Inr s), wd) \<and> \<not> served_cached s
    \<and> (\<exists>s2. demo_run ReadWrite wd = (Some (Inr s2), wd) \<and> served_cached s2)"
proof -
  obtain wd where first: "demo_run ReadWrite demo_world
      = (Some (Inr (ParsedPayload \<lparr>pd_value = JBool True, pd_cached = False, pd_stored_cost_usd = None\<rparr>)), wd)"
    using demo_exchange_asks [of ReadWrite] by auto
  have disk: "rc_backend (demo_request_cache ReadWrite) = LocalDiskCache (\<lambda>_. 1)" "rc_mode (demo_request_cache ReadWrite) = ReadWrite"
    "quiet (wd_cache demo_world)" "fst (disk_get k (wd_cache demo_world)) = Inr None" for k
    by (simp_all add: demo_request_cache_def demo_world_def demo_disk disk_get_quiet)
  have fresh: "\<not> served_cached (ParsedPayload \<lparr>pd_value = JBool True, pd_cached = False, pd_stored_cost_usd = None\<rparr>)"
    by (simp add: served_cached_def)
  show ?thesis
    using exchange_replays [OF disk(1-3) refl disk(4) first fresh refl] first fresh by (auto simp: served_cached_def)
qed

theorem exchange_contract_witness:
  "\<exists>k wd. demo_run ReadOnlyStrict demo_world = (Some (Inl (CacheMiss k)), wd) \<and> wd_world wd = 0"
proof -
  obtain r wd where run: "demo_run ReadOnlyStrict demo_world = (r, wd)" by fastforce
  have be: "cache_backend (rc_backend (demo_request_cache ReadOnlyStrict)) disk_stored"
    using disk.cache_backend_axioms by (simp add: demo_request_cache_def)
  have "disk_stored (wd_cache demo_world) k = {}" for k
    by (simp add: disk_stored_def demo_world_def demo_disk)
  then show ?thesis using exchange_contract [OF be demo_digest run] run
    by (auto simp: demo_request_cache_def demo_world_def)
qed

end
