(* ===== verification/Scoring.thy ===== *)
theory Scoring
  imports Prelude
begin

text \<open>
  Case scoring (\<open>crates/domarinn-core/src/scoring.rs\<close>): the weighted mean, the case verdict and
  the test that lets the runner skip graded assertions whose results can no longer matter.
\<close>

section \<open>Model\<close>

record Scored =
  sc_weight :: f64
  sc_score :: f64
  sc_passed :: bool

record CaseVerdict =
  verdict_passed :: bool
  verdict_score :: f64

definition weighted_mean :: "Scored list \<Rightarrow> f64" where
  "weighted_mean scored =
     (let total_weight = sum_list (map sc_weight scored)
      in if total_weight \<le> 0 then 1
         else (let s = sum_list (map (\<lambda>x. sc_score x * sc_weight x) scored) in s / total_weight))"

definition case_verdict :: "Scored list \<Rightarrow> f64 option \<Rightarrow> CaseVerdict" where
  "case_verdict scored threshold =
     (let s = weighted_mean scored;
          p = (case threshold of Some t \<Rightarrow> s \<ge> t | None \<Rightarrow> list_all sc_passed scored)
      in \<lparr>verdict_passed = p, verdict_score = s\<rparr>)"

definition remaining_can_change_outcome :: "Scored list \<Rightarrow> f64 \<Rightarrow> f64 option \<Rightarrow> bool" where
  "remaining_can_change_outcome scored_so_far remaining_weight threshold =
     (if remaining_weight \<le> 0 then False
      else case threshold of
        None \<Rightarrow> list_all sc_passed scored_so_far
      | Some t \<Rightarrow>
          (let done_weight = sum_list (map sc_weight scored_so_far);
               done_sum = sum_list (map (\<lambda>x. sc_score x * sc_weight x) scored_so_far);
               total_weight = done_weight + remaining_weight;
               best = (done_sum + remaining_weight) / total_weight;
               worst = done_sum / total_weight
           in best \<ge> t \<and> worst < t))"

section \<open>Valid outcomes\<close>

text \<open>An outcome the scorer is meant to see: a weight that is not negative, a score in [0, 1].\<close>

definition valid_scored :: "Scored \<Rightarrow> bool" where
  "valid_scored s \<longleftrightarrow> 0 \<le> sc_weight s \<and> 0 \<le> sc_score s \<and> sc_score s \<le> 1"

abbreviation total_of :: "Scored list \<Rightarrow> f64" where
  "total_of xs \<equiv> sum_list (map sc_weight xs)"

abbreviation points_of :: "Scored list \<Rightarrow> f64" where
  "points_of xs \<equiv> sum_list (map (\<lambda>x. sc_score x * sc_weight x) xs)"

lemma total_nonneg: "list_all valid_scored xs \<Longrightarrow> 0 \<le> total_of xs"
  by (rule sum_list_map_nonneg) (auto simp: list_all_iff valid_scored_def)

lemma points_nonneg: "list_all valid_scored xs \<Longrightarrow> 0 \<le> points_of xs"
  by (rule sum_list_map_nonneg) (auto simp: list_all_iff valid_scored_def)

lemma points_le_total: "list_all valid_scored xs \<Longrightarrow> points_of xs \<le> total_of xs"
  by (rule sum_list_map_mono) (auto simp: list_all_iff valid_scored_def mult_left_le_one_le)

lemma weighted_mean_pos:
  "0 < total_of xs \<Longrightarrow> weighted_mean xs = points_of xs / total_of xs"
  by (simp add: weighted_mean_def)

lemma weighted_mean_in_unit_interval:
  assumes "list_all valid_scored xs"
  shows "0 \<le> weighted_mean xs \<and> weighted_mean xs \<le> 1"
  using points_nonneg [OF assms] points_le_total [OF assms]
  by (auto simp: weighted_mean_def Let_def divide_le_eq)

lemma weighted_mean_append:
  assumes "list_all valid_scored xs" "0 < total_of ys"
  shows "weighted_mean (xs @ ys) = (points_of xs + points_of ys) / (total_of xs + total_of ys)"
  using total_nonneg [OF assms(1)] assms(2) by (simp add: weighted_mean_def)


lemma case_verdict_fields [simp]:
  "verdict_score (case_verdict xs t) = weighted_mean xs"
  "verdict_passed (case_verdict xs None) = list_all sc_passed xs"
  "verdict_passed (case_verdict xs (Some r)) = (r \<le> weighted_mean xs)"
  by (simp_all add: case_verdict_def Let_def)

text \<open>A single assertion that carries the whole remaining weight, with a chosen score and flag.\<close>

definition lone :: "f64 \<Rightarrow> f64 \<Rightarrow> bool \<Rightarrow> Scored" where
  "lone w sc p = \<lparr>sc_weight = w, sc_score = sc, sc_passed = p\<rparr>"

lemma lone_simps [simp]:
  "sc_weight (lone w sc p) = w" "sc_score (lone w sc p) = sc" "sc_passed (lone w sc p) = p"
  by (simp_all add: lone_def)

text \<open>Every way of finishing the case scores between the worst and the best completion.\<close>

lemma completion_between:
  assumes "list_all valid_scored xs" "list_all valid_scored ys" "total_of ys = rw" "0 < rw"
  shows "points_of xs / (total_of xs + rw) \<le> weighted_mean (xs @ ys)"
    and "weighted_mean (xs @ ys) \<le> (points_of xs + rw) / (total_of xs + rw)"
proof -
  have mean: "weighted_mean (xs @ ys) = (points_of xs + points_of ys) / (total_of xs + rw)"
    using weighted_mean_append [OF assms(1)] assms(3,4) by simp
  have "0 < total_of xs + rw" using total_nonneg [OF assms(1)] assms(4) by simp
  then show "points_of xs / (total_of xs + rw) \<le> weighted_mean (xs @ ys)"
    and "weighted_mean (xs @ ys) \<le> (points_of xs + rw) / (total_of xs + rw)"
    using points_nonneg [OF assms(2)] points_le_total [OF assms(2)] assms(3)
    by (simp_all add: mean divide_right_mono)
qed

section \<open>The short-circuit test is exact\<close>

text \<open>C38: For graded assertions that carry a positive weight, \<open>remaining_can_change_outcome\<close> answers
  true exactly when two admissible ways of finishing the case (outcomes with non-negative weights
  summing to the remaining weight and scores in [0, 1]) give different verdicts. So the runner
  skips the grader exactly when its answers cannot matter, with or without a threshold.\<close>

theorem remaining_can_change_outcome_exact:
  assumes "list_all valid_scored so_far" "0 < rw"
  shows "remaining_can_change_outcome so_far rw th \<longleftrightarrow>
    (\<exists>r1 r2. list_all valid_scored r1 \<and> list_all valid_scored r2
       \<and> total_of r1 = rw \<and> total_of r2 = rw
       \<and> verdict_passed (case_verdict (so_far @ r1) th)
       \<and> \<not> verdict_passed (case_verdict (so_far @ r2) th))"
proof (cases th)
  case None
  have "list_all valid_scored [lone rw 1 True]" "list_all valid_scored [lone rw 0 False]"
    using assms(2) by (simp_all add: valid_scored_def)
  then show ?thesis using None assms(2)
    by (force simp: remaining_can_change_outcome_def intro: exI [of _ "[lone rw 1 True]"]
        exI [of _ "[lone rw 0 False]"])
next
  case (Some t)
  have pos: "0 < total_of so_far + rw" using total_nonneg [OF assms(1)] assms(2) by simp
  have best: "weighted_mean (so_far @ [lone rw 1 True]) = (points_of so_far + rw) / (total_of so_far + rw)"
    and worst: "weighted_mean (so_far @ [lone rw 0 False]) = points_of so_far / (total_of so_far + rw)"
    using weighted_mean_append [OF assms(1)] assms(2) by simp_all
  have rcc: "remaining_can_change_outcome so_far rw th \<longleftrightarrow>
      t \<le> (points_of so_far + rw) / (total_of so_far + rw) \<and> points_of so_far / (total_of so_far + rw) < t"
    using Some assms(2) by (simp add: remaining_can_change_outcome_def Let_def)
  show ?thesis
  proof
    assume "remaining_can_change_outcome so_far rw th"
    then show "\<exists>r1 r2. list_all valid_scored r1 \<and> list_all valid_scored r2
       \<and> total_of r1 = rw \<and> total_of r2 = rw
       \<and> verdict_passed (case_verdict (so_far @ r1) th)
       \<and> \<not> verdict_passed (case_verdict (so_far @ r2) th)"
      using Some rcc best worst assms(2)
      by (intro exI [of _ "[lone rw 1 True]"] exI [of _ "[lone rw 0 False]"])
        (simp add: valid_scored_def)
  next
    assume "\<exists>r1 r2. list_all valid_scored r1 \<and> list_all valid_scored r2
       \<and> total_of r1 = rw \<and> total_of r2 = rw
       \<and> verdict_passed (case_verdict (so_far @ r1) th)
       \<and> \<not> verdict_passed (case_verdict (so_far @ r2) th)"
    then obtain r1 r2 where r: "list_all valid_scored r1" "list_all valid_scored r2"
        "total_of r1 = rw" "total_of r2 = rw"
        "t \<le> weighted_mean (so_far @ r1)" "weighted_mean (so_far @ r2) < t"
      using Some by auto
    then show "remaining_can_change_outcome so_far rw th"
      using completion_between(2) [OF assms(1) r(1,3) assms(2)]
        completion_between(1) [OF assms(1) r(2,4) assms(2)] rcc by linarith
  qed
qed

theorem remaining_can_change_outcome_exact_witness:
  "remaining_can_change_outcome [lone 1 0 False] 3 (Some (3/4)) \<and>
    (\<exists>r1 r2. list_all valid_scored r1 \<and> list_all valid_scored r2
       \<and> total_of r1 = 3 \<and> total_of r2 = 3
       \<and> verdict_passed (case_verdict ([lone 1 0 False] @ r1) (Some (3/4)))
       \<and> \<not> verdict_passed (case_verdict ([lone 1 0 False] @ r2) (Some (3/4))))"
proof -
  have v: "list_all valid_scored [lone 1 0 False]" "(0::real) < 3"
    by (simp_all add: valid_scored_def)
  have "remaining_can_change_outcome [lone 1 0 False] 3 (Some (3/4))"
    by (simp add: remaining_can_change_outcome_def Let_def)
  with remaining_can_change_outcome_exact [OF v, of "Some (3/4)"] show ?thesis by blast
qed

text \<open>Skipping is safe. When the test says the remaining assertions cannot change the outcome, the
  verdict the runner computes from the assertions it did score is the verdict it would have
  reached had it run the rest, for any threshold in [0, 1] and for any scores of the rest.\<close>

lemma skipped_same_verdict:
  assumes "list_all valid_scored so_far" "list_all valid_scored rest" "0 < total_of rest"
    and "\<And>t. th = Some t \<Longrightarrow> 0 \<le> t \<and> t \<le> 1"
    and "\<not> remaining_can_change_outcome so_far (total_of rest) th"
  shows "verdict_passed (case_verdict so_far th) = verdict_passed (case_verdict (so_far @ rest) th)"
proof (cases th)
  case None
  with assms(3,5) show ?thesis by (auto simp: remaining_can_change_outcome_def)
next
  case (Some t)
  let ?D = "total_of so_far" and ?P = "points_of so_far" and ?R = "total_of rest"
  have t: "0 \<le> t" "t \<le> 1" using assms(4) Some by simp_all
  have pos: "0 < ?D + ?R" "0 \<le> ?D" using total_nonneg [OF assms(1)] assms(3) by simp_all
  note lo = completion_between(1) [OF assms(1,2) refl assms(3)]
  note hi = completion_between(2) [OF assms(1,2) refl assms(3)]
  consider "(?P + ?R) / (?D + ?R) < t" | "t \<le> ?P / (?D + ?R)"
    using assms(3,5) Some by (fastforce simp: remaining_can_change_outcome_def Let_def)
  then show ?thesis
  proof cases
    case 1
    then have lt: "?P + ?R < t * ?D + t * ?R" using pos by (simp add: divide_less_eq algebra_simps)
    moreover have "t * ?R \<le> ?R" using t assms(3) by (simp add: mult_left_le_one_le)
    ultimately have "?P < t * ?D" by linarith
    then have "0 < ?D" using points_nonneg [OF assms(1)] pos(2) t
      by (metis less_eq_real_def linorder_not_le mult_zero_right)
    with \<open>?P < t * ?D\<close> have "weighted_mean so_far < t"
      by (simp add: weighted_mean_pos divide_less_eq)
    then show ?thesis using Some hi 1 by simp
  next
    case 2
    then have "t * ?D + t * ?R \<le> ?P" using pos by (simp add: le_divide_eq algebra_simps)
    moreover have "0 \<le> t * ?R" using t assms(3) by simp
    ultimately have "t * ?D \<le> ?P" by linarith
    then have "t \<le> weighted_mean so_far"
      using pos(2) t by (auto simp: weighted_mean_def Let_def le_divide_eq)
    then show ?thesis using Some lo 2 by simp
  qed
qed

text \<open>The weight of a graded assertion is not checked to be positive, and there the test is wrong: with
  no threshold (every assertion must pass) a failing graded assertion of weight 0 turns a passing
  case into a failing one, yet \<open>remaining_can_change_outcome\<close> says that assertions of total weight 0
  cannot change the outcome, whatever has been scored so far.\<close>

theorem zero_weight_graded_assert_is_ignored:
  "\<not> remaining_can_change_outcome so_far (total_of [lone 0 0 False]) None
   \<and> verdict_passed (case_verdict [lone 1 1 True] None)
   \<and> \<not> verdict_passed (case_verdict ([lone 1 1 True] @ [lone 0 0 False]) None)"
  by (simp add: remaining_can_change_outcome_def)

text \<open>The case score stays in [0, 1] whatever the assertion weights, and is the exact weighted mean
  when some weight is positive; a case without assertions scores 1 and passes without a threshold.\<close>

theorem case_score_bounds:
  assumes "list_all valid_scored xs"
  shows "0 \<le> verdict_score (case_verdict xs th) \<and> verdict_score (case_verdict xs th) \<le> 1
    \<and> (0 < total_of xs \<longrightarrow> verdict_score (case_verdict xs th) * total_of xs = points_of xs)
    \<and> case_verdict [] None = \<lparr>verdict_passed = True, verdict_score = 1\<rparr>"
  using weighted_mean_in_unit_interval [OF assms]
  by (simp add: weighted_mean_pos) (simp add: case_verdict_def weighted_mean_def)

theorem case_score_bounds_witness:
  "verdict_score (case_verdict [lone 1 1 True, lone 3 0 False] None) * 4 = 1"
  using case_score_bounds [of "[lone 1 1 True, lone 3 0 False]" None]
  by (simp add: valid_scored_def)

end
