(* ===== verification/RunnerAsserts.thy ===== *)
theory RunnerAsserts
  imports Fallback GraderCache Scoring
begin

text \<open>
  Evaluating the assertions of one case (\<open>crates/domarinn-core/src/runner_asserts.rs\<close>): the local ones
  first, then, unless they cannot change the outcome any more, the ones a grader decides.

  The grader is the trait object \<open>AssertGrader\<close>: a function on the world, which holds the cache, the run's
  migration probe and the abort flag. \<open>serde\<close>'s encoding of an assertion's criteria is the field
  \<open>ax_to_value\<close> of the context. A panic is the result \<open>None\<close>.
\<close>

section \<open>Model\<close>

record AssertResult =
  ar_kind :: string
  ar_status :: AssertStatus
  ar_score :: f64
  ar_weight :: f64
  ar_reason :: string
  ar_details :: "json option"
  ar_criteria :: "json option"
  ar_cached :: bool
  ar_cost_usd :: "f64 option"
  ar_error_class :: "ErrorClass option"

record 'c GradeCtx =
  gc_vars :: json
  gc_working_dir :: "string option"
  gc_provider_id :: string
  gc_test_id :: string
  gc_test_tags :: "string list"
  gc_tool_calls :: "ToolCall list"
  gc_cache :: "'c RequestCache option"

type_synonym ('c, 'w) AssertGrader =
  "Assert \<Rightarrow> Output \<Rightarrow> 'c GradeCtx \<Rightarrow> ('c, 'w) World \<Rightarrow> (GraderError + Graded) \<times> ('c, 'w) World"

record ('c, 'w) AssertCtx =
  ax_provider_id :: string
  ax_test_id :: string
  ax_test_tags :: "string list"
  ax_libs :: libs
  ax_to_value :: "AssertKind \<Rightarrow> json option"
  ax_grader :: "('c, 'w) AssertGrader option"
  ax_base_dir :: string
  ax_tool_calls :: "ToolCall list"
  ax_empty_reason :: "EmptyReason option"
  ax_cache :: "'c CacheBackend"
  ax_cache_mode :: CacheMode
  ax_grader_cache :: bool
  ax_repeat :: u32
  ax_short_circuit :: bool

definition scored_of :: "Assert \<Rightarrow> AssertOutcome \<Rightarrow> Scored" where
  "scored_of a oc = \<lparr>sc_weight = as_weight a, sc_score = ao_score oc, sc_passed = ao_passed oc\<rparr>"

definition assert_criteria :: "(AssertKind \<Rightarrow> json option) \<Rightarrow> Assert \<Rightarrow> json option" where
  "assert_criteria to_value a = Option.bind (to_value (as_kind a)) (\<lambda>v. Some
     (case v of JObject ms \<Rightarrow> if as_negate a then JObject (members_insert ''negate'' (JBool True) ms) else v | _ \<Rightarrow> v))"

definition assert_result ::
  "(AssertKind \<Rightarrow> json option) \<Rightarrow> Assert \<Rightarrow> AssertOutcome \<Rightarrow> AssertStatus \<Rightarrow> AssertResult" where
  "assert_result to_value a oc status =
     \<lparr>ar_kind = kind_name (as_kind a), ar_status = status, ar_score = ao_score oc, ar_weight = as_weight a,
      ar_reason = ao_reason oc, ar_details = ao_details oc, ar_criteria = assert_criteria to_value a,
      ar_cached = False, ar_cost_usd = None, ar_error_class = None\<rparr>"

definition error_assert :: "(AssertKind \<Rightarrow> json option) \<Rightarrow> Assert \<Rightarrow> string \<Rightarrow> ErrorClass \<Rightarrow> AssertResult" where
  "error_assert to_value a reason cls =
     \<lparr>ar_kind = kind_name (as_kind a), ar_status = AError, ar_score = 0, ar_weight = as_weight a,
      ar_reason = reason, ar_details = None, ar_criteria = assert_criteria to_value a,
      ar_cached = False, ar_cost_usd = None, ar_error_class = Some cls\<rparr>"

definition skipped_result :: "(AssertKind \<Rightarrow> json option) \<Rightarrow> Assert \<Rightarrow> AssertResult" where
  "skipped_result to_value a =
     \<lparr>ar_kind = kind_name (as_kind a), ar_status = ASkipped, ar_score = 0, ar_weight = as_weight a,
      ar_reason = ''skipped: outcome already decided'', ar_details = None, ar_criteria = assert_criteria to_value a,
      ar_cached = False, ar_cost_usd = None, ar_error_class = None\<rparr>"

definition assert_threshold :: "Assert \<Rightarrow> f64 option" where
  "assert_threshold a = (case as_kind a of LlmRubric _ _ th _ \<Rightarrow> th | Similar _ th \<Rightarrow> th | _ \<Rightarrow> None)"

definition graded_verdict ::
  "('c, 'w) AssertGrader \<Rightarrow> ('c, 'w) AssertCtx \<Rightarrow> Assert \<Rightarrow> Output \<Rightarrow> json \<Rightarrow> ('c, 'w) World
   \<Rightarrow> (GraderError + Graded) \<times> ('c, 'w) World" where
  "graded_verdict grader ctx a out vars wd =
     (let cache = then_some (ax_grader_cache ctx \<and> ax_cache_mode ctx \<noteq> Disabled)
            \<lparr>rc_backend = ax_cache ctx, rc_mode = ax_cache_mode ctx, rc_repeat = ax_repeat ctx\<rparr>
      in if Option.is_none cache \<and> ax_cache_mode ctx = ReadOnlyStrict
         then (Inl (CacheMiss (''cache-only: grader caching is off in this run, so a '' @ [CHR 0x27] @ kind_name (as_kind a)
                 @ [CHR 0x27] @ '' assertion has nothing to replay'')), wd)
         else grader a out \<lparr>gc_vars = vars, gc_working_dir = Some (ax_base_dir ctx), gc_provider_id = ax_provider_id ctx,
                gc_test_id = ax_test_id ctx, gc_test_tags = ax_test_tags ctx, gc_tool_calls = ax_tool_calls ctx,
                gc_cache = cache\<rparr> wd)"

text \<open>What the two loops of \<open>evaluate_asserts\<close> build up.\<close>

record Tally =
  ty_results :: "AssertResult option list"
  ty_scored :: "Scored list"
  ty_classes :: "ErrorClass list"

definition set_result :: "nat \<Rightarrow> AssertResult \<Rightarrow> Tally \<Rightarrow> Tally" where
  "set_result i r t = t\<lparr>ty_results := (ty_results t)[i := Some r]\<rparr>"

definition push_scored :: "Scored \<Rightarrow> Tally \<Rightarrow> Tally" where
  "push_scored s t = t\<lparr>ty_scored := ty_scored t @ [s]\<rparr>"

definition push_class :: "ErrorClass \<Rightarrow> Tally \<Rightarrow> Tally" where
  "push_class c t = t\<lparr>ty_classes := ty_classes t @ [c]\<rparr>"

definition local_step :: "('c, 'w) AssertCtx \<Rightarrow> nat \<Rightarrow> Assert \<Rightarrow> AssertOutcome \<Rightarrow> Tally \<Rightarrow> Tally" where
  "local_step ctx i a oc t =
     (let t = push_scored (scored_of a oc) t;
          (status, t) = (if ao_unevaluable oc then (AError, push_class ASSERT_FAILED t) else (from_pass (ao_passed oc), t));
          result = assert_result (ax_to_value ctx) a oc status;
          result = (if status = AError then result\<lparr>ar_error_class := Some ASSERT_FAILED\<rparr> else result)
      in set_result i result t)"

fun local_loop ::
  "('c, 'w) AssertCtx \<Rightarrow> EvalCtx \<Rightarrow> Output \<Rightarrow> nat \<Rightarrow> Assert list \<Rightarrow> Tally \<Rightarrow> nat list \<Rightarrow> (Tally \<times> nat list) option" where
  "local_loop ctx ev out i [] t deferred = Some (t, deferred)"
| "local_loop ctx ev out i (a # as) t deferred =
     (if is_local (as_kind a)
      then (case evaluate_local ev a out of
              None \<Rightarrow> None
            | Some oc \<Rightarrow> local_loop ctx ev out (i + 1) as (local_step ctx i a oc t) deferred)
      else local_loop ctx ev out (i + 1) as t (deferred @ [i]))"

definition is_auth_rejected :: "GraderError \<Rightarrow> bool" where
  "is_auth_rejected e = (case e of AuthRejected _ \<Rightarrow> True | _ \<Rightarrow> False)"

definition graded_step ::
  "('c, 'w) AssertCtx \<Rightarrow> Output \<Rightarrow> json \<Rightarrow> nat \<Rightarrow> Assert \<Rightarrow> Tally \<Rightarrow> ('c, 'w) World \<Rightarrow> Tally \<times> ('c, 'w) World" where
  "graded_step ctx out vars i a t wd = (case abort_reason (wd_aborted wd) of
       Some reason \<Rightarrow> (set_result i (error_assert (ax_to_value ctx) a reason PROVIDER_AUTH) (push_class PROVIDER_AUTH t), wd)
     | None \<Rightarrow> (case ax_grader ctx of
         Some g \<Rightarrow>
           (let (graded, wd) = graded_verdict g ctx a out vars wd
            in case graded of
                 Inr gr \<Rightarrow>
                   (let oc = negate_and_guard (to_outcome (gr_verdict gr) (assert_threshold a)) a out (ax_tool_calls ctx) (ax_empty_reason ctx);
                        result = (assert_result (ax_to_value ctx) a oc (from_pass (ao_passed oc)))
                          \<lparr>ar_cached := gr_cached gr, ar_cost_usd := gr_cost_usd gr\<rparr>
                    in (set_result i result (push_scored (scored_of a oc) t), wd))
               | Inl e \<Rightarrow>
                   (set_result i (error_assert (ax_to_value ctx) a (grader_error_text e) (grader_class e)) (push_class (grader_class e) t),
                    if is_auth_rejected e then wd\<lparr>wd_aborted := poison (grader_error_text e) (wd_aborted wd)\<rparr> else wd))
       | None \<Rightarrow>
           (set_result i (error_assert (ax_to_value ctx) a (''no grader available for '' @ [CHR 0x27] @ kind_name (as_kind a) @ [CHR 0x27]
                @ '' assertions in this run'') GRADER_MISSING) (push_class GRADER_MISSING t), wd)))"

text \<open>The second loop. An index out of range would panic.\<close>

fun graded_loop ::
  "('c, 'w) AssertCtx \<Rightarrow> Assert list \<Rightarrow> Output \<Rightarrow> json \<Rightarrow> bool \<Rightarrow> nat list \<Rightarrow> Tally \<Rightarrow> ('c, 'w) World \<Rightarrow> Tally option \<times> ('c, 'w) World" where
  "graded_loop ctx asserts out vars matters [] t wd = (Some t, wd)"
| "graded_loop ctx asserts out vars matters (i # is) t wd =
     (if i \<ge> length asserts then (None, wd)
      else if \<not> matters
      then graded_loop ctx asserts out vars matters is (set_result i (skipped_result (ax_to_value ctx) (asserts ! i)) t) wd
      else let (t, wd) = graded_step ctx out vars i (asserts ! i) t wd
           in graded_loop ctx asserts out vars matters is t wd)"

definition evaluate_asserts ::
  "('c, 'w) AssertCtx \<Rightarrow> Assert list \<Rightarrow> Output \<Rightarrow> json \<Rightarrow> MetricCtx \<Rightarrow> f64 option \<Rightarrow> ('c, 'w) World
   \<Rightarrow> (AssertResult list \<times> Scored list \<times> ErrorClass list) option \<times> ('c, 'w) World" where
  "evaluate_asserts ctx asserts out vars metrics threshold wd =
     (let ev = \<lparr>ev_libs = ax_libs ctx, ev_vars = vars, ev_metrics = metrics, ev_tool_calls = ax_tool_calls ctx,
                ev_empty_reason = ax_empty_reason ctx\<rparr>;
          t = \<lparr>ty_results = replicate (length asserts) None, ty_scored = [], ty_classes = []\<rparr>
      in case local_loop ctx ev out 0 asserts t [] of
           None \<Rightarrow> (None, wd)
         | Some (t, deferred) \<Rightarrow>
             (let remaining_weight = sum_list (map (\<lambda>i. as_weight (asserts ! i)) deferred);
                  matters = (\<not> ax_short_circuit ctx \<or> remaining_can_change_outcome (ty_scored t) remaining_weight threshold);
                  (t, wd) = graded_loop ctx asserts out vars matters deferred t wd
              in (Option.bind t (\<lambda>t. if list_all (\<lambda>r. r \<noteq> None) (ty_results t)
                     then Some (map the (ty_results t), ty_scored t, ty_classes t) else None), wd)))"

definition assert_error_message :: "AssertResult list \<Rightarrow> string option" where
  "assert_error_message results = (case filter (\<lambda>a. ar_status a = AError) results of
       [] \<Rightarrow> None
     | first # others \<Rightarrow>
         (let reason = trim (ar_reason first);
              head = (if reason = [] then ar_kind first @ '' assertion errored''
                      else ar_kind first @ '' assertion errored: '' @ reason)
          in Some (case length others of 0 \<Rightarrow> head | n \<Rightarrow> head @ '' (and '' @ show_nat n @ '' more errored)'')))"

definition has_latency_assert :: "Assert list \<Rightarrow> bool" where
  "has_latency_assert as = list_ex (\<lambda>a. case as_kind a of Latency _ \<Rightarrow> True | _ \<Rightarrow> False) as"

section \<open>What the loops build\<close>

text \<open>What the result of an assertion adds to the score and to the error classes. A local assertion that could
  not be evaluated counts as a failure; one the grader failed on counts not at all.\<close>

definition contribution :: "Assert \<Rightarrow> AssertResult \<Rightarrow> Scored list" where
  "contribution a r =
     (if ar_status r \<in> {APass, AFail} \<or> ar_status r = AError \<and> is_local (as_kind a)
      then [\<lparr>sc_weight = ar_weight r, sc_score = ar_score r, sc_passed = (ar_status r = APass)\<rparr>] else [])"

definition class_of :: "Assert \<Rightarrow> AssertResult \<Rightarrow> ErrorClass list" where
  "class_of a r = (case ar_error_class r of None \<Rightarrow> [] | Some c \<Rightarrow> [c])"

definition result_ok :: "Assert \<Rightarrow> AssertResult \<Rightarrow> bool" where
  "result_ok a r \<longleftrightarrow> ar_kind r = kind_name (as_kind a) \<and> ar_weight r = as_weight a
     \<and> (ar_status r = AError \<longleftrightarrow> ar_error_class r \<noteq> None) \<and> (ar_status r = ASkipped \<longrightarrow> \<not> is_local (as_kind a))
     \<and> (is_local (as_kind a) \<longrightarrow> ar_score r = (if ar_status r = APass then 1 else 0))"

definition contribs :: "(Assert \<Rightarrow> AssertResult \<Rightarrow> 'b list) \<Rightarrow> Assert list \<Rightarrow> AssertResult option list \<Rightarrow> 'b list" where
  "contribs g as rs = concat (map2 (\<lambda>a x. case x of None \<Rightarrow> [] | Some r \<Rightarrow> g a r) as rs)"

lemma contribs_set:
  "length as = length rs \<Longrightarrow> i < length rs \<Longrightarrow> rs ! i = None
   \<Longrightarrow> mset (contribs g as (rs[i := Some r])) = mset (contribs g as rs) + mset (g (as ! i) r)"
proof (induction rs arbitrary: as i)
  case (Cons x rs)
  then show ?case by (cases i; cases as) (auto simp: contribs_def)
qed simp

lemma contribs_none: "contribs g as (replicate (length as) None) = []"
  by (induction as) (simp_all add: contribs_def)

lemma contribs_done:
  "length as = length rs \<Longrightarrow> list_all (\<lambda>r. r \<noteq> None) rs \<Longrightarrow> contribs g as rs = concat (map2 g as (map the rs))"
  by (induction rs arbitrary: as) (auto simp: contribs_def length_Suc_conv)

definition tally_ok :: "Assert list \<Rightarrow> Tally \<Rightarrow> bool" where
  "tally_ok as t \<longleftrightarrow> length (ty_results t) = length as
     \<and> (\<forall>i < length as. \<forall>r. ty_results t ! i = Some r \<longrightarrow> result_ok (as ! i) r)
     \<and> mset (ty_scored t) = mset (contribs contribution as (ty_results t))
     \<and> mset (ty_classes t) = mset (contribs class_of as (ty_results t))"

lemma tally_ok_set:
  assumes "tally_ok as t" and "i < length as" and "ty_results t ! i = None" and "result_ok (as ! i) r"
    and "ty_results t' = (ty_results t)[i := Some r]" and "ty_scored t' = ty_scored t @ contribution (as ! i) r"
    and "ty_classes t' = ty_classes t @ class_of (as ! i) r"
  shows "tally_ok as t'"
  using assms contribs_set [of as "ty_results t" i contribution r] contribs_set [of as "ty_results t" i class_of r]
  by (auto simp: tally_ok_def nth_list_update)

lemmas push_defs = set_result_def push_scored_def push_class_def

lemma local_step_ok:
  assumes "tally_ok as t" and "i < length as" and "ty_results t ! i = None"
    and "is_local (as_kind (as ! i))" and "evaluate_local ev (as ! i) out = Some oc"
  shows "tally_ok as (local_step ctx i (as ! i) oc t)"
    and "j < length as \<Longrightarrow> ty_results (local_step ctx i (as ! i) oc t) ! j = None \<longleftrightarrow> j \<noteq> i \<and> ty_results t ! j = None"
proof -
  let ?a = "as ! i"
  let ?status = "if ao_unevaluable oc then AError else from_pass (ao_passed oc)"
  let ?r = "(assert_result (ax_to_value ctx) ?a oc ?status)\<lparr>ar_error_class := if ao_unevaluable oc then Some ASSERT_FAILED else None\<rparr>"
  have wf: "outcome_wf oc"
    using assms(5) by (auto simp: evaluate_local_def outcome_wf_evaluate_kind outcome_wf_negate_and_guard split: if_splits)
  have eq: "local_step ctx i ?a oc t = (let t = (if ao_unevaluable oc then push_class ASSERT_FAILED t else t)
      in set_result i ?r (push_scored (scored_of ?a oc) t))"
    by (auto simp: local_step_def Let_def push_defs from_pass_def assert_result_def)
  have ok: "result_ok ?a ?r" using wf assms(4)
    by (auto simp: result_ok_def assert_result_def from_pass_def outcome_wf_def)
  have "contribution ?a ?r = [scored_of ?a oc]" using wf assms(4)
    by (auto simp: contribution_def scored_of_def assert_result_def from_pass_def outcome_wf_def)
  then have scored: "ty_scored (local_step ctx i ?a oc t) = ty_scored t @ contribution ?a ?r"
    unfolding eq by (simp add: Let_def push_defs)
  have classes: "ty_classes (local_step ctx i ?a oc t) = ty_classes t @ class_of ?a ?r"
    unfolding eq by (simp add: Let_def push_defs class_of_def)
  have results: "ty_results (local_step ctx i ?a oc t) = (ty_results t)[i := Some ?r]"
    unfolding eq by (simp add: Let_def push_defs)
  show "tally_ok as (local_step ctx i ?a oc t)"
    by (rule tally_ok_set [OF assms(1-3) ok results scored classes])
  show "j < length as \<Longrightarrow> ty_results (local_step ctx i ?a oc t) ! j = None \<longleftrightarrow> j \<noteq> i \<and> ty_results t ! j = None"
    using assms(1,2) unfolding results by (auto simp: nth_list_update tally_ok_def)
qed

lemma local_loop_ok:
  assumes "asserts = pre @ as" and "tally_ok asserts t"
    and "\<forall>j < length asserts. ty_results t ! j = None \<longleftrightarrow> j \<in> set deferred \<or> length pre \<le> j"
    and "distinct deferred" and "\<forall>j \<in> set deferred. j < length pre \<and> \<not> is_local (as_kind (asserts ! j))"
  shows "\<exists>t' d. local_loop ctx ev out (length pre) as t deferred = Some (t', d) \<and> tally_ok asserts t' \<and> distinct d
    \<and> (\<forall>j < length asserts. ty_results t' ! j = None \<longleftrightarrow> j \<in> set d)
    \<and> (\<forall>j \<in> set d. j < length asserts \<and> \<not> is_local (as_kind (asserts ! j)))"
  using assms
proof (induction as arbitrary: pre t deferred)
  case Nil
  then show ?case by auto
next
  case (Cons a as)
  have i: "length pre < length asserts" "asserts ! length pre = a" "asserts = (pre @ [a]) @ as" using Cons.prems(1) by simp_all
  show ?case
  proof (cases "is_local (as_kind a)")
    case False
    have "\<exists>t' d. local_loop ctx ev out (length (pre @ [a])) as t (deferred @ [length pre]) = Some (t', d) \<and> tally_ok asserts t' \<and> distinct d
        \<and> (\<forall>j < length asserts. ty_results t' ! j = None \<longleftrightarrow> j \<in> set d)
        \<and> (\<forall>j \<in> set d. j < length asserts \<and> \<not> is_local (as_kind (asserts ! j)))"
      using Cons.prems(2-5) i False by (intro Cons.IH [OF i(3)]) (auto simp: Suc_le_eq le_less)
    then show ?thesis using False by simp
  next
    case True
    then obtain oc where oc: "evaluate_local ev a out = Some oc" by (auto simp: evaluate_local_def)
    have free: "ty_results t ! length pre = None" using Cons.prems(3) i(1) by simp
    note step = local_step_ok [OF Cons.prems(2) i(1) free, unfolded i(2), OF True oc, where ctx = ctx]
    have "\<exists>t' d. local_loop ctx ev out (length (pre @ [a])) as (local_step ctx (length pre) a oc t) deferred = Some (t', d)
        \<and> tally_ok asserts t' \<and> distinct d
        \<and> (\<forall>j < length asserts. ty_results t' ! j = None \<longleftrightarrow> j \<in> set d)
        \<and> (\<forall>j \<in> set d. j < length asserts \<and> \<not> is_local (as_kind (asserts ! j)))"
      using step Cons.prems(3-5) i by (intro Cons.IH [OF i(3)]) (auto simp: Suc_le_eq le_less)
    then show ?thesis using True oc by simp
  qed
qed

lemma graded_step_result:
  assumes "\<not> is_local (as_kind a)"
  obtains r where "result_ok a r" "ar_status r \<noteq> ASkipped"
    "ty_results (fst (graded_step ctx out vars i a t wd)) = (ty_results t)[i := Some r]"
    "ty_scored (fst (graded_step ctx out vars i a t wd)) = ty_scored t @ contribution a r"
    "ty_classes (fst (graded_step ctx out vars i a t wd)) = ty_classes t @ class_of a r"
proof -
  have err: "result_ok a (error_assert tv a reason cls) \<and> ar_status (error_assert tv a reason cls) \<noteq> ASkipped
      \<and> contribution a (error_assert tv a reason cls) = [] \<and> class_of a (error_assert tv a reason cls) = [cls]" for tv reason cls
    using assms by (simp add: result_ok_def error_assert_def contribution_def class_of_def)
  have ok: "result_ok a r \<and> ar_status r \<noteq> ASkipped \<and> contribution a r = [scored_of a oc] \<and> class_of a r = []"
    if "r = (assert_result tv a oc (from_pass (ao_passed oc)))\<lparr>ar_cached := c, ar_cost_usd := cost\<rparr>" for r tv oc c cost
    using assms that by (simp add: result_ok_def assert_result_def from_pass_def contribution_def class_of_def scored_of_def)
  show thesis
  proof (cases "abort_reason (wd_aborted wd)")
    case (Some reason)
    then show thesis using err by (intro that [of "error_assert (ax_to_value ctx) a reason PROVIDER_AUTH"])
      (simp_all add: graded_step_def push_defs)
  next
    case None
    note live = None
    show thesis
    proof (cases "ax_grader ctx")
      case None
      show thesis
        by (rule that [of "error_assert (ax_to_value ctx) a msg GRADER_MISSING" for msg])
          (simp_all add: graded_step_def push_defs live None err)
    next
      case (Some g)
      obtain gr wd1 where gv: "graded_verdict g ctx a out vars wd = (gr, wd1)" by fastforce
      show thesis
      proof (cases gr)
        case (Inl e)
        show thesis
          by (rule that [of "error_assert (ax_to_value ctx) a msg cls" for msg cls])
            (simp_all add: graded_step_def push_defs live Some gv Inl err)
      next
        case (Inr v)
        define oc where "oc = negate_and_guard (to_outcome (gr_verdict v) (assert_threshold a)) a out (ax_tool_calls ctx) (ax_empty_reason ctx)"
        define r where "r = (assert_result (ax_to_value ctx) a oc (from_pass (ao_passed oc)))\<lparr>ar_cached := gr_cached v, ar_cost_usd := gr_cost_usd v\<rparr>"
        have "fst (graded_step ctx out vars i a t wd) = set_result i r (push_scored (scored_of a oc) t)"
          by (simp add: graded_step_def live Some gv Inr Let_def oc_def r_def)
        then show thesis using ok [OF r_def] by (intro that [of r]) (simp_all add: push_defs)
      qed
    qed
  qed
qed

lemma graded_loop_ok:
  assumes "tally_ok as t" and "distinct is" and "\<forall>j \<in> set is. j < length as \<and> \<not> is_local (as_kind (as ! j))"
    and "\<forall>j < length as. ty_results t ! j = None \<longleftrightarrow> j \<in> set is"
  shows "\<exists>t' wd'. graded_loop ctx as out vars matters is t wd = (Some t', wd') \<and> tally_ok as t'
    \<and> (\<forall>j < length as. ty_results t' ! j \<noteq> None)"
  using assms
proof (induction "is" arbitrary: t wd)
  case Nil
  then show ?case by simp
next
  case (Cons i "is")
  let ?a = "as ! i"
  have i: "i < length as" "\<not> is_local (as_kind ?a)" "ty_results t ! i = None" using Cons.prems(3,4) by simp_all
  have len: "length (ty_results t) = length as" using Cons.prems(1) by (simp add: tally_ok_def)
  have rest: "\<exists>t' wd'. graded_loop ctx as out vars matters is t1 wd1 = (Some t', wd') \<and> tally_ok as t' \<and> (\<forall>j < length as. ty_results t' ! j \<noteq> None)"
    if "tally_ok as t1" and "ty_results t1 = (ty_results t)[i := Some r]" for t1 wd1 r
    using that Cons.prems len by (intro Cons.IH) (auto simp: nth_list_update)
  show ?case
  proof (cases matters)
    case False
    let ?r = "skipped_result (ax_to_value ctx) ?a"
    have "tally_ok as (set_result i ?r t)"
      by (rule tally_ok_set [OF Cons.prems(1) i(1,3), of ?r])
        (use i(2) in \<open>simp_all add: skipped_result_def result_ok_def contribution_def class_of_def push_defs\<close>)
    then show ?thesis using rest [of "set_result i ?r t" ?r] False i(1) by (simp add: push_defs)
  next
    case True
    obtain r where r: "result_ok ?a r" "ty_results (fst (graded_step ctx out vars i ?a t wd)) = (ty_results t)[i := Some r]"
      "ty_scored (fst (graded_step ctx out vars i ?a t wd)) = ty_scored t @ contribution ?a r"
      "ty_classes (fst (graded_step ctx out vars i ?a t wd)) = ty_classes t @ class_of ?a r"
      using graded_step_result [OF i(2)] by metis
    have "tally_ok as (fst (graded_step ctx out vars i ?a t wd))"
      by (rule tally_ok_set [OF Cons.prems(1) i(1,3) r])
    then show ?thesis using rest [OF _ r(2)] True i(1) by (simp add: case_prod_beta)
  qed
qed

lemma start_tally: "tally_ok as \<lparr>ty_results = replicate (length as) None, ty_scored = [], ty_classes = []\<rparr>"
  by (simp add: tally_ok_def contribs_none)

text \<open>The two stages of an evaluation: after the local assertions exactly the deferred ones are open.\<close>

lemma local_stage:
  obtains t deferred where
    "local_loop ctx ev out 0 as \<lparr>ty_results = replicate (length as) None, ty_scored = [], ty_classes = []\<rparr> [] = Some (t, deferred)"
    "tally_ok as t" "distinct deferred" "\<forall>j < length as. ty_results t ! j = None \<longleftrightarrow> j \<in> set deferred"
    "\<forall>j \<in> set deferred. j < length as \<and> \<not> is_local (as_kind (as ! j))"
proof -
  have "\<exists>t d. local_loop ctx ev out (length ([] :: Assert list)) as \<lparr>ty_results = replicate (length as) None, ty_scored = [], ty_classes = []\<rparr> [] = Some (t, d)
      \<and> tally_ok as t \<and> distinct d \<and> (\<forall>j < length as. ty_results t ! j = None \<longleftrightarrow> j \<in> set d)
      \<and> (\<forall>j \<in> set d. j < length as \<and> \<not> is_local (as_kind (as ! j)))"
    by (rule local_loop_ok [OF _ start_tally]) simp_all
  then show thesis using that by auto
qed

lemma evaluate_total:
  "\<exists>results scored classes wd'. evaluate_asserts ctx asserts out vars metrics threshold wd = (Some (results, scored, classes), wd')
    \<and> list_all2 result_ok asserts results
    \<and> mset scored = mset (concat (map2 contribution asserts results))
    \<and> mset classes = mset (concat (map2 class_of asserts results))"
proof -
  let ?ev = "\<lparr>ev_libs = ax_libs ctx, ev_vars = vars, ev_metrics = metrics, ev_tool_calls = ax_tool_calls ctx,
    ev_empty_reason = ax_empty_reason ctx\<rparr>"
  obtain t deferred where l: "local_loop ctx ?ev out 0 asserts
        \<lparr>ty_results = replicate (length asserts) None, ty_scored = [], ty_classes = []\<rparr> [] = Some (t, deferred)"
    and t: "tally_ok asserts t" "distinct deferred" "\<forall>j < length asserts. ty_results t ! j = None \<longleftrightarrow> j \<in> set deferred"
      "\<forall>j \<in> set deferred. j < length asserts \<and> \<not> is_local (as_kind (asserts ! j))" by (rule local_stage)
  let ?m = "\<not> ax_short_circuit ctx \<or> remaining_can_change_outcome (ty_scored t) (sum_list (map (\<lambda>i. as_weight (asserts ! i)) deferred)) threshold"
  obtain t' wd' where g: "graded_loop ctx asserts out vars ?m deferred t wd = (Some t', wd')" "tally_ok asserts t'"
      "\<forall>j < length asserts. ty_results t' ! j \<noteq> None"
    using graded_loop_ok [OF t(1,2,4,3), of ctx out vars ?m wd] by blast
  have len: "length asserts = length (ty_results t')" using g(2) by (simp add: tally_ok_def)
  then have full: "list_all (\<lambda>r. r \<noteq> None) (ty_results t')" using g(3) by (simp add: list_all_length)
  have "evaluate_asserts ctx asserts out vars metrics threshold wd
      = (Some (map the (ty_results t'), ty_scored t', ty_classes t'), wd')"
    using l g(1) full by (simp add: evaluate_asserts_def Let_def)
  moreover have "list_all2 result_ok asserts (map the (ty_results t'))"
    using g(2,3) len by (auto simp: list_all2_conv_all_nth tally_ok_def)
  ultimately show ?thesis using g(2) contribs_done [OF len full, of contribution] contribs_done [OF len full, of class_of]
    by (simp add: tally_ok_def)
qed


text \<open>C27: Evaluating the assertions of a case never panics: whatever the grader does, however the run is aborted and
  whether or not the graded assertions are skipped, there is one result per assertion, in the order of the
  suite, with its kind and weight. A result has an error class exactly when it is an error, and only a graded
  assertion is skipped. The scores and the error classes that decide the case are those of the results, each
  once: a local assertion that cannot be evaluated is scored as a failure, a grader's failure is not scored.\<close>

theorem evaluate_asserts_accounts:
  "\<exists>results scored classes wd'. evaluate_asserts ctx asserts out vars metrics threshold wd = (Some (results, scored, classes), wd')
    \<and> list_all2 result_ok asserts results
    \<and> mset scored = mset (concat (map2 contribution asserts results))
    \<and> mset classes = mset (concat (map2 class_of asserts results))"
  by (rule evaluate_total)

section \<open>Skipping graded assertions\<close>

text \<open>A grader whose scores lie between 0 and 1.\<close>

definition fair_verdict :: "GradedVerdict \<Rightarrow> bool" where
  "fair_verdict v = (case v of RubricVerdict score _ _ \<Rightarrow> 0 \<le> score \<and> score \<le> 1 | Similarity _ \<Rightarrow> True
     | ExecVerdict _ score _ _ \<Rightarrow> 0 \<le> score \<and> score \<le> 1)"

definition fair_grader :: "('c, 'w) AssertGrader option \<Rightarrow> bool" where
  "fair_grader grader \<longleftrightarrow> (\<forall>g a out gc wd gr wd'. grader = Some g \<longrightarrow> g a out gc wd = (Inr gr, wd') \<longrightarrow> fair_verdict (gr_verdict gr))"

lemma fair_outcome:
  assumes "fair_verdict v"
  shows "0 \<le> ao_score (negate_and_guard (to_outcome v th) a out tcs er)" "ao_score (negate_and_guard (to_outcome v th) a out tcs er) \<le> 1"
proof -
  have "0 \<le> ao_score (to_outcome v th) \<and> ao_score (to_outcome v th) \<le> 1"
    using assms by (auto simp: fair_verdict_def to_outcome_def Let_def split: GradedVerdict.splits)
  then have "0 \<le> ao_score (negate_and_guard (to_outcome v th) a out tcs er) \<and> ao_score (negate_and_guard (to_outcome v th) a out tcs er) \<le> 1"
    by (auto simp: negate_and_guard_def negated_def deny_vacuous_negated_pass_def Let_def split: option.splits)
  then show "0 \<le> ao_score (negate_and_guard (to_outcome v th) a out tcs er)" "ao_score (negate_and_guard (to_outcome v th) a out tcs er) \<le> 1"
    by auto
qed

lemma graded_verdict_fair:
  "fair_grader (Some g) \<Longrightarrow> graded_verdict g ctx a out vars wd = (Inr gr, wd') \<Longrightarrow> fair_verdict (gr_verdict gr)"
  unfolding fair_grader_def graded_verdict_def Let_def by (auto split: if_splits) blast+

text \<open>What grading one assertion adds: a score in range with its weight, or an error class.\<close>

lemma graded_step_adds:
  assumes "fair_grader (ax_grader ctx)" and "0 \<le> as_weight a"
  shows "\<exists>sc cs. ty_scored (fst (graded_step ctx out vars i a t wd)) = ty_scored t @ sc
    \<and> ty_classes (fst (graded_step ctx out vars i a t wd)) = ty_classes t @ cs
    \<and> list_all valid_scored sc \<and> (cs = [] \<longrightarrow> map sc_weight sc = [as_weight a])"
proof (cases "abort_reason (wd_aborted wd) \<noteq> None \<or> ax_grader ctx = None")
  case True
  then show ?thesis by (cases "abort_reason (wd_aborted wd)") (auto simp: graded_step_def push_defs)
next
  case False
  then obtain g where live: "abort_reason (wd_aborted wd) = None" "ax_grader ctx = Some g" by auto
  obtain gr wd1 where gv: "graded_verdict g ctx a out vars wd = (gr, wd1)" by fastforce
  show ?thesis
  proof (cases gr)
    case (Inl e)
    then show ?thesis using live gv by (auto simp: graded_step_def push_defs)
  next
    case (Inr v)
    then have "fair_verdict (gr_verdict v)" using graded_verdict_fair [of g ctx a out vars wd v wd1] assms(1) live gv by simp
    note fair = fair_outcome [OF this]
    show ?thesis using live gv Inr fair assms(2)
      by (auto simp: graded_step_def push_defs Let_def scored_of_def valid_scored_def)
  qed
qed

lemma graded_loop_adds:
  assumes "fair_grader (ax_grader ctx)" and "\<forall>a \<in> set as. 0 \<le> as_weight a" and "graded_loop ctx as out vars True is t wd = (Some t', wd')"
  shows "\<exists>sc cs. ty_scored t' = ty_scored t @ sc \<and> ty_classes t' = ty_classes t @ cs
    \<and> list_all valid_scored sc \<and> (cs = [] \<longrightarrow> map sc_weight sc = map (\<lambda>i. as_weight (as ! i)) is)"
  using assms(3)
proof (induction "is" arbitrary: t wd)
  case (Cons i "is")
  obtain t1 wd1 where step: "graded_step ctx out vars i (as ! i) t wd = (t1, wd1)" by fastforce
  have i: "i < length as" and rest: "graded_loop ctx as out vars True is t1 wd1 = (Some t', wd')"
    using Cons.prems step by (auto split: if_splits)
  obtain sc1 cs1 where 1: "ty_scored t1 = ty_scored t @ sc1" "ty_classes t1 = ty_classes t @ cs1" "list_all valid_scored sc1"
      "cs1 = [] \<longrightarrow> map sc_weight sc1 = [as_weight (as ! i)]"
    using graded_step_adds [OF assms(1), of "as ! i" out vars i t wd] assms(2) i step by auto
  obtain sc cs where 2: "ty_scored t' = ty_scored t1 @ sc" "ty_classes t' = ty_classes t1 @ cs" "list_all valid_scored sc"
      "cs = [] \<longrightarrow> map sc_weight sc = map (\<lambda>i. as_weight (as ! i)) is"
    using Cons.IH [OF rest] by blast
  show ?case using 1 2 by (intro exI [of _ "sc1 @ sc"] exI [of _ "cs1 @ cs"]) auto
qed auto

lemma graded_loop_skips:
  "graded_loop ctx as out vars False is t wd = (Some t', wd') \<Longrightarrow> ty_scored t' = ty_scored t \<and> ty_classes t' = ty_classes t \<and> wd' = wd"
  by (induction "is" arbitrary: t) (auto simp: push_defs split: if_splits)


lemma evaluate_stages:
  assumes "evaluate_asserts ctx asserts out vars metrics threshold wd = (Some (results, scored, classes), wd')"
    and "local_loop ctx \<lparr>ev_libs = ax_libs ctx, ev_vars = vars, ev_metrics = metrics, ev_tool_calls = ax_tool_calls ctx,
            ev_empty_reason = ax_empty_reason ctx\<rparr> out 0 asserts
          \<lparr>ty_results = replicate (length asserts) None, ty_scored = [], ty_classes = []\<rparr> [] = Some (t, deferred)"
    and "matters = (\<not> ax_short_circuit ctx \<or> remaining_can_change_outcome (ty_scored t)
            (sum_list (map (\<lambda>i. as_weight (asserts ! i)) deferred)) threshold)"
  obtains t' where "graded_loop ctx asserts out vars matters deferred t wd = (Some t', wd')" "scored = ty_scored t'" "classes = ty_classes t'"
proof -
  obtain t1 wd1 where g: "graded_loop ctx asserts out vars matters deferred t wd = (t1, wd1)" by fastforce
  from assms(1) [unfolded evaluate_asserts_def Let_def assms(2) option.case prod.case, folded assms(3), unfolded g prod.case]
  show thesis using g that by (auto simp: bind_eq_Some_conv split: if_splits)
qed

text \<open>A context with another setting of \<open>short_circuit\<close> behaves the same in both loops.\<close>

lemma local_loop_short: "local_loop (ctx\<lparr>ax_short_circuit := b\<rparr>) ev out i as t d = local_loop ctx ev out i as t d"
  by (induction as arbitrary: i t d) (simp_all add: local_step_def split: option.split)

lemma graded_verdict_short:
  "graded_verdict g (ctx\<lparr>ax_short_circuit := b\<rparr>) a out vars wd = graded_verdict g ctx a out vars wd"
  by (simp only: graded_verdict_def) (simp cong del: if_weak_cong let_weak_cong)

lemma graded_step_short:
  "graded_step (ctx\<lparr>ax_short_circuit := b\<rparr>) out vars i a t wd = graded_step ctx out vars i a t wd"
  by (cases "abort_reason (wd_aborted wd)"; cases "ax_grader ctx")
    (simp_all add: graded_step_def graded_verdict_short Let_def cong: sum.case_cong)

lemma graded_loop_short:
  "graded_loop (ctx\<lparr>ax_short_circuit := b\<rparr>) as out vars m is t wd = graded_loop ctx as out vars m is t wd"
  by (cases m; induction "is" arbitrary: t wd) (simp_all add: graded_step_short split: prod.split)

lemma local_scored_valid:
  assumes "tally_ok as t" and "\<forall>a \<in> set as. 0 \<le> as_weight a"
    and "\<forall>j < length as. ty_results t ! j \<noteq> None \<longrightarrow> is_local (as_kind (as ! j))"
  shows "list_all valid_scored (ty_scored t)"
proof -
  have "valid_scored x" if "x \<in> set (ty_scored t)" for x
  proof -
    have "x \<in> set (contribs contribution as (ty_results t))"
      using that assms(1) by (metis tally_ok_def set_mset_mset)
    then obtain j r where j: "j < length as" "ty_results t ! j = Some r" "x \<in> set (contribution (as ! j) r)"
      using assms(1) [unfolded tally_ok_def, THEN conjunct1] by (auto simp: contribs_def set_zip split: option.splits) metis
    then have "result_ok (as ! j) r" "is_local (as_kind (as ! j))" "0 \<le> as_weight (as ! j)"
      using assms by (auto simp: tally_ok_def)
    then show ?thesis using j(3) by (auto simp: contribution_def result_ok_def valid_scored_def split: if_splits)
  qed
  then show ?thesis by (simp add: list_all_iff)
qed

lemma local_loop_deferred:
  "asserts = pre @ as \<Longrightarrow> local_loop ctx ev out (length pre) as t d = Some (t', d')
   \<Longrightarrow> d' = d @ filter (\<lambda>j. \<not> is_local (as_kind (asserts ! j))) [length pre..<length asserts]"
proof (induction as arbitrary: pre t d)
  case (Cons a as)
  have first: "[length pre..<length asserts] = length pre # [length (pre @ [a])..<length asserts]" "asserts ! length pre = a"
      "asserts = (pre @ [a]) @ as"
    using Cons.prems(1) by (simp_all add: upt_conv_Cons del: upt_Suc)
  show ?case
  proof (cases "is_local (as_kind a)")
    case True
    then obtain oc where loop: "local_loop ctx ev out (length (pre @ [a])) as (local_step ctx (length pre) a oc t) d = Some (t', d')"
      using Cons.prems(2) by (auto split: option.splits)
    show ?thesis unfolding Cons.IH [OF first(3) loop] first(1) by (simp only: filter.simps first(2) True) simp
  next
    case False
    then have loop: "local_loop ctx ev out (length (pre @ [a])) as t (d @ [length pre]) = Some (t', d')"
      using Cons.prems(2) by simp
    show ?thesis unfolding Cons.IH [OF first(3) loop] first(1) by (simp only: filter.simps first(2) False) simp
  qed
qed simp

lemma deferred_weights:
  "map (\<lambda>j. as_weight (as ! j)) (filter (\<lambda>j. \<not> is_local (as_kind (as ! j))) [0..<length as])
   = map as_weight (filter (\<lambda>a. \<not> is_local (as_kind a)) as)"
proof -
  have "filter (\<lambda>a. \<not> is_local (as_kind a)) (map ((!) as) [0..<length as])
      = map ((!) as) (filter (\<lambda>j. \<not> is_local (as_kind (as ! j))) [0..<length as])"
    by (simp add: filter_map comp_def)
  then show ?thesis by (simp add: map_nth)
qed

text \<open>C7: Skipping is safe. Take the same case with and without the short circuit: if the grader scores between 0 and 1,
  weights are not negative, the graded assertions have some weight and the grader never fails, then the case
  passes in the one run exactly when it passes in the other.\<close>

theorem short_circuit_keeps_the_verdict:
  assumes "evaluate_asserts (ctx\<lparr>ax_short_circuit := True\<rparr>) asserts out vars metrics threshold wd = (Some (results, scored, classes), wd1)"
    and "evaluate_asserts (ctx\<lparr>ax_short_circuit := False\<rparr>) asserts out vars metrics threshold wd = (Some (results', scored', classes'), wd2)"
    and "fair_grader (ax_grader ctx)" and "\<forall>a \<in> set asserts. 0 \<le> as_weight a"
    and "0 < sum_list (map as_weight (filter (\<lambda>a. \<not> is_local (as_kind a)) asserts))"
    and "\<And>th. threshold = Some th \<Longrightarrow> 0 \<le> th \<and> th \<le> 1"
    and "classes' = classes"
  shows "verdict_passed (case_verdict scored threshold) = verdict_passed (case_verdict scored' threshold)"
proof -
  let ?ev = "\<lparr>ev_libs = ax_libs ctx, ev_vars = vars, ev_metrics = metrics, ev_tool_calls = ax_tool_calls ctx,
    ev_empty_reason = ax_empty_reason ctx\<rparr>"
  obtain t deferred where l: "local_loop ctx ?ev out 0 asserts
        \<lparr>ty_results = replicate (length asserts) None, ty_scored = [], ty_classes = []\<rparr> [] = Some (t, deferred)"
    and t: "tally_ok asserts t" "\<forall>j < length asserts. ty_results t ! j = None \<longleftrightarrow> j \<in> set deferred" by (rule local_stage)
  have d: "deferred = filter (\<lambda>j. \<not> is_local (as_kind (asserts ! j))) [0..<length asserts]"
    using local_loop_deferred [of asserts "[]" asserts ctx ?ev out _ "[]" t deferred] l by simp
  let ?rest = "map (\<lambda>i. as_weight (asserts ! i)) deferred"
  have w: "0 < sum_list ?rest" using assms(5) by (simp add: d deferred_weights)
  have valid: "list_all valid_scored (ty_scored t)"
    using t(2) by (intro local_scored_valid [OF t(1) assms(4)]) (auto simp: d)
  obtain t1 where t1: "graded_loop ctx asserts out vars (remaining_can_change_outcome (ty_scored t) (sum_list ?rest) threshold) deferred t wd
      = (Some t1, wd1)" "scored = ty_scored t1" "classes = ty_classes t1"
    using evaluate_stages [OF assms(1)] l by (auto simp: local_loop_short graded_loop_short)
  obtain t2 where t2: "graded_loop ctx asserts out vars True deferred t wd = (Some t2, wd2)" "scored' = ty_scored t2" "classes' = ty_classes t2"
    using evaluate_stages [OF assms(2)] l by (auto simp: local_loop_short graded_loop_short)
  show ?thesis
  proof (cases "remaining_can_change_outcome (ty_scored t) (sum_list ?rest) threshold")
    case True
    then show ?thesis using t1 t2 by simp
  next
    case False
    then have skip: "ty_scored t1 = ty_scored t" "ty_classes t1 = ty_classes t" using graded_loop_skips [of ctx] t1(1) by auto
    obtain sc cs where sc: "ty_scored t2 = ty_scored t @ sc" "ty_classes t2 = ty_classes t @ cs" "list_all valid_scored sc"
        "cs = [] \<longrightarrow> map sc_weight sc = ?rest"
      using graded_loop_adds [OF assms(3,4) t2(1)] by blast
    have total: "total_of sc = sum_list ?rest" using sc(2,4) skip(2) t1(3) t2(3) assms(7) by simp
    have th: "\<And>u. threshold = Some u \<Longrightarrow> 0 \<le> u \<and> u \<le> 1" by (rule assms(6))
    show ?thesis
      using skipped_same_verdict [OF valid sc(3) _ th] False total w skip(1) t1(2) t2(2) sc(1) by simp
  qed
qed

definition demo_asserts :: "Assert list" where
  "demo_asserts = [\<lparr>as_weight = 1, as_negate = False, as_kind = Contains ''x''\<rparr>, \<lparr>as_weight = 2, as_negate = False, as_kind = Exec [] None None\<rparr>]"

definition demo_assert_ctx :: "(Disk, nat) AssertCtx" where
  "demo_assert_ctx = \<lparr>ax_provider_id = ''p'', ax_test_id = ''t'', ax_test_tags = [], ax_libs = quiet_libs, ax_to_value = (\<lambda>_. None),
     ax_grader = Some (\<lambda>_ _ _ wd. (Inr (unpriced (ExecVerdict True 1 [] None)), wd\<lparr>wd_world := wd_world wd + 1\<rparr>)),
     ax_base_dir = [], ax_tool_calls = [], ax_empty_reason = None, ax_cache = LocalDiskCache (\<lambda>_. 1), ax_cache_mode = ReadWrite,
     ax_grader_cache = True, ax_repeat = 0, ax_short_circuit = True\<rparr>"

definition demo_metrics :: MetricCtx where
  "demo_metrics = \<lparr>mx_latency_ms = 0, mx_cost_usd = None, mx_total_tokens = None, mx_billable_tokens = None\<rparr>"

lemma demo_local:
  "\<exists>oc. evaluate_local \<lparr>ev_libs = quiet_libs, ev_vars = JNull, ev_metrics = demo_metrics, ev_tool_calls = [], ev_empty_reason = None\<rparr>
     \<lparr>as_weight = 1, as_negate = False, as_kind = Contains ''x''\<rparr> (Text ''y'') = Some oc
     \<and> ao_score oc = 0 \<and> \<not> ao_passed oc \<and> \<not> ao_unevaluable oc"
  by (simp add: evaluate_local_def is_local_def evaluate_kind_def cond_def outcome_fail_def negate_and_guard_def
      negated_def deny_vacuous_negated_pass_def Let_def as_text_def)

lemma demo_evaluations:
  "\<exists>results scored wd. evaluate_asserts (demo_assert_ctx\<lparr>ax_short_circuit := True\<rparr>) demo_asserts (Text ''y'') JNull demo_metrics None demo_world
     = (Some (results, scored, []), wd) \<and> wd_world wd = 0"
  "\<exists>results scored wd. evaluate_asserts (demo_assert_ctx\<lparr>ax_short_circuit := False\<rparr>) demo_asserts (Text ''y'') JNull demo_metrics None demo_world
     = (Some (results, scored, []), wd) \<and> wd_world wd = 1"
proof -
  obtain oc where "evaluate_local \<lparr>ev_libs = quiet_libs, ev_vars = JNull, ev_metrics = demo_metrics, ev_tool_calls = [], ev_empty_reason = None\<rparr>
     \<lparr>as_weight = 1, as_negate = False, as_kind = Contains ''x''\<rparr> (Text ''y'') = Some oc"
     "ao_score oc = 0" "\<not> ao_passed oc" "\<not> ao_unevaluable oc" using demo_local by blast
  note eval = this
  show "\<exists>results scored wd. evaluate_asserts (demo_assert_ctx\<lparr>ax_short_circuit := True\<rparr>) demo_asserts (Text ''y'') JNull demo_metrics None demo_world
     = (Some (results, scored, []), wd) \<and> wd_world wd = 0"
    by (simp add: evaluate_asserts_def demo_assert_ctx_def demo_asserts_def is_local_def eval local_step_def push_defs Let_def from_pass_def
        remaining_can_change_outcome_def scored_of_def demo_world_def)
  show "\<exists>results scored wd. evaluate_asserts (demo_assert_ctx\<lparr>ax_short_circuit := False\<rparr>) demo_asserts (Text ''y'') JNull demo_metrics None demo_world
     = (Some (results, scored, []), wd) \<and> wd_world wd = 1"
    by (simp add: evaluate_asserts_def demo_assert_ctx_def demo_asserts_def is_local_def eval local_step_def push_defs Let_def from_pass_def
        scored_of_def demo_world_def graded_step_def graded_verdict_def abort_reason_def then_some_def)
qed

theorem short_circuit_keeps_the_verdict_witness:
  "\<exists>results scored wd results' scored' wd'.
      evaluate_asserts (demo_assert_ctx\<lparr>ax_short_circuit := True\<rparr>) demo_asserts (Text ''y'') JNull demo_metrics None demo_world
        = (Some (results, scored, []), wd) \<and> wd_world wd = 0
    \<and> evaluate_asserts (demo_assert_ctx\<lparr>ax_short_circuit := False\<rparr>) demo_asserts (Text ''y'') JNull demo_metrics None demo_world
        = (Some (results', scored', []), wd') \<and> wd_world wd' = 1
    \<and> verdict_passed (case_verdict scored None) = verdict_passed (case_verdict scored' None)"
proof -
  obtain results scored wd results' scored' wd' where
    1: "evaluate_asserts (demo_assert_ctx\<lparr>ax_short_circuit := True\<rparr>) demo_asserts (Text ''y'') JNull demo_metrics None demo_world
        = (Some (results, scored, []), wd)" "wd_world wd = 0"
    and 2: "evaluate_asserts (demo_assert_ctx\<lparr>ax_short_circuit := False\<rparr>) demo_asserts (Text ''y'') JNull demo_metrics None demo_world
        = (Some (results', scored', []), wd')" "wd_world wd' = 1"
    using demo_evaluations by blast
  have fair: "fair_grader (ax_grader demo_assert_ctx)"
    by (auto simp: fair_grader_def demo_assert_ctx_def unpriced_def fair_verdict_def)
  have weights: "\<forall>a \<in> set demo_asserts. 0 \<le> as_weight a"
    "0 < sum_list (map as_weight (filter (\<lambda>a. \<not> is_local (as_kind a)) demo_asserts))"
    by (simp_all add: demo_asserts_def is_local_def)
  have "verdict_passed (case_verdict scored None) = verdict_passed (case_verdict scored' None)"
    by (rule short_circuit_keeps_the_verdict [OF 1(1) 2(1) fair weights]) simp_all
  then show ?thesis using 1 2 by blast
qed


section \<open>Offline graders\<close>

text \<open>A grader that, given a cache in strict mode, leaves the outside world alone.\<close>

definition offline_grader :: "('c, 'w) AssertGrader \<Rightarrow> bool" where
  "offline_grader g \<longleftrightarrow> (\<forall>a out gc rc wd r wd'. gc_cache gc = Some rc \<and> rc_mode rc = ReadOnlyStrict \<and> g a out gc wd = (r, wd')
     \<longrightarrow> wd_world wd' = wd_world wd)"

lemma offline_graderD:
  "offline_grader g \<Longrightarrow> gc_cache gc = Some rc \<Longrightarrow> rc_mode rc = ReadOnlyStrict \<Longrightarrow> g a out gc wd = (r, wd') \<Longrightarrow> wd_world wd' = wd_world wd"
  unfolding offline_grader_def by blast

lemma graded_verdict_offline:
  assumes "offline_grader g" and "ax_cache_mode ctx = ReadOnlyStrict" and "graded_verdict g ctx a out vars wd = (r, wd')"
  shows "wd_world wd' = wd_world wd"
proof (cases "ax_grader_cache ctx")
  case False
  then show ?thesis using assms(2,3) by (simp add: graded_verdict_def then_some_def Let_def)
next
  case True
  note call = assms(3) [unfolded graded_verdict_def Let_def, simplified True assms(2) then_some_def, simplified]
  show ?thesis by (rule offline_graderD [OF assms(1) _ _ call], simp, simp)
qed

lemma graded_step_offline:
  assumes "\<And>g. ax_grader ctx = Some g \<Longrightarrow> offline_grader g" and "ax_cache_mode ctx = ReadOnlyStrict"
  shows "wd_world (snd (graded_step ctx out vars i a t wd)) = wd_world wd"
proof (cases "abort_reason (wd_aborted wd)")
  case None
  show ?thesis
  proof (cases "ax_grader ctx")
    case (Some g)
    obtain r wd1 where "graded_verdict g ctx a out vars wd = (r, wd1)" by fastforce
    moreover from graded_verdict_offline [OF assms(1) [OF Some] assms(2) this] have "wd_world wd1 = wd_world wd" .
    ultimately show ?thesis using None Some by (simp add: graded_step_def Let_def split: sum.split)
  qed (simp add: None graded_step_def)
qed (simp add: graded_step_def)

lemma graded_loop_offline:
  assumes "\<And>g. ax_grader ctx = Some g \<Longrightarrow> offline_grader g" and "ax_cache_mode ctx = ReadOnlyStrict"
  shows "wd_world (snd (graded_loop ctx as out vars m is t wd)) = wd_world wd"
proof (induction "is" arbitrary: t wd)
  case (Cons i "is")
  then show ?case using graded_step_offline [OF assms, of out vars i "as ! i" t wd] by (cases m) (simp_all add: case_prod_beta)
qed simp

lemma evaluate_asserts_offline:
  assumes "\<And>g. ax_grader ctx = Some g \<Longrightarrow> offline_grader g" and "ax_cache_mode ctx = ReadOnlyStrict"
    and "evaluate_asserts ctx asserts out vars metrics threshold wd = (r, wd')"
  shows "wd_world wd' = wd_world wd"
  using assms(3) graded_loop_offline [OF assms(1,2)]
  by (auto simp: evaluate_asserts_def Let_def case_prod_beta split: option.splits)

end
