(* ===== verification/Render.thy ===== *)
theory Render
  imports Provider
begin

text \<open>
  Rendering a case's prompt, history and variables (\<open>crates/domarinn-core/src/render.rs\<close>) with the authored
  turns of \<open>config_history.rs\<close> and the sandbox for file references (\<open>sandbox.rs\<close>).

  Paths are lists of the components \<open>std::path\<close> splits them into (Unix). The file system is a record: what
  \<open>canonicalize\<close> makes of a path, and what reading the file at a canonical place gives. The template engine, the
  YAML parser and the process environment are the record \<open>engine\<close>.
\<close>

section \<open>Model\<close>

subsection \<open>Paths and the sandbox (\<open>sandbox.rs\<close>)\<close>

datatype Component = RootDir | CurDir | ParentDir | Normal string

type_synonym path = "Component list"

fun segments :: "string \<Rightarrow> string \<Rightarrow> string list" where
  "segments acc [] = [rev acc]"
| "segments acc (c # cs) = (if c = CHR ''/'' then rev acc # segments [] cs else segments (c # acc) cs)"

definition component_of :: "string \<Rightarrow> Component option" where
  "component_of s = (if s = [] \<or> s = ''.'' then None else if s = ''..'' then Some ParentDir else Some (Normal s))"

text \<open>\<open>Path::components\<close>: repeated separators and inner dots vanish, a leading dot stays.\<close>

definition path_components :: "string \<Rightarrow> path" where
  "path_components s =
     (if starts_with s ''/'' then [RootDir] else if hd (segments [] s) = ''.'' then [CurDir] else [])
     @ List.map_filter component_of (segments [] s)"

definition is_absolute :: "path \<Rightarrow> bool" where
  "is_absolute p = (case p of RootDir # _ \<Rightarrow> True | _ \<Rightarrow> False)"

definition path_join :: "path \<Rightarrow> path \<Rightarrow> path" where
  "path_join base rel = (if is_absolute rel then rel else if base = [] then rel else base @ dropWhile (\<lambda>c. c = CurDir) rel)"

definition path_starts_with :: "path \<Rightarrow> path \<Rightarrow> bool" where
  "path_starts_with p base = (take (length base) p = base)"

definition component_text :: "Component \<Rightarrow> string" where
  "component_text c = (case c of RootDir \<Rightarrow> [] | CurDir \<Rightarrow> ''.'' | ParentDir \<Rightarrow> ''..'' | Normal s \<Rightarrow> s)"

definition show_path :: "path \<Rightarrow> string" where
  "show_path p = (if p = [RootDir] then ''/'' else join ''/'' (map component_text p))"

record files =
  fs_canonicalize :: "path \<Rightarrow> path option"
  fs_content :: "path \<Rightarrow> string + string"

definition read_to_string :: "files \<Rightarrow> path \<Rightarrow> string + string" where
  "read_to_string fs p = (case fs_canonicalize fs p of
       None \<Rightarrow> Inl ''No such file or directory (os error 2)''
     | Some c \<Rightarrow> fs_content fs c)"

record SandboxError =
  sb_spec :: string
  sb_base :: string

definition sandbox_error :: "path \<Rightarrow> string \<Rightarrow> SandboxError" where
  "sandbox_error base spec = \<lparr>sb_spec = spec, sb_base = show_path base\<rparr>"

definition reject_bad_spec :: "path \<Rightarrow> string \<Rightarrow> SandboxError + unit" where
  "reject_bad_spec base rel =
     (if is_absolute (path_components rel) then Inl (sandbox_error base rel)
      else if list_ex (\<lambda>c. c = ParentDir \<or> c = RootDir) (path_components rel) then Inl (sandbox_error base rel)
      else Inr ())"

text \<open>The ancestors of a path below itself, nearest first: a root or an empty relative path is the last.\<close>

fun nearest_existing :: "files \<Rightarrow> path \<Rightarrow> nat \<Rightarrow> path option" where
  "nearest_existing fs p 0 = (if is_absolute p then None else map_option (\<lambda>c. path_join c p) (fs_canonicalize fs []))"
| "nearest_existing fs p (Suc n) = (case fs_canonicalize fs (take (Suc n) p) of
     Some canon \<Rightarrow> Some (path_join canon (drop (Suc n) p))
   | None \<Rightarrow> nearest_existing fs p n)"

definition canonicalize_existing :: "files \<Rightarrow> path \<Rightarrow> path option" where
  "canonicalize_existing fs p = (case fs_canonicalize fs p of
       Some c \<Rightarrow> Some c
     | None \<Rightarrow> (case length p of 0 \<Rightarrow> None | Suc n \<Rightarrow> nearest_existing fs p n))"

definition assert_within :: "files \<Rightarrow> path \<Rightarrow> path \<Rightarrow> string \<Rightarrow> SandboxError + unit" where
  "assert_within fs base p spec =
     (let canonical_base = unwrap_or (fs_canonicalize fs base) base
      in case canonicalize_existing fs p of
           Some canonical \<Rightarrow> if path_starts_with canonical canonical_base then Inr () else Inl (sandbox_error base spec)
         | None \<Rightarrow> Inr ())"

definition resolve_within :: "files \<Rightarrow> path \<Rightarrow> string \<Rightarrow> SandboxError + path" where
  "resolve_within fs base rel = (case reject_bad_spec base rel of
       Inl e \<Rightarrow> Inl e
     | Inr _ \<Rightarrow> (let joined = path_join base (path_components rel)
         in case assert_within fs base joined rel of Inl e \<Rightarrow> Inl e | Inr _ \<Rightarrow> Inr joined))"

subsection \<open>Authored turns (\<open>config_history.rs\<close>, \<open>config.rs\<close>)\<close>

record ToolCallSpec =
  tcs_id :: "string option"
  tcs_name :: string
  tcs_arguments :: json

datatype ContentBlockSpec = TextSpec string | ThinkingSpec string "string option"

datatype MessageContentSpec = TextContent string | BlocksContent "ContentBlockSpec list"

record Message =
  mg_role :: ChatRole
  mg_content :: "MessageContentSpec option"
  mg_tool_calls :: "ToolCallSpec list"
  mg_tool_call_id :: "string option"

datatype PromptEntry = Marker | Turn Message

datatype HistorySpec = FileHistory string | Inline "Message list"

record Prompt =
  pt_id :: string
  pt_template :: "string option"
  pt_messages :: "PromptEntry list option"

definition turn_problem :: "Message \<Rightarrow> string option" where
  "turn_problem m =
     (if mg_content m = None \<and> mg_tool_calls m = []
      then Some (''a turn needs `content`, `tool_calls`, or both'')
      else if mg_tool_calls m \<noteq> [] \<and> mg_role m \<noteq> Assistant
      then Some (''`tool_calls` belongs on an `assistant` turn, not '' @ backtick (role_as_str (mg_role m)))
      else if mg_tool_call_id m \<noteq> None \<and> mg_role m \<noteq> Tool
      then Some (''`tool_call_id` belongs on a `tool` turn, not '' @ backtick (role_as_str (mg_role m)))
      else None)"

subsection \<open>Rendering (\<open>render.rs\<close>)\<close>

record engine =
  en_render_str :: "string \<Rightarrow> json \<Rightarrow> string + string"
  en_env_vars :: "(string \<times> string) list"
  en_yaml_messages :: "string \<Rightarrow> string + Message list"

datatype RenderError =
    TemplateError string
  | IoError string string
  | Sandboxed SandboxError
  | BadPrompt string
  | BadTranscript string string
  | DuplicateMarker string
  | EmptyTranscript string
  | BadTurn string

definition tick :: "string \<Rightarrow> string" where
  "tick s = [CHR 0x27] @ s @ [CHR 0x27]"

definition render_error_text :: "RenderError \<Rightarrow> string" where
  "render_error_text e = (case e of
       TemplateError m \<Rightarrow> ''template error: '' @ m
     | IoError p src \<Rightarrow> ''loading '' @ p @ '': '' @ src
     | Sandboxed s \<Rightarrow> tick (sb_spec s) @ '' refuses to read outside the suite directory (base: '' @ sb_base s @ '')''
     | BadPrompt p \<Rightarrow> ''prompt '' @ tick p @ '' must set exactly one of '' @ tick ''template'' @ '' or '' @ tick ''messages''
     | BadTranscript p m \<Rightarrow> ''history transcript '' @ p @ '': '' @ m
     | DuplicateMarker p \<Rightarrow> ''prompt '' @ tick p @ '' has more than one `history` marker; a prompt may have at most one''
     | EmptyTranscript p \<Rightarrow> ''prompt '' @ tick p @ '' rendered to an empty transcript: it has no turns and the case supplied no history''
     | BadTurn m \<Rightarrow> ''history turn: '' @ m)"

definition env_object :: "engine \<Rightarrow> json" where
  "env_object en = JObject (map (map_prod id JString) (en_env_vars en))"

definition env_placeholder_object :: "engine \<Rightarrow> json" where
  "env_placeholder_object en = JObject (map (\<lambda>(k, _). (k, JString (''${env:'' @ k @ ''}''))) (en_env_vars en))"

definition render_vars :: "engine \<Rightarrow> (string \<times> Val) list \<Rightarrow> RenderError + (string \<times> json) list" where
  "render_vars en vars =
     (let base = JObject [(''env'', env_object en)]
      in collect_results (map (\<lambda>(k, v). map_sum TemplateError (Pair k) (render_val (en_render_str en) v base)) vars))"

definition context_with_env :: "engine \<Rightarrow> (string \<times> json) list \<Rightarrow> json" where
  "context_with_env en vars = JObject (members_insert ''env'' (env_object en) vars)"

definition load_content :: "files \<Rightarrow> path \<Rightarrow> string \<Rightarrow> RenderError + string" where
  "load_content fs base spec = (case strip_prefix spec ''file://'' of
       None \<Rightarrow> Inr spec
     | Some rel \<Rightarrow> (case resolve_within fs base rel of
          Inl e \<Rightarrow> Inl (Sandboxed e)
        | Inr p \<Rightarrow> map_sum (IoError (show_path p)) id (read_to_string fs p)))"

definition render_loaded :: "files \<Rightarrow> engine \<Rightarrow> path \<Rightarrow> json \<Rightarrow> string \<Rightarrow> RenderError + string" where
  "render_loaded fs en base ctx spec = (case load_content fs base spec of
       Inl e \<Rightarrow> Inl e
     | Inr source \<Rightarrow> map_sum TemplateError id (en_render_str en source ctx))"

definition render_content :: "files \<Rightarrow> engine \<Rightarrow> path \<Rightarrow> json \<Rightarrow> MessageContentSpec \<Rightarrow> RenderError + MessageContent" where
  "render_content fs en base ctx spec = (case spec of
       TextContent s \<Rightarrow> map_sum id MText (render_loaded fs en base ctx s)
     | BlocksContent bs \<Rightarrow> map_sum id Blocks (collect_results (map (\<lambda>b. case b of
          TextSpec t \<Rightarrow> map_sum id TextBlock (render_loaded fs en base ctx t)
        | ThinkingSpec t sig \<Rightarrow> Inr (Thinking t sig)) bs)))"

definition render_tool_call :: "engine \<Rightarrow> json \<Rightarrow> ToolCallSpec \<Rightarrow> RenderError + ToolCall" where
  "render_tool_call en ctx t = (case render_json (en_render_str en) ctx (tcs_arguments t) of
       Inl e \<Rightarrow> Inl (TemplateError e)
     | Inr rendered \<Rightarrow> Inr \<lparr>tc_id = tcs_id t, tc_name = tcs_name t,
         tc_arguments = (case rendered of JNull \<Rightarrow> JObject [] | _ \<Rightarrow> rendered)\<rparr>)"

definition render_message :: "files \<Rightarrow> engine \<Rightarrow> path \<Rightarrow> json \<Rightarrow> Message \<Rightarrow> RenderError + ChatMessage" where
  "render_message fs en base ctx m = (case turn_problem m of
       Some problem \<Rightarrow> Inl (BadTurn problem)
     | None \<Rightarrow> (case (case mg_content m of Some spec \<Rightarrow> render_content fs en base ctx spec | None \<Rightarrow> Inr (MText [])) of
          Inl e \<Rightarrow> Inl e
        | Inr content \<Rightarrow> (case collect_results (map (render_tool_call en ctx) (mg_tool_calls m)) of
             Inl e \<Rightarrow> Inl e
           | Inr tcs \<Rightarrow> Inr \<lparr>cm_role = mg_role m, cm_content = content, cm_tool_calls = tcs, cm_tool_call_id = mg_tool_call_id m\<rparr>)))"

definition render_messages :: "files \<Rightarrow> engine \<Rightarrow> path \<Rightarrow> json \<Rightarrow> Message list \<Rightarrow> RenderError + ChatMessage list" where
  "render_messages fs en base ctx ms = collect_results (map (render_message fs en base ctx) ms)"

definition resolve_history :: "files \<Rightarrow> engine \<Rightarrow> path \<Rightarrow> HistorySpec \<Rightarrow> json \<Rightarrow> RenderError + ChatMessage list" where
  "resolve_history fs en base spec ctx = (case spec of
       Inline turns \<Rightarrow> render_messages fs en base ctx turns
     | FileHistory p \<Rightarrow> (case load_content fs base p of
          Inl e \<Rightarrow> Inl e
        | Inr text \<Rightarrow> (case en_yaml_messages en text of
             Inl m \<Rightarrow> Inl (BadTranscript p m)
           | Inr turns \<Rightarrow> render_messages fs en base ctx turns)))"

text \<open>The loop over a prompt's entries, with what was rendered and where the marker stood.\<close>

fun render_entries ::
  "files \<Rightarrow> engine \<Rightarrow> path \<Rightarrow> json \<Rightarrow> string \<Rightarrow> PromptEntry list \<Rightarrow> ChatMessage list \<Rightarrow> nat option
   \<Rightarrow> RenderError + ChatMessage list \<times> nat option" where
  "render_entries fs en base ctx pid [] rendered marker_at = Inr (rendered, marker_at)"
| "render_entries fs en base ctx pid (Turn m # es) rendered marker_at = (case render_message fs en base ctx m of
     Inl e \<Rightarrow> Inl e
   | Inr cm \<Rightarrow> render_entries fs en base ctx pid es (rendered @ [cm]) marker_at)"
| "render_entries fs en base ctx pid (Marker # es) rendered marker_at =
     (if marker_at \<noteq> None then Inl (DuplicateMarker pid)
      else render_entries fs en base ctx pid es rendered (Some (length rendered)))"

definition message_text :: "ChatRole \<Rightarrow> string \<Rightarrow> ChatMessage" where
  "message_text role content = \<lparr>cm_role = role, cm_content = MText content, cm_tool_calls = [], cm_tool_call_id = None\<rparr>"

definition splice_at :: "nat \<Rightarrow> 'a list \<Rightarrow> 'a list \<Rightarrow> 'a list" where
  "splice_at pos ys xs = take pos xs @ ys @ drop pos xs"

definition render_prompt_with_history ::
  "files \<Rightarrow> engine \<Rightarrow> path \<Rightarrow> Prompt \<Rightarrow> json \<Rightarrow> ChatMessage list \<Rightarrow> RenderError + RenderedPrompt" where
  "render_prompt_with_history fs en base p ctx history = (case (pt_template p, pt_messages p) of
       (Some template, None) \<Rightarrow> (case render_loaded fs en base ctx template of
          Inl e \<Rightarrow> Inl e
        | Inr text \<Rightarrow> if history = [] then Inr (PromptText text)
                       else Inr (PromptMessages (history @ [message_text User text])))
     | (None, Some entries) \<Rightarrow> (case render_entries fs en base ctx (pt_id p) entries [] None of
          Inl e \<Rightarrow> Inl e
        | Inr (rendered, marker_at) \<Rightarrow>
            (let pos = (case marker_at of Some n \<Rightarrow> n
                       | None \<Rightarrow> length (takeWhile (\<lambda>m. cm_role m = System) rendered));
                 rendered = splice_at pos history rendered
             in if rendered = [] then Inl (EmptyTranscript (pt_id p)) else Inr (PromptMessages rendered)))
     | _ \<Rightarrow> Inl (BadPrompt (pt_id p)))"

section \<open>The sandbox\<close>

abbreviation suite_root :: "files \<Rightarrow> path \<Rightarrow> path" where
  "suite_root fs base \<equiv> unwrap_or (fs_canonicalize fs base) base"

lemma resolved:
  assumes "resolve_within fs base rel = Inr p"
  shows "p = path_join base (path_components rel)" "ParentDir \<notin> set (path_components rel)" "RootDir \<notin> set (path_components rel)"
    "\<And>c. canonicalize_existing fs p = Some c \<Longrightarrow> path_starts_with c (suite_root fs base)"
  using assms
  by (auto simp: resolve_within_def reject_bad_spec_def assert_within_def Let_def list_ex_iff split: sum.splits if_splits option.splits)

lemma resolved_canonical:
  "resolve_within fs base rel = Inr p \<Longrightarrow> fs_canonicalize fs p = Some c \<Longrightarrow> path_starts_with c (suite_root fs base)"
  using resolved(4) by (simp add: canonicalize_existing_def)

text \<open>A file reference that the sandbox accepts names a place below the suite directory: it has no parent or root
  component, and when it exists, links followed, it is inside the suite's canonical directory.\<close>

theorem sandbox_confines:
  assumes "resolve_within fs base rel = Inr p"
  shows "p = path_join base (path_components rel) \<and> {ParentDir, RootDir} \<inter> set (path_components rel) = {}
    \<and> (\<forall>c. fs_canonicalize fs p = Some c \<longrightarrow> path_starts_with c (suite_root fs base))"
  using resolved [OF assms] resolved_canonical [OF assms] by auto

text \<open>Two file systems that agree on what lies in the suite's directory and on how paths resolve.\<close>

definition same_inside :: "path \<Rightarrow> files \<Rightarrow> files \<Rightarrow> bool" where
  "same_inside base fs fs' \<longleftrightarrow> fs_canonicalize fs = fs_canonicalize fs'
     \<and> (\<forall>c. path_starts_with c (suite_root fs base) \<longrightarrow> fs_content fs c = fs_content fs' c)"

lemma resolve_within_cong: "fs_canonicalize fs = fs_canonicalize fs' \<Longrightarrow> resolve_within fs base rel = resolve_within fs' base rel"
proof -
  assume same: "fs_canonicalize fs = fs_canonicalize fs'"
  have near: "nearest_existing fs p n = nearest_existing fs' p n" for p n
    by (induction n) (simp_all add: same split: option.split)
  show ?thesis unfolding resolve_within_def assert_within_def canonicalize_existing_def same near ..
qed

lemma load_content_inside:
  assumes "same_inside base fs fs'"
  shows "load_content fs base spec = load_content fs' base spec"
proof -
  have same: "fs_canonicalize fs = fs_canonicalize fs'" using assms by (simp add: same_inside_def)
  have "read_to_string fs p = read_to_string fs' p" if "resolve_within fs base rel = Inr p" for rel p
    using resolved_canonical [OF that] assms by (auto simp: read_to_string_def same_inside_def split: option.splits)
  then show ?thesis using resolve_within_cong [OF same]
    by (auto simp: load_content_def split: option.split sum.split)
qed

lemma render_message_inside:
  assumes "same_inside base fs fs'"
  shows "render_message fs en base ctx = render_message fs' en base ctx"
proof -
  have loaded: "render_loaded fs en base ctx = render_loaded fs' en base ctx"
    using load_content_inside [OF assms] by (intro ext) (simp add: render_loaded_def)
  have content: "render_content fs en base ctx = render_content fs' en base ctx"
    unfolding render_content_def loaded ..
  show ?thesis unfolding render_message_def content ..
qed

lemma render_entries_inside:
  assumes "same_inside base fs fs'"
  shows "render_entries fs en base ctx pid es rendered pos = render_entries fs' en base ctx pid es rendered pos"
proof (induction es arbitrary: rendered pos)
  case (Cons e es)
  then show ?case by (cases e) (simp_all add: render_message_inside [OF assms] split: sum.split)
qed simp


text \<open>A suite in \<open>/s\<close> beside a secret in \<open>/x\<close>, with a link from the suite to the secret.\<close>

definition demo_files :: "string \<Rightarrow> files" where
  "demo_files secret = \<lparr>fs_canonicalize = (\<lambda>p. if p = [RootDir, Normal ''s'', Normal ''link''] then Some [RootDir, Normal ''x''] else Some p),
     fs_content = (\<lambda>c. if c = [RootDir, Normal ''x''] then Inr secret else Inr ''hi'')\<rparr>"

definition demo_engine :: engine where
  "demo_engine = \<lparr>en_render_str = (\<lambda>t _. Inr t), en_env_vars = [], en_yaml_messages = (\<lambda>_. Inr [])\<rparr>"

definition demo_prompt :: "string \<Rightarrow> Prompt" where
  "demo_prompt t = \<lparr>pt_id = ''p'', pt_template = Some t, pt_messages = None\<rparr>"

theorem sandbox_confines_witness:
  "resolve_within (demo_files []) [RootDir, Normal ''s''] ''a'' = Inr [RootDir, Normal ''s'', Normal ''a'']
   \<and> path_starts_with [RootDir, Normal ''s'', Normal ''a''] [RootDir, Normal ''s'']
   \<and> (\<exists>e. resolve_within (demo_files []) [RootDir, Normal ''s''] ''link'' = Inl e)"
proof -
  have r: "resolve_within (demo_files []) [RootDir, Normal ''s''] ''a'' = Inr [RootDir, Normal ''s'', Normal ''a'']"
    "\<exists>e. resolve_within (demo_files []) [RootDir, Normal ''s''] ''link'' = Inl e"
    by code_simp (simp add: resolve_within_def reject_bad_spec_def path_components_def component_of_def List.map_filter_simps
        is_absolute_def assert_within_def canonicalize_existing_def path_join_def demo_files_def path_starts_with_def Let_def)
  have c: "fs_canonicalize (demo_files []) [RootDir, Normal ''s'', Normal ''a''] = Some [RootDir, Normal ''s'', Normal ''a'']"
    "suite_root (demo_files []) [RootDir, Normal ''s''] = [RootDir, Normal ''s'']"
    by (simp_all add: demo_files_def)
  have "path_starts_with [RootDir, Normal ''s'', Normal ''a''] [RootDir, Normal ''s'']"
    using sandbox_confines [OF r(1), THEN conjunct2, THEN conjunct2, rule_format, OF c(1)] by (simp only: c(2))
  then show ?thesis using r by blast
qed



section \<open>Where the history goes\<close>

definition turns_of :: "PromptEntry list \<Rightarrow> Message list" where
  "turns_of es = List.map_filter (\<lambda>e. case e of Turn m \<Rightarrow> Some m | Marker \<Rightarrow> None) es"

lemma turns_of_simps [simp]:
  "turns_of [] = []" "turns_of (Turn m # es) = m # turns_of es" "turns_of (Marker # es) = turns_of es"
  by (simp_all add: turns_of_def List.map_filter_simps)

lemma render_entries_no_marker:
  "Marker \<notin> set es \<Longrightarrow> render_entries fs en base ctx pid es rendered at0
   = map_sum id (\<lambda>cms. (rendered @ cms, at0)) (render_messages fs en base ctx (turns_of es))"
proof (induction es arbitrary: rendered)
  case (Cons e es)
  then obtain m where e: "e = Turn m" by (cases e) auto
  show ?case using Cons
    by (cases "render_message fs en base ctx m"; cases "render_messages fs en base ctx (turns_of es)")
      (auto simp: e render_messages_def)
qed (simp add: render_messages_def)

lemma render_entries_append:
  "render_entries fs en base ctx pid (es @ es') rendered at0 = (case render_entries fs en base ctx pid es rendered at0 of
     Inl e \<Rightarrow> Inl e | Inr (r, at1) \<Rightarrow> render_entries fs en base ctx pid es' r at1)"
  by (induction fs en base ctx pid es rendered at0 rule: render_entries.induct) (auto split: sum.split)

lemma render_entries_marker:
  assumes "Marker \<notin> set es1" and "Marker \<notin> set es2"
  shows "render_entries fs en base ctx pid (es1 @ Marker # es2) [] None
    = (case render_messages fs en base ctx (turns_of es1) of Inl e \<Rightarrow> Inl e
       | Inr pre \<Rightarrow> map_sum id (\<lambda>post. (pre @ post, Some (length pre))) (render_messages fs en base ctx (turns_of es2)))"
  using assms by (simp add: render_entries_append render_entries_no_marker split: sum.split)

lemma render_entries_two_markers:
  assumes "Marker \<notin> set es1" and "Marker \<in> set es2"
  shows "\<exists>e. render_entries fs en base ctx pid (es1 @ Marker # es2) [] None = Inl e"
proof -
  obtain a b where "es2 = a @ Marker # b" "Marker \<notin> set a" using split_list_first [OF assms(2)] by blast
  then show ?thesis using assms(1)
    by (auto simp: render_entries_append render_entries_no_marker map_sum_Inr split: sum.split)
qed

text \<open>A prompt of turns renders to its turns, in order, with the case's history in one place: at the history marker
  when there is one (two are an error), otherwise after the leading system turns. Nothing is dropped, repeated
  or reordered.\<close>

theorem history_placement:
  assumes "pt_messages p = Some entries" and "render_prompt_with_history fs en base p ctx history = Inr r"
  shows "\<exists>pre post. r = PromptMessages (pre @ history @ post)
    \<and> (\<exists>es1 es2. entries = es1 @ Marker # es2 \<and> Marker \<notin> set es1 \<union> set es2
          \<and> render_messages fs en base ctx (turns_of es1) = Inr pre \<and> render_messages fs en base ctx (turns_of es2) = Inr post
       \<or> Marker \<notin> set entries \<and> render_messages fs en base ctx (turns_of entries) = Inr (pre @ post)
          \<and> pre = takeWhile (\<lambda>m. cm_role m = System) (pre @ post))"
proof (cases "Marker \<in> set entries")
  case False
  let ?sys = "takeWhile (\<lambda>m. cm_role m = System)"
  obtain ms where ms: "render_messages fs en base ctx (turns_of entries) = Inr ms"
      "r = PromptMessages (splice_at (length (?sys ms)) history ms)"
    using assms False
    by (auto simp: render_prompt_with_history_def render_entries_no_marker Let_def map_sum_Inr
        split: option.splits sum.splits if_splits)
  have take: "take (length (?sys ms)) ms = ?sys ms" by (rule takeWhile_eq_take [symmetric])
  have drop: "drop (length (?sys ms)) ms = dropWhile (\<lambda>m. cm_role m = System) ms" by (rule dropWhile_eq_drop [symmetric])
  show ?thesis using False ms
    by (intro exI [of _ "?sys ms"] exI [of _ "dropWhile (\<lambda>m. cm_role m = System) ms"])
      (simp add: splice_at_def take drop)
next
  case True
  then obtain es1 es2 where es: "entries = es1 @ Marker # es2" "Marker \<notin> set es1" using split_list_first by metis
  have es2: "Marker \<notin> set es2"
    using assms render_entries_two_markers [OF es(2), of es2 fs en base ctx "pt_id p"]
    by (auto simp: render_prompt_with_history_def es split: option.splits)
  obtain pre post where m: "render_messages fs en base ctx (turns_of es1) = Inr pre" "render_messages fs en base ctx (turns_of es2) = Inr post"
      "r = PromptMessages (splice_at (length pre) history (pre @ post))"
    using assms by (auto simp: render_prompt_with_history_def es(1) render_entries_marker [OF es(2) es2] Let_def map_sum_Inr
        split: option.splits sum.splits if_splits)
  show ?thesis using es es2 m by (intro exI [of _ pre] exI [of _ post]) (auto simp: splice_at_def)
qed

definition demo_turn :: "ChatRole \<Rightarrow> Message" where
  "demo_turn role = \<lparr>mg_role = role, mg_content = Some (TextContent ''x''), mg_tool_calls = [], mg_tool_call_id = None\<rparr>"

theorem history_placement_witness:
  "\<exists>pre post. render_prompt_with_history (demo_files []) demo_engine [] \<lparr>pt_id = ''p'', pt_template = None,
      pt_messages = Some [Turn (demo_turn System), Turn (demo_turn User)]\<rparr> JNull [message_text Assistant ''h'']
     = Inr (PromptMessages (pre @ [message_text Assistant ''h''] @ post))"
proof -
  let ?p = "\<lparr>pt_id = ''p'', pt_template = None, pt_messages = Some [Turn (demo_turn System), Turn (demo_turn User)]\<rparr>"
  obtain r where r: "render_prompt_with_history (demo_files []) demo_engine [] ?p JNull [message_text Assistant ''h''] = Inr r"
    by (simp add: render_prompt_with_history_def render_message_def demo_turn_def turn_problem_def render_content_def render_loaded_def
        load_content_def demo_engine_def Let_def splice_at_def)
  from history_placement [OF _ r] r show ?thesis by fastforce
qed

end
