(* ===== verification/RunnerCell.thy ===== *)
theory RunnerCell
  imports RunnerAsserts Render
begin

text \<open>
  One cell of the matrix (\<open>crates/domarinn-core/src/runner_cell.rs\<close>, \<open>runner_result.rs\<close>): render the case, ask the
  provider chain, evaluate the assertions, and report a \<open>CaseResult\<close>; with the identity of a cell
  (\<open>result.rs\<close> of \<open>domarinn-types\<close>) and the digests of what was asked and how it was graded (\<open>digests.rs\<close>).

  What a cell takes from the suite and from the libraries is the record \<open>CellCtx\<close>; the encodings that \<open>serde\<close>
  derives for an assertion and for a number are its fields. A panic is the result \<open>None\<close>.
\<close>

section \<open>Model\<close>

subsection \<open>Test cases (\<open>config.rs\<close>)\<close>

datatype ExpectFail = Flag bool | Reason string

record TestCase = TestSelector +
  te_description :: "string option"
  te_vars :: "(string \<times> Val) list"
  te_matrix :: "(string \<times> Val list) list"
  te_matrix_id :: "string option"
  te_assert :: "Assert list"
  te_threshold :: "f64 option"
  te_cache_salt :: "string option"
  te_history :: "HistorySpec option"
  te_expect_fail :: "ExpectFail option"

definition expect_fail_enabled :: "TestCase \<Rightarrow> bool" where
  "expect_fail_enabled t = (case te_expect_fail t of Some (Flag b) \<Rightarrow> b | Some (Reason _) \<Rightarrow> True | None \<Rightarrow> False)"

definition expect_fail_reason :: "TestCase \<Rightarrow> string option" where
  "expect_fail_reason t = (case te_expect_fail t of Some (Reason r) \<Rightarrow> Some r | _ \<Rightarrow> None)"

subsection \<open>Results (\<open>result.rs\<close>)\<close>

record CellKey =
  ck_provider_id :: string
  ck_prompt_id :: "string option"
  ck_test_id :: string
  ck_repeat :: u32

text \<open>\<open>u32::to_le_bytes\<close>.\<close>

definition le_bytes :: "u32 \<Rightarrow> string" where
  "le_bytes n = map (\<lambda>i. char_of (n div 256 ^ i mod 256)) [0..<4]"

definition case_key :: "hashing \<Rightarrow> CellKey \<Rightarrow> string" where
  "case_key h c =
     (let digest = sha256 h (ck_provider_id c @ [CHR 0x00] @ unwrap_or (ck_prompt_id c) [] @ [CHR 0x00]
            @ ck_test_id c @ [CHR 0x00] @ le_bytes (ck_repeat c))
      in hex_lower (take 8 digest))"

record CaseResult =
  ca_cell :: CellKey
  ca_case_key :: string
  ca_name :: "string option"
  ca_tags :: "string list"
  ca_vars :: "(string \<times> json) list"
  ca_status :: CaseStatus
  ca_score :: f64
  ca_output :: "Output option"
  ca_prompt :: "RenderedPrompt option"
  ca_request :: "json option"
  ca_stop_reason :: "string option"
  ca_model :: "string option"
  ca_tool_calls :: "ToolCall list"
  ca_raw :: "json option"
  ca_asserts :: "AssertResult list"
  ca_usage :: "TokenUsage option"
  ca_cost_usd :: "f64 option"
  ca_latency_ms :: u64
  ca_wall_ms :: "u64 option"
  ca_cached :: bool
  ca_cache_key :: "string option"
  ca_attempts :: u32
  ca_prompt_digest :: "string option"
  ca_provider_digest :: "string option"
  ca_assert_digest :: "string option"
  ca_error :: "string option"
  ca_error_details :: "json option"
  ca_error_class :: "ErrorClass option"
  ca_reasoning :: "string option"
  ca_empty_reason :: "EmptyReason option"
  ca_answered_by_provider_id :: "string option"
  ca_fallback_attempts :: "FallbackAttempt list"
  ca_expect_fail_reason :: "string option"

subsection \<open>Digests (\<open>digests.rs\<close>)\<close>

definition prompt_digest :: "'w env \<Rightarrow> ProviderRequest \<Rightarrow> string" where
  "prompt_digest env req = digest env (JObject
     [(''prompt'', case rq_prompt req of None \<Rightarrow> JNull | Some p \<Rightarrow> prompt_json p),
      (''vars'', JObject (rq_vars req)), (''params'', JObject (rq_params req)),
      (''case_salt'', case rq_case_salt req of None \<Rightarrow> JNull | Some s \<Rightarrow> JString s)])"

definition assert_member :: "'w env \<Rightarrow> (f64 \<Rightarrow> json) \<Rightarrow> AssertResult \<Rightarrow> json \<Rightarrow> string" where
  "assert_member env fj a criteria = digest env (JObject
     [(''kind'', JString (ar_kind a)), (''weight'', fj (ar_weight a)), (''criteria'', criteria)])"

fun assert_members :: "'w env \<Rightarrow> (f64 \<Rightarrow> json) \<Rightarrow> AssertResult list \<Rightarrow> string list option" where
  "assert_members env fj [] = Some []"
| "assert_members env fj (a # as) = Option.bind (ar_criteria a) (\<lambda>criteria.
     map_option ((#) (assert_member env fj a criteria)) (assert_members env fj as))"

definition assert_digest :: "'w env \<Rightarrow> (f64 \<Rightarrow> json) \<Rightarrow> AssertResult list \<Rightarrow> f64 option \<Rightarrow> bool \<Rightarrow> string option" where
  "assert_digest env fj asserts threshold expect_fail = map_option (\<lambda>members.
     (let top = [(''asserts'', JArray (map JString (sort members))),
                 (''threshold'', case threshold of None \<Rightarrow> JNull | Some t \<Rightarrow> fj t)];
          top = (if expect_fail then members_insert ''expect_fail'' (JBool True) top else top)
      in digest env (JObject top))) (assert_members env fj asserts)"

subsection \<open>The cell (\<open>runner_cell.rs\<close>)\<close>

record ('c, 'w) CellCtx =
  cl_env :: "'w env"
  cl_files :: files
  cl_engine :: engine
  cl_libs :: libs
  cl_to_value :: "AssertKind \<Rightarrow> json option"
  cl_f64_json :: "f64 \<Rightarrow> json"
  cl_cache :: "'c CacheBackend"
  cl_grader :: "('c, 'w) AssertGrader option"
  cl_base_dir :: path
  cl_cache_mode :: CacheMode
  cl_include_raw :: bool
  cl_retry_cfg :: RetryPolicy
  cl_grader_cache :: bool
  cl_skip_on_empty_reason :: "string list"
  cl_tools :: "ToolDef list"
  cl_policy :: EmptyPolicy
  cl_fallback :: FallbackPolicy
  cl_short_circuit :: bool

record CaseInputs =
  ci_prompt :: "RenderedPrompt option"
  ci_vars :: "(string \<times> json) list"
  ci_request :: "json option"
  ci_prompt_digest :: "string option"
  ci_provider_digest :: "string option"
  ci_answered_by :: "string option"
  ci_fallback_attempts :: "FallbackAttempt list"

definition no_inputs :: CaseInputs where
  "no_inputs = \<lparr>ci_prompt = None, ci_vars = [], ci_request = None, ci_prompt_digest = None, ci_provider_digest = None,
     ci_answered_by = None, ci_fallback_attempts = []\<rparr>"

definition error_case ::
  "'w env \<Rightarrow> CellKey \<Rightarrow> string \<Rightarrow> string option \<Rightarrow> TestCase \<Rightarrow> CallFailure \<Rightarrow> u64 \<Rightarrow> CaseInputs \<Rightarrow> CaseResult" where
  "error_case env cell key name test failure wall_ms inputs =
     \<lparr>ca_cell = cell, ca_case_key = key, ca_name = name, ca_tags = ts_tags test, ca_vars = ci_vars inputs,
      ca_status = Error, ca_score = 0, ca_output = None, ca_prompt = ci_prompt inputs, ca_request = ci_request inputs,
      ca_stop_reason = None, ca_model = None, ca_tool_calls = [], ca_raw = None, ca_asserts = [], ca_usage = None,
      ca_cost_usd = None, ca_latency_ms = 0, ca_wall_ms = Some wall_ms, ca_cached = False,
      ca_cache_key = map_option show_key (cf_cache_key failure), ca_attempts = cf_attempts failure,
      ca_prompt_digest = ci_prompt_digest inputs, ca_provider_digest = ci_provider_digest inputs, ca_assert_digest = None,
      ca_error = Some (cf_message failure),
      ca_error_details = json_to_persist (nv_serde env) True (cf_details failure),
      ca_error_class = Some (cf_class failure), ca_reasoning = None, ca_empty_reason = None,
      ca_answered_by_provider_id = ci_answered_by inputs, ca_fallback_attempts = ci_fallback_attempts inputs,
      ca_expect_fail_reason = expect_fail_reason test\<rparr>"

definition reasoning_is_skippable :: "EmptyReason option \<Rightarrow> string list \<Rightarrow> bool" where
  "reasoning_is_skippable reason skip = (case reason of None \<Rightarrow> False | Some r \<Rightarrow> list_ex (\<lambda>s. s = r) skip)"

definition cell_of :: "'w Provider \<Rightarrow> Prompt option \<Rightarrow> TestCase \<Rightarrow> u32 \<Rightarrow> CellKey" where
  "cell_of provider prompt test rep = \<lparr>ck_provider_id = pv_id provider, ck_prompt_id = map_option pt_id prompt,
     ck_test_id = unwrap_or (ts_id test) [], ck_repeat = rep\<rparr>"

text \<open>Elapsed milliseconds, truncated to 64 bits.\<close>

definition elapsed_ms :: "'w env \<Rightarrow> 'w \<Rightarrow> 'w \<Rightarrow> u64" where
  "elapsed_ms env before after = as_millis (rt_now (nv_runtime env) after - rt_now (nv_runtime env) before) mod 2 ^ 64"

definition case_status :: "string option \<Rightarrow> EmptyReason option \<Rightarrow> string list \<Rightarrow> bool \<Rightarrow> bool \<Rightarrow> CaseStatus" where
  "case_status assert_error empty_reason skip passed expect_fail =
     (if assert_error \<noteq> None then Error
      else if reasoning_is_skippable empty_reason skip then Skip
      else case (passed, expect_fail) of
          (True, False) \<Rightarrow> Pass | (False, False) \<Rightarrow> Fail | (False, True) \<Rightarrow> XFail | (True, True) \<Rightarrow> XPass)"

text \<open>The part of \<open>run_cell\<close> after the provider answered: grade and report.\<close>

definition grade_cell ::
  "('c, 'w) CellCtx \<Rightarrow> CellKey \<Rightarrow> string option \<Rightarrow> TestCase \<Rightarrow> json \<Rightarrow> CaseInputs \<Rightarrow> 'w Provider \<Rightarrow> CallOutcome \<Rightarrow> u64
   \<Rightarrow> ('c, 'w) World \<Rightarrow> CaseResult option \<times> ('c, 'w) World" where
  "grade_cell cl cell name test var_ctx inputs provider outcome wall_ms wd =
     (let env = cl_env cl;
          response = co_response outcome;
          latency_ms = unwrap_or (co_provider_latency_ms outcome) wall_ms;
          empty_reason = effective_reason (nv_serde env) (cl_policy cl) provider response;
          metrics = \<lparr>mx_latency_ms = latency_ms, mx_cost_usd = pr_cost_usd response,
            mx_total_tokens = map_option usage_total (pr_usage response),
            mx_billable_tokens = map_option billable_total (pr_usage response)\<rparr>;
          ctx = \<lparr>ax_provider_id = pv_id provider, ax_test_id = ck_test_id cell, ax_test_tags = ts_tags test, ax_libs = cl_libs cl,
            ax_to_value = cl_to_value cl, ax_grader = cl_grader cl, ax_base_dir = show_path (cl_base_dir cl),
            ax_tool_calls = pr_tool_calls response, ax_empty_reason = empty_reason, ax_cache = cl_cache cl,
            ax_cache_mode = cl_cache_mode cl, ax_grader_cache = cl_grader_cache cl, ax_repeat = ck_repeat cell,
            ax_short_circuit = cl_short_circuit cl\<rparr>;
          (evaluated, wd) = evaluate_asserts ctx (te_assert test) (pr_output response) var_ctx metrics (te_threshold test) wd
      in case evaluated of
           None \<Rightarrow> (None, wd)
         | Some (assert_results, scored, classes) \<Rightarrow>
             (let assert_error = assert_error_message assert_results;
                  verdict = case_verdict scored (te_threshold test)
              in (Some \<lparr>ca_cell = cell, ca_case_key = case_key (nv_hashing env) cell, ca_name = name, ca_tags = ts_tags test,
                   ca_vars = ci_vars inputs,
                   ca_status = case_status assert_error empty_reason (cl_skip_on_empty_reason cl) (verdict_passed verdict) (expect_fail_enabled test),
                   ca_score = verdict_score verdict, ca_output = Some (pr_output response), ca_prompt = ci_prompt inputs,
                   ca_request = ci_request inputs, ca_stop_reason = pr_stop_reason response, ca_model = pr_model response,
                   ca_tool_calls = pr_tool_calls response, ca_raw = json_to_persist (nv_serde env) (cl_include_raw cl) (pr_raw response),
                   ca_asserts = assert_results, ca_usage = pr_usage response, ca_cost_usd = pr_cost_usd response,
                   ca_latency_ms = latency_ms, ca_wall_ms = Some wall_ms, ca_cached = co_cached outcome,
                   ca_cache_key = map_option show_key (co_cache_key outcome), ca_attempts = unwrap_or (co_attempts outcome) 0,
                   ca_prompt_digest = ci_prompt_digest inputs, ca_provider_digest = ci_provider_digest inputs,
                   ca_assert_digest = assert_digest env (cl_f64_json cl) assert_results (te_threshold test) (expect_fail_enabled test),
                   ca_error = assert_error, ca_error_details = None, ca_error_class = error_most_specific classes,
                   ca_reasoning = pr_reasoning response, ca_empty_reason = empty_reason,
                   ca_answered_by_provider_id = ci_answered_by inputs, ca_fallback_attempts = ci_fallback_attempts inputs,
                   ca_expect_fail_reason = expect_fail_reason test\<rparr>, wd)))"

text \<open>The part of \<open>run_cell\<close> that asks the chain.\<close>

definition ask_cell ::
  "('c, 'w) CellCtx \<Rightarrow> 'w Provider \<Rightarrow> 'w Provider list \<Rightarrow> CellKey \<Rightarrow> string option \<Rightarrow> TestCase \<Rightarrow> json \<Rightarrow> (string \<times> json) list
   \<Rightarrow> RenderedPrompt option \<Rightarrow> ('c, 'w) World \<Rightarrow> CaseResult option \<times> ('c, 'w) World" where
  "ask_cell cl provider fallbacks cell name test var_ctx vars rendered wd =
     (let env = cl_env cl; key = case_key (nv_hashing env) cell;
          req = \<lparr>rq_prompt = rendered, rq_vars = vars, rq_params = [], rq_test = \<lparr>tm_id = ck_test_id cell, tm_tags = ts_tags test\<rparr>,
                 rq_case_salt = te_cache_salt test, rq_tools = cl_tools cl\<rparr>;
          pdigest = Some (prompt_digest env req);
          bypass_cache = has_latency_assert (te_assert test)
      in if bypass_cache \<and> cl_cache_mode cl = ReadOnlyStrict
         then (Some (error_case env cell key name test
                 (before_any_attempt CACHE_MISS (''cache-only: test '' @ tick (ck_test_id cell) @ '' has a latency assert, which always ''
                   @ ''measures a live call; there is nothing honest to replay'')) 0
                 \<lparr>ci_prompt = rendered, ci_vars = vars,
                  ci_request = (if cl_include_raw cl then json_to_persist (nv_serde env) True (pv_request_preview provider req) else None),
                  ci_prompt_digest = pdigest, ci_provider_digest = Some (provider_digest env (pv_fingerprint provider)),
                  ci_answered_by = None, ci_fallback_attempts = []\<rparr>), wd)
         else
           let chain = \<lparr>cx_cache = \<lparr>cc_backend = cl_cache cl, cc_mode = (if bypass_cache then Disabled else cl_cache_mode cl),
                   cc_repeat = ck_repeat cell, cc_policy = cl_policy cl, cc_probe_legacy = True\<rparr>,
                 cx_retry_cfg = cl_retry_cfg cl, cx_empty_policy = cl_policy cl, cx_fallback = cl_fallback cl,
                 cx_include_raw = cl_include_raw cl, cx_has_latency_assert = bypass_cache\<rparr>;
               started = wd_world wd;
               (answered, wd) = call_chain env provider fallbacks req chain wd
           in case answered of
                None \<Rightarrow> (None, wd)
              | Some oc \<Rightarrow>
                  (let inputs = \<lparr>ci_prompt = rendered, ci_vars = vars,
                         ci_request = Option.bind (at_request oc) (\<lambda>r. json_to_persist (nv_serde env) True (Some r)),
                         ci_prompt_digest = pdigest, ci_provider_digest = at_provider_digest oc,
                         ci_answered_by = then_some (pv_id (at_provider oc) \<noteq> ck_provider_id cell) (pv_id (at_provider oc)),
                         ci_fallback_attempts = ch_attempted oc\<rparr>;
                       wall_ms = elapsed_ms env started (wd_world wd)
                   in case at_outcome oc of
                        Inl failure \<Rightarrow> (Some (error_case env cell key name test failure wall_ms inputs), wd)
                      | Inr outcome \<Rightarrow> grade_cell cl cell name test var_ctx inputs (at_provider oc) outcome wall_ms wd))"

definition run_cell ::
  "('c, 'w) CellCtx \<Rightarrow> 'w Provider \<Rightarrow> 'w Provider list \<Rightarrow> Prompt option \<Rightarrow> TestCase \<Rightarrow> u32 \<Rightarrow> ('c, 'w) World
   \<Rightarrow> CaseResult option \<times> ('c, 'w) World" where
  "run_cell cl provider fallbacks prompt test rep wd =
     (let env = cl_env cl; cell = cell_of provider prompt test rep; key = case_key (nv_hashing env) cell;
          name = or_else (te_description test) (ts_id test);
          failed = (\<lambda>cls msg inputs. (Some (error_case env cell key name test (before_any_attempt cls msg) 0 inputs), wd))
      in case abort_reason (wd_aborted wd) of
           Some reason \<Rightarrow> failed PROVIDER_AUTH reason no_inputs
         | None \<Rightarrow> (case render_vars (cl_engine cl) (te_vars test) of
              Inl e \<Rightarrow> failed RENDER_FAILED (''rendering vars: '' @ render_error_text e) no_inputs
            | Inr vars \<Rightarrow>
                (let var_ctx = context_with_env (cl_engine cl) vars;
                     with_vars = no_inputs\<lparr>ci_vars := vars\<rparr>
                 in case (case te_history test of None \<Rightarrow> Inr []
                          | Some spec \<Rightarrow> resolve_history (cl_files cl) (cl_engine cl) (cl_base_dir cl) spec var_ctx) of
                      Inl e \<Rightarrow> failed RENDER_FAILED (''rendering history: '' @ render_error_text e) with_vars
                    | Inr history \<Rightarrow>
                        (case (case prompt of
                                 Some p \<Rightarrow> map_sum id Some (render_prompt_with_history (cl_files cl) (cl_engine cl) (cl_base_dir cl) p var_ctx history)
                               | None \<Rightarrow> Inr (if history \<noteq> [] then Some (PromptMessages history) else None)) of
                           Inl e \<Rightarrow> failed RENDER_FAILED (''rendering prompt: '' @ render_error_text e) with_vars
                         | Inr rendered \<Rightarrow> ask_cell cl provider fallbacks cell name test var_ctx vars rendered wd))))"

section \<open>Every cell is reported\<close>

lemma before_any_attempt_sel [simp]:
  "cf_class (before_any_attempt c m) = c" "cf_message (before_any_attempt c m) = m" "cf_attempts (before_any_attempt c m) = 0"
  by (simp_all add: before_any_attempt_def)

lemma error_case_sel [simp]:
  "ca_cell (error_case env cell key name test f ms inp) = cell" "ca_case_key (error_case env cell key name test f ms inp) = key"
  "ca_status (error_case env cell key name test f ms inp) = Error" "ca_error (error_case env cell key name test f ms inp) = Some (cf_message f)"
  "ca_error_class (error_case env cell key name test f ms inp) = Some (cf_class f)" "\<not> ca_cached (error_case env cell key name test f ms inp)"
  "ca_asserts (error_case env cell key name test f ms inp) = []" "ca_attempts (error_case env cell key name test f ms inp) = cf_attempts f"
  by (simp_all add: error_case_def)

text \<open>The ways a cell ends: before anything is asked, with a failure of the chain, or graded.\<close>

lemma run_cell_cases:
  obtains
    (early) cls msg inputs where "run_cell cl provider fallbacks prompt test rep wd
        = (Some (error_case (cl_env cl) (cell_of provider prompt test rep) (case_key (nv_hashing (cl_env cl)) (cell_of provider prompt test rep))
             (or_else (te_description test) (ts_id test)) test (before_any_attempt cls msg) 0 inputs), wd)"
        "cls \<in> {PROVIDER_AUTH, RENDER_FAILED}" "cls = PROVIDER_AUTH \<longleftrightarrow> wd_aborted wd \<noteq> None"
  | (asked) var_ctx vars rendered where "wd_aborted wd = None" "run_cell cl provider fallbacks prompt test rep wd
        = ask_cell cl provider fallbacks (cell_of provider prompt test rep) (or_else (te_description test) (ts_id test)) test var_ctx vars rendered wd"
proof (cases "wd_aborted wd")
  case (Some reason)
  then show thesis by (intro early [of PROVIDER_AUTH]) (simp_all add: run_cell_def Let_def abort_reason_def)
next
  case None
  have kinds: "RENDER_FAILED \<noteq> PROVIDER_AUTH" by (simp add: RENDER_FAILED_def PROVIDER_AUTH_def)
  show thesis
  proof (cases "render_vars (cl_engine cl) (te_vars test)")
    case (Inl e)
    then show thesis using None kinds by (intro early [of RENDER_FAILED]) (simp_all add: run_cell_def Let_def abort_reason_def)
  next
    case (Inr vars)
    note vars = Inr
    let ?ctx = "context_with_env (cl_engine cl) vars"
    define hist where "hist = (case te_history test of None \<Rightarrow> Inr []
      | Some spec \<Rightarrow> resolve_history (cl_files cl) (cl_engine cl) (cl_base_dir cl) spec ?ctx)"
    show thesis
    proof (cases hist)
      case (Inl e)
      then show thesis using None kinds
        by (intro early [of RENDER_FAILED]) (simp_all add: run_cell_def Let_def abort_reason_def vars hist_def [symmetric])
    next
      case (Inr history)
      note history = Inr
      define shown where "shown = (case prompt of
          Some p \<Rightarrow> map_sum id Some (render_prompt_with_history (cl_files cl) (cl_engine cl) (cl_base_dir cl) p ?ctx history)
        | None \<Rightarrow> Inr (if history \<noteq> [] then Some (PromptMessages history) else None))"
      show thesis
      proof (cases shown)
        case (Inl e)
        then show thesis using None kinds history
          by (intro early [of RENDER_FAILED])
            (simp_all add: run_cell_def Let_def abort_reason_def vars hist_def [symmetric] shown_def [symmetric])
      next
        case (Inr rendered)
        then show thesis using None history
          by (intro asked) (simp_all add: run_cell_def Let_def abort_reason_def vars hist_def [symmetric] shown_def [symmetric])
      qed
    qed
  qed
qed

text \<open>What \<open>ask_cell\<close> does: refuse a latency case offline, or ask the chain and report its failure or grade its answer.\<close>

definition cell_request :: "('c, 'w) CellCtx \<Rightarrow> CellKey \<Rightarrow> TestCase \<Rightarrow> (string \<times> json) list \<Rightarrow> RenderedPrompt option \<Rightarrow> ProviderRequest" where
  "cell_request cl cell test vars rendered = \<lparr>rq_prompt = rendered, rq_vars = vars, rq_params = [],
     rq_test = \<lparr>tm_id = ck_test_id cell, tm_tags = ts_tags test\<rparr>, rq_case_salt = te_cache_salt test, rq_tools = cl_tools cl\<rparr>"

definition cell_chain :: "('c, 'w) CellCtx \<Rightarrow> CellKey \<Rightarrow> TestCase \<Rightarrow> ('c, 'w) ChainCtx" where
  "cell_chain cl cell test =
     \<lparr>cx_cache = \<lparr>cc_backend = cl_cache cl, cc_mode = (if has_latency_assert (te_assert test) then Disabled else cl_cache_mode cl),
        cc_repeat = ck_repeat cell, cc_policy = cl_policy cl, cc_probe_legacy = True\<rparr>,
      cx_retry_cfg = cl_retry_cfg cl, cx_empty_policy = cl_policy cl, cx_fallback = cl_fallback cl,
      cx_include_raw = cl_include_raw cl, cx_has_latency_assert = has_latency_assert (te_assert test)\<rparr>"

lemma ask_cell_cases:
  obtains
    (refused) msg inputs where "has_latency_assert (te_assert test)" "cl_cache_mode cl = ReadOnlyStrict"
      "ask_cell cl provider fallbacks cell name test var_ctx vars rendered wd
        = (Some (error_case (cl_env cl) cell (case_key (nv_hashing (cl_env cl)) cell) name test (before_any_attempt CACHE_MISS msg) 0 inputs), wd)"
  | (failed) oc failure inputs ms wd1 where "\<not> (has_latency_assert (te_assert test) \<and> cl_cache_mode cl = ReadOnlyStrict)"
      "call_chain (cl_env cl) provider fallbacks (cell_request cl cell test vars rendered) (cell_chain cl cell test) wd = (Some oc, wd1)"
      "at_outcome oc = Inl failure" "ask_cell cl provider fallbacks cell name test var_ctx vars rendered wd
        = (Some (error_case (cl_env cl) cell (case_key (nv_hashing (cl_env cl)) cell) name test failure ms inputs), wd1)"
  | (answered) oc outcome inputs ms wd1 where "\<not> (has_latency_assert (te_assert test) \<and> cl_cache_mode cl = ReadOnlyStrict)"
      "call_chain (cl_env cl) provider fallbacks (cell_request cl cell test vars rendered) (cell_chain cl cell test) wd = (Some oc, wd1)"
      "at_outcome oc = Inr outcome" "ask_cell cl provider fallbacks cell name test var_ctx vars rendered wd
        = grade_cell cl cell name test var_ctx inputs (at_provider oc) outcome ms wd1"
proof (cases "has_latency_assert (te_assert test) \<and> cl_cache_mode cl = ReadOnlyStrict")
  case True
  then show thesis by (intro refused) (simp_all add: ask_cell_def Let_def)
next
  case False
  obtain oc wd1 where chain: "call_chain (cl_env cl) provider fallbacks (cell_request cl cell test vars rendered) (cell_chain cl cell test) wd
      = (Some oc, wd1)" using call_chain_total by blast
  note ask = ask_cell_def [of cl provider fallbacks cell name test var_ctx vars rendered wd, unfolded Let_def, folded cell_request_def cell_chain_def]
  show thesis
  proof (cases "at_outcome oc")
    case (Inl f)
    show thesis by (rule failed [OF False chain Inl]) (simp add: ask False chain Inl)
  next
    case (Inr out)
    show thesis by (rule answered [OF False chain Inr]) (simp add: ask False chain Inr)
  qed
qed

lemma assert_error_message_None: "assert_error_message results = None \<longleftrightarrow> (\<forall>r \<in> set results. ar_status r \<noteq> AError)"
proof -
  have "assert_error_message results = None \<longleftrightarrow> filter (\<lambda>a. ar_status a = AError) results = []"
    by (simp add: assert_error_message_def Let_def split: list.split)
  then show ?thesis by (simp add: filter_empty_conv)
qed

lemma case_status_error: "case_status e er skip p ef = Error \<longleftrightarrow> e \<noteq> None"
  by (simp add: case_status_def split: bool.split)

lemma class_of_nil: "list_all2 result_ok as rs \<Longrightarrow> concat (map2 class_of as rs) = [] \<longleftrightarrow> (\<forall>r \<in> set rs. ar_status r \<noteq> AError)"
  by (induction rule: list_all2_induct) (auto simp: class_of_def result_ok_def split: option.splits)

definition cell_assert_ctx :: "('c, 'w) CellCtx \<Rightarrow> CellKey \<Rightarrow> TestCase \<Rightarrow> 'w Provider \<Rightarrow> ProviderResponse \<Rightarrow> ('c, 'w) AssertCtx" where
  "cell_assert_ctx cl cell test provider response =
     \<lparr>ax_provider_id = pv_id provider, ax_test_id = ck_test_id cell, ax_test_tags = ts_tags test, ax_libs = cl_libs cl,
      ax_to_value = cl_to_value cl, ax_grader = cl_grader cl, ax_base_dir = show_path (cl_base_dir cl),
      ax_tool_calls = pr_tool_calls response, ax_empty_reason = effective_reason (nv_serde (cl_env cl)) (cl_policy cl) provider response,
      ax_cache = cl_cache cl, ax_cache_mode = cl_cache_mode cl, ax_grader_cache = cl_grader_cache cl, ax_repeat = ck_repeat cell,
      ax_short_circuit = cl_short_circuit cl\<rparr>"

lemma grade_cell_result:
  obtains c wd' scored classes metrics where
    "grade_cell cl cell name test var_ctx inputs provider outcome ms wd = (Some c, wd')"
    "evaluate_asserts (cell_assert_ctx cl cell test provider (co_response outcome)) (te_assert test) (pr_output (co_response outcome))
       var_ctx metrics (te_threshold test) wd = (Some (ca_asserts c, scored, classes), wd')"
    "list_all2 result_ok (te_assert test) (ca_asserts c)"
    "mset scored = mset (concat (map2 contribution (te_assert test) (ca_asserts c)))"
    "ca_cell c = cell" "ca_case_key c = case_key (nv_hashing (cl_env cl)) cell" "ca_cached c = co_cached outcome"
    "ca_error c = None \<longleftrightarrow> (\<forall>r \<in> set (ca_asserts c). ar_status r \<noteq> AError)" "ca_error_class c = None \<longleftrightarrow> ca_error c = None"
    "ca_status c = case_status (ca_error c) (ca_empty_reason c) (cl_skip_on_empty_reason cl)
       (verdict_passed (case_verdict scored (te_threshold test))) (expect_fail_enabled test)"
    "ca_score c = verdict_score (case_verdict scored (te_threshold test))" "ca_status c = Error \<longleftrightarrow> ca_error c \<noteq> None"
proof -
  let ?m = "\<lparr>mx_latency_ms = unwrap_or (co_provider_latency_ms outcome) ms, mx_cost_usd = pr_cost_usd (co_response outcome),
    mx_total_tokens = map_option usage_total (pr_usage (co_response outcome)),
    mx_billable_tokens = map_option billable_total (pr_usage (co_response outcome))\<rparr>"
  obtain results scored classes wd' where ev: "evaluate_asserts (cell_assert_ctx cl cell test provider (co_response outcome)) (te_assert test)
        (pr_output (co_response outcome)) var_ctx ?m (te_threshold test) wd = (Some (results, scored, classes), wd')"
      "list_all2 result_ok (te_assert test) results" "mset scored = mset (concat (map2 contribution (te_assert test) results))"
      "mset classes = mset (concat (map2 class_of (te_assert test) results))"
    using evaluate_total by blast
  note grade = grade_cell_def [of cl cell name test var_ctx inputs provider outcome ms wd, unfolded Let_def, folded cell_assert_ctx_def,
      unfolded ev(1) prod.case option.case]
  have classes: "classes = [] \<longleftrightarrow> (\<forall>r \<in> set results. ar_status r \<noteq> AError)"
    using ev(4) class_of_nil [OF ev(2)] by (metis mset_zero_iff)
  show thesis
    by (rule that [OF grade, where metrics = ?m and scored = scored and classes = classes])
      (simp_all add: ev(1,2,3) assert_error_message_None error_most_specific_None classes case_status_error)
qed

lemma run_cell_reported:
  "\<exists>c wd'. run_cell cl provider fallbacks prompt test rep wd = (Some c, wd')
    \<and> ca_cell c = cell_of provider prompt test rep \<and> ca_case_key c = case_key (nv_hashing (cl_env cl)) (cell_of provider prompt test rep)
    \<and> (ca_status c = Error \<longleftrightarrow> ca_error c \<noteq> None) \<and> (ca_error_class c = None \<longleftrightarrow> ca_error c = None)"
proof (cases rule: run_cell_cases [of cl provider fallbacks prompt test rep wd])
  case (early cls msg inputs)
  then show ?thesis by simp
next
  case (asked var_ctx vars rendered)
  let ?cell = "cell_of provider prompt test rep" and ?name = "or_else (te_description test) (ts_id test)"
  show ?thesis
  proof (cases rule: ask_cell_cases [of test cl provider fallbacks ?cell ?name var_ctx vars rendered wd])
    case (refused msg inputs)
    then show ?thesis using asked by simp
  next
    case (failed oc failure inputs ms wd1)
    then show ?thesis using asked by simp
  next
    case (answered oc outcome inputs ms wd1)
    obtain c wd' where c: "grade_cell cl ?cell ?name test var_ctx inputs (at_provider oc) outcome ms wd1 = (Some c, wd')"
        "ca_cell c = ?cell" "ca_case_key c = case_key (nv_hashing (cl_env cl)) ?cell" "ca_error_class c = None \<longleftrightarrow> ca_error c = None"
        "ca_status c = Error \<longleftrightarrow> ca_error c \<noteq> None"
      by (rule grade_cell_result [of cl ?cell ?name test var_ctx inputs "at_provider oc" outcome ms wd1]) (rule that)
    then show ?thesis using asked answered by simp
  qed
qed


section \<open>What a status means\<close>

lemma run_cell_graded:
  assumes "run_cell cl provider fallbacks prompt test rep wd = (Some c, wd')" and "ca_status c \<noteq> Error"
  obtains scored where "list_all2 result_ok (te_assert test) (ca_asserts c)"
    "mset scored = mset (concat (map2 contribution (te_assert test) (ca_asserts c)))"
    "\<forall>r \<in> set (ca_asserts c). ar_status r \<noteq> AError"
    "ca_status c = case_status None (ca_empty_reason c) (cl_skip_on_empty_reason cl)
       (verdict_passed (case_verdict scored (te_threshold test))) (expect_fail_enabled test)"
    "ca_score c = verdict_score (case_verdict scored (te_threshold test))"
proof (cases rule: run_cell_cases [of cl provider fallbacks prompt test rep wd])
  case (early cls msg inputs)
  then show thesis using assms by auto
next
  case (asked var_ctx vars rendered)
  let ?cell = "cell_of provider prompt test rep" and ?name = "or_else (te_description test) (ts_id test)"
  show thesis
  proof (cases rule: ask_cell_cases [of test cl provider fallbacks ?cell ?name var_ctx vars rendered wd])
    case (refused msg inputs)
    then show thesis using asked assms by auto
  next
    case (failed oc failure inputs ms wd1)
    then show thesis using asked assms by auto
  next
    case (answered oc outcome inputs ms wd1)
    obtain c' wd2 scored where c: "grade_cell cl ?cell ?name test var_ctx inputs (at_provider oc) outcome ms wd1 = (Some c', wd2)"
        "list_all2 result_ok (te_assert test) (ca_asserts c')" "mset scored = mset (concat (map2 contribution (te_assert test) (ca_asserts c')))"
        "ca_error c' = None \<longleftrightarrow> (\<forall>r \<in> set (ca_asserts c'). ar_status r \<noteq> AError)"
        "ca_status c' = case_status (ca_error c') (ca_empty_reason c') (cl_skip_on_empty_reason cl)
           (verdict_passed (case_verdict scored (te_threshold test))) (expect_fail_enabled test)"
        "ca_score c' = verdict_score (case_verdict scored (te_threshold test))" "ca_status c' = Error \<longleftrightarrow> ca_error c' \<noteq> None"
      by (rule grade_cell_result [of cl ?cell ?name test var_ctx inputs "at_provider oc" outcome ms wd1]) (rule that)
    have "c' = c" using c(1) asked(2) answered(4) assms(1) by simp
    then show thesis using c assms(2) that by auto
  qed
qed

lemma scored_failure:
  assumes "list_all2 result_ok as rs" and "r \<in> set rs" and "ar_status r = AFail"
  shows "\<exists>s \<in> set (concat (map2 contribution as rs)). \<not> sc_passed s"
proof -
  obtain i where i: "i < length rs" "rs ! i = r" using assms(2) by (auto simp: in_set_conv_nth)
  moreover have "length as = length rs" using assms(1) by (simp add: list_all2_lengthD)
  ultimately have "(as ! i, r) \<in> set (zip as rs)" by (auto simp: set_zip)
  moreover have "contribution (as ! i) r = [\<lparr>sc_weight = ar_weight r, sc_score = ar_score r, sc_passed = False\<rparr>]"
    using assms(3) by (simp add: contribution_def)
  ultimately show ?thesis by (intro bexI [of _ "\<lparr>sc_weight = ar_weight r, sc_score = ar_score r, sc_passed = False\<rparr>"]) force+
qed


section \<open>Offline and latency cases\<close>

lemma strict_chain:
  assumes "cache_backend (cl_cache cl) stored" and "digest_32 (cl_env cl)" and "cl_cache_mode cl = ReadOnlyStrict"
    and "\<not> has_latency_assert (te_assert test)" and "pv_cacheable provider" and "pv_canonical_request provider req \<noteq> None"
    and "call_chain (cl_env cl) provider fallbacks req (cell_chain cl cell test) wd = (Some oc, wd1)"
  shows "wd_world wd1 = wd_world wd \<and> wd_limiter wd1 = wd_limiter wd \<and> at_provider oc = provider
    \<and> (\<forall>out. at_outcome oc = Inr out \<longrightarrow> co_cached out)"
proof -
  let ?cache = "(cx_cache (cell_chain cl cell test))\<lparr>cc_probe_legacy := True\<rparr>"
  have single: "\<not> walks (cell_chain cl cell test) fallbacks" using assms(3,4) by (simp add: walks_def cell_chain_def)
  obtain r where call: "call_with_cache (cl_env cl) provider req ?cache (cl_retry_cfg cl) wd = (r, wd1)" "at_outcome oc = r" "at_provider oc = provider"
    using assms(7) [unfolded call_chain_single [OF single] attempt_link_def Let_def case_prod_beta]
    by (auto simp: settle_def cell_chain_def prod_eq_iff)
  have be: "cache_backend (cc_backend ?cache) stored" "cc_mode ?cache = ReadOnlyStrict" using assms(1,3,4) by (simp_all add: cell_chain_def)
  moreover have "keyed_request (cl_env cl) provider req ?cache \<noteq> None"
    using assms(5,6) be(2) by (simp add: keyed_request_def split: option.split)
  ultimately show ?thesis
    using cache_backend.strict_call [OF be(1) assms(2) refl be(2) _ call(1)] call by (auto split: sum.splits)
qed

lemma strict_cell:
  assumes "cache_backend (cl_cache cl) stored" and "digest_32 (cl_env cl)" and "cl_cache_mode cl = ReadOnlyStrict"
    and "pv_cacheable provider" and "\<And>req. pv_canonical_request provider req \<noteq> None"
    and "\<And>g. cl_grader cl = Some g \<Longrightarrow> offline_grader g"
    and "run_cell cl provider fallbacks prompt test rep wd = (Some c, wd')"
  shows "wd_world wd' = wd_world wd \<and> (ca_cached c \<or> ca_status c = Error)
    \<and> (has_latency_assert (te_assert test) \<longrightarrow> ca_status c = Error)"
proof (cases rule: run_cell_cases [of cl provider fallbacks prompt test rep wd])
  case (early cls msg inputs)
  then show ?thesis using assms(7) by auto
next
  case (asked var_ctx vars rendered)
  let ?cell = "cell_of provider prompt test rep" and ?name = "or_else (te_description test) (ts_id test)"
  show ?thesis
  proof (cases rule: ask_cell_cases [of test cl provider fallbacks ?cell ?name var_ctx vars rendered wd])
    case (refused msg inputs)
    then show ?thesis using asked assms(7) by auto
  next
    case (failed oc failure inputs ms wd1)
    then have "\<not> has_latency_assert (te_assert test)" using assms(3) by simp
    from strict_chain [OF assms(1-3) this assms(4,5) failed(2)] show ?thesis
      using asked failed assms(7) \<open>\<not> has_latency_assert (te_assert test)\<close> by auto
  next
    case (answered oc outcome inputs ms wd1)
    then have lat: "\<not> has_latency_assert (te_assert test)" using assms(3) by simp
    note chain = strict_chain [OF assms(1-3) lat assms(4,5) answered(2)]
    obtain c' wd2 scored classes metrics where c: "grade_cell cl ?cell ?name test var_ctx inputs (at_provider oc) outcome ms wd1 = (Some c', wd2)"
        "evaluate_asserts (cell_assert_ctx cl ?cell test (at_provider oc) (co_response outcome)) (te_assert test) (pr_output (co_response outcome))
          var_ctx metrics (te_threshold test) wd1 = (Some (ca_asserts c', scored, classes), wd2)" "ca_cached c' = co_cached outcome"
      by (rule grade_cell_result [of cl ?cell ?name test var_ctx inputs "at_provider oc" outcome ms wd1]) (rule that)
    have "c' = c" "wd2 = wd'" using c(1) asked(2) answered(4) assms(7) by simp_all
    moreover have "wd_world wd2 = wd_world wd1"
      by (rule evaluate_asserts_offline [OF _ _ c(2)]) (simp_all add: cell_assert_ctx_def assms(3,6))
    ultimately show ?thesis using chain answered(3) c(3) lat by auto
  qed
qed

text \<open>A whole cell stays offline under \<open>--cache-only\<close>: for a provider that can name each of its requests and a grader
  that is offline in strict mode, running the cell makes no call, sleeps not and takes no slot of the limiter.
  Its report is a replay or an error, and a latency case is an error, as there is nothing to measure.\<close>

theorem strict_cell_is_offline:
  assumes "cache_backend (cl_cache cl) stored" and "digest_32 (cl_env cl)" and "cl_cache_mode cl = ReadOnlyStrict"
    and "pv_cacheable provider" and "\<And>req. pv_canonical_request provider req \<noteq> None"
    and "\<And>g. cl_grader cl = Some g \<Longrightarrow> offline_grader g"
    and "run_cell cl provider fallbacks prompt test rep wd = (Some c, wd')"
  shows "wd_world wd' = wd_world wd \<and> (ca_cached c \<or> ca_status c = Error)
    \<and> (has_latency_assert (te_assert test) \<longrightarrow> ca_status c = Error)"
  by (rule strict_cell [OF assms])

text \<open>A latency case is never a replay: what it reports was measured in this run, or it is an error.\<close>

lemma uncached_chain:
  assumes "has_latency_assert (te_assert test)"
    and "call_chain (cl_env cl) provider fallbacks req (cell_chain cl cell test) wd = (Some oc, wd1)"
  shows "at_provider oc = provider \<and> (\<forall>out. at_outcome oc = Inr out \<longrightarrow> \<not> co_cached out \<and> co_cache_key out = None)"
proof -
  let ?cache = "(cx_cache (cell_chain cl cell test))\<lparr>cc_probe_legacy := True\<rparr>"
  have single: "\<not> walks (cell_chain cl cell test) fallbacks" using assms(1) by (simp add: walks_def cell_chain_def)
  obtain r where call: "call_with_cache (cl_env cl) provider req ?cache (cl_retry_cfg cl) wd = (r, wd1)" "at_outcome oc = r" "at_provider oc = provider"
    using assms(2) [unfolded call_chain_single [OF single] attempt_link_def Let_def case_prod_beta]
    by (auto simp: settle_def cell_chain_def prod_eq_iff)
  have "keyed_request (cl_env cl) provider req ?cache = None" using assms(1) by (simp add: keyed_request_def cell_chain_def)
  then show ?thesis using call
    by (auto simp: call_with_cache_def call_live_def Let_def case_prod_beta split: sum.splits)
qed

section \<open>The identity of a cell\<close>

lemma le_bytes_inj: "n < 2 ^ 32 \<Longrightarrow> m < 2 ^ 32 \<Longrightarrow> le_bytes n = le_bytes m \<longleftrightarrow> n = m"
proof
  assume b: "n < 2 ^ 32" "m < 2 ^ 32" and eq: "le_bytes n = le_bytes m"
  have byte: "n div 256 ^ i mod 256 = m div 256 ^ i mod 256" if "i < 4" for i
  proof -
    have "of_char (le_bytes n ! i) = (of_char (le_bytes m ! i) :: nat)" using eq by simp
    then show ?thesis using that by (simp add: le_bytes_def)
  qed
  have "n mod 256 ^ k = m mod 256 ^ k" if "k \<le> 4" for k
    using that
  proof (induction k)
    case (Suc k)
    then show ?case using byte [of k] by (simp add: power_Suc2 mod_mult2_eq del: power_Suc)
  qed simp
  from this [of 4] show "n = m" using b by simp
qed simp

definition nul_free :: "string \<Rightarrow> bool" where
  "nul_free s \<longleftrightarrow> CHR 0x00 \<notin> set s"

lemma nul_split: "nul_free a \<Longrightarrow> nul_free b \<Longrightarrow> a @ CHR 0x00 # x = b @ CHR 0x00 # y \<longleftrightarrow> a = b \<and> x = y"
proof (induction a arbitrary: b)
  case Nil
  then show ?case by (cases b) (auto simp: nul_free_def)
next
  case (Cons c a)
  then show ?case by (cases b) (auto simp: nul_free_def)
qed

definition plain_cell :: "CellKey \<Rightarrow> bool" where
  "plain_cell c \<longleftrightarrow> nul_free (ck_provider_id c) \<and> nul_free (unwrap_or (ck_prompt_id c) []) \<and> nul_free (ck_test_id c)
     \<and> ck_prompt_id c \<noteq> Some [] \<and> ck_repeat c < 2 ^ 32"

definition cell_bytes :: "CellKey \<Rightarrow> string" where
  "cell_bytes c = ck_provider_id c @ [CHR 0x00] @ unwrap_or (ck_prompt_id c) [] @ [CHR 0x00]
     @ ck_test_id c @ [CHR 0x00] @ le_bytes (ck_repeat c)"

lemma cell_bytes_inj:
  assumes "plain_cell c" and "plain_cell d"
  shows "cell_bytes c = cell_bytes d \<longleftrightarrow> c = d"
proof
  assume "cell_bytes c = cell_bytes d"
  then have same: "ck_provider_id c = ck_provider_id d" "unwrap_or (ck_prompt_id c) [] = unwrap_or (ck_prompt_id d) []"
      "ck_test_id c = ck_test_id d" "ck_repeat c = ck_repeat d"
    using assms by (auto simp: cell_bytes_def plain_cell_def nul_split le_bytes_inj)
  moreover have "ck_prompt_id c = ck_prompt_id d"
    using same(2) assms by (cases "ck_prompt_id c"; cases "ck_prompt_id d") (auto simp: plain_cell_def)
  ultimately show "c = d" by simp
qed simp

text \<open>A case key identifies its cell: for ids without a NUL character and a prompt id that is not empty, two cells have
  the same key exactly when provider, prompt, test and repetition agree, as long as the first eight bytes of
  the hash do not collide on these two.\<close>

theorem case_key_identifies:
  assumes "plain_cell c" and "plain_cell d"
    and "take 8 (sha256 h (cell_bytes c)) = take 8 (sha256 h (cell_bytes d)) \<Longrightarrow> cell_bytes c = cell_bytes d"
  shows "case_key h c = case_key h d \<longleftrightarrow> c = d"
proof -
  have key: "case_key h x = hex_lower (take 8 (sha256 h (cell_bytes x)))" for x
    by (simp only: case_key_def Let_def cell_bytes_def)
  show ?thesis using cell_bytes_inj [OF assms(1,2)] assms(3) hex_lower_inj unfolding key by metis
qed


definition demo_cell_key :: "string \<Rightarrow> CellKey" where
  "demo_cell_key t = \<lparr>ck_provider_id = ''p'', ck_prompt_id = None, ck_test_id = t, ck_repeat = 0\<rparr>"

theorem case_key_identifies_witness:
  "case_key (length_hashing\<lparr>sha256 := \<lambda>s. [of_nat (length s)]\<rparr>) (demo_cell_key ''a'')
   \<noteq> case_key (length_hashing\<lparr>sha256 := \<lambda>s. [of_nat (length s)]\<rparr>) (demo_cell_key ''ab'')"
proof -
  have plain: "plain_cell (demo_cell_key ''a'')" "plain_cell (demo_cell_key ''ab'')" "demo_cell_key ''a'' \<noteq> demo_cell_key ''ab''"
    by (simp_all add: plain_cell_def demo_cell_key_def nul_free_def)
  have len: "length (cell_bytes (demo_cell_key ''a'')) = 9" "length (cell_bytes (demo_cell_key ''ab'')) = 10"
    by (simp_all add: cell_bytes_def demo_cell_key_def le_bytes_def)
  show ?thesis
    using case_key_identifies [OF plain(1,2), of "length_hashing\<lparr>sha256 := \<lambda>s. [of_nat (length s)]\<rparr>"] plain(3) len by simp
qed

section \<open>A cell over the empty disk\<close>

definition demo_test :: TestCase where
  "demo_test = \<lparr>ts_id = Some ''t'', ts_tags = [], ts_only_providers = [], ts_skip_providers = [], te_description = None, te_vars = [],
     te_matrix = [], te_matrix_id = None, te_assert = [\<lparr>as_weight = 1, as_negate = False, as_kind = Contains ''hi''\<rparr>], te_threshold = None, te_cache_salt = None, te_history = None,
     te_expect_fail = None\<rparr>"

definition demo_cell :: "CacheMode \<Rightarrow> (Disk, nat) CellCtx" where
  "demo_cell mode = \<lparr>cl_env = demo_env, cl_files = demo_files [], cl_engine = demo_engine, cl_libs = quiet_libs, cl_to_value = (\<lambda>_. None),
     cl_f64_json = (\<lambda>_. JNull), cl_cache = LocalDiskCache (\<lambda>_. 1), cl_grader = None, cl_base_dir = [], cl_cache_mode = mode,
     cl_include_raw = False, cl_retry_cfg = default_policy, cl_grader_cache = True, cl_skip_on_empty_reason = [], cl_tools = [],
     cl_policy = \<lparr>ep_store = Reproducible, ep_refusal = []\<rparr>, cl_fallback = \<lparr>fp_on_empty_reason = [], fp_enabled = True\<rparr>,
     cl_short_circuit = True\<rparr>"

lemma demo_ask:
  "run_cell (demo_cell mode) provider [] None demo_test 0 demo_world
   = ask_cell (demo_cell mode) provider [] (cell_of provider None demo_test 0) (Some ''t'') demo_test (context_with_env demo_engine []) [] None demo_world"
  by (simp add: run_cell_def demo_test_def demo_world_def abort_reason_def render_vars_def demo_cell_def Let_def)

lemma demo_chain:
  "call_chain demo_env provider [] demo_request (cell_chain (demo_cell mode) (cell_of provider None demo_test 0) demo_test) demo_world
   = (let (r, wd) = call_with_cache demo_env provider demo_request (demo_call mode) default_policy demo_world
      in (Some \<lparr>at_provider = provider, at_provider_digest = Some (provider_digest demo_env (pv_fingerprint provider)), at_request = None,
            at_outcome = r, ch_attempted = []\<rparr>, wd))"
proof -
  let ?chain = "cell_chain (demo_cell mode) (cell_of provider None demo_test 0) demo_test"
  have single: "\<not> walks ?chain []" by (simp add: walks_def)
  have cache: "(cx_cache ?chain)\<lparr>cc_probe_legacy := True\<rparr> = demo_call mode" "cx_retry_cfg ?chain = default_policy" "\<not> cx_include_raw ?chain"
    by (simp_all add: cell_chain_def demo_cell_def demo_call_def demo_test_def has_latency_assert_def cell_of_def)
  show ?thesis
    unfolding call_chain_single [OF single] attempt_link_def settle_def
    by (simp add: cache Let_def case_prod_beta)
qed

lemma demo_cell_request: "cell_request (demo_cell mode) (cell_of provider None demo_test 0) demo_test [] None = demo_request"
  by (simp add: cell_request_def demo_request_def demo_cell_def cell_of_def demo_test_def)

lemma demo_cell_passes:
  "\<exists>c wd. run_cell (demo_cell ReadWrite) (demo_provider (Some JNull)) [] None demo_test 0 demo_world = (Some c, wd) \<and> ca_status c = Pass"
proof -
  obtain oc wd where call: "call_with_cache demo_env (demo_provider (Some JNull)) demo_request (demo_call ReadWrite) default_policy demo_world
      = (Inr oc, wd)" and resp: "co_response oc = demo_response" by (rule demo_first_call)
  let ?cell = "cell_of (demo_provider (Some JNull)) None demo_test 0"
  have quiet: "effective_reason (nv_serde demo_env) (cl_policy (demo_cell ReadWrite)) (demo_provider (Some JNull)) demo_response = None"
    by (simp add: demo_response_def effective_reason_def demo_provider_def default_classify_empty_def
        classify_blank_def demo_cell_def refusal_matches_def trim_def is_whitespace_def then_some_def)
  have hit: "\<exists>oc. evaluate_local \<lparr>ev_libs = quiet_libs, ev_vars = vars, ev_metrics = m, ev_tool_calls = [], ev_empty_reason = None\<rparr>
       \<lparr>as_weight = 1, as_negate = False, as_kind = Contains ''hi''\<rparr> (Text ''hi'') = Some oc
     \<and> ao_score oc = 1 \<and> ao_passed oc \<and> \<not> ao_unevaluable oc" for vars m
    by (simp add: evaluate_local_def is_local_def evaluate_kind_def cond_def outcome_pass_def negate_and_guard_def
        negated_def deny_vacuous_negated_pass_def Let_def as_text_def)
  have grade: "\<exists>c. grade_cell (demo_cell ReadWrite) ?cell name demo_test var_ctx inputs (demo_provider (Some JNull)) oc ms wd = (Some c, wd) \<and> ca_status c = Pass"
    for name var_ctx inputs ms
  proof -
    let ?a = "\<lparr>as_weight = 1, as_negate = False, as_kind = Contains ''hi''\<rparr>"
    obtain c wd' scored classes metrics where c:
      "grade_cell (demo_cell ReadWrite) ?cell name demo_test var_ctx inputs (demo_provider (Some JNull)) oc ms wd = (Some c, wd')"
      "evaluate_asserts (cell_assert_ctx (demo_cell ReadWrite) ?cell demo_test (demo_provider (Some JNull)) (co_response oc)) (te_assert demo_test)
         (pr_output (co_response oc)) var_ctx metrics (te_threshold demo_test) wd = (Some (ca_asserts c, scored, classes), wd')"
      "ca_error c = None \<longleftrightarrow> (\<forall>r \<in> set (ca_asserts c). ar_status r \<noteq> AError)"
      "ca_status c = case_status (ca_error c) (ca_empty_reason c) (cl_skip_on_empty_reason (demo_cell ReadWrite))
         (verdict_passed (case_verdict scored (te_threshold demo_test))) (expect_fail_enabled demo_test)"
      by (rule grade_cell_result [of "demo_cell ReadWrite" ?cell name demo_test var_ctx inputs "demo_provider (Some JNull)" oc ms wd]) (rule that)
    obtain ao where eval: "evaluate_local \<lparr>ev_libs = quiet_libs, ev_vars = var_ctx, ev_metrics = metrics, ev_tool_calls = [], ev_empty_reason = None\<rparr>
       ?a (Text ''hi'') = Some ao" "ao_passed ao" "\<not> ao_unevaluable ao" using hit by blast
    let ?r = "assert_result (\<lambda>_. None) ?a ao APass" and ?s = "scored_of ?a ao"
    have "evaluate_asserts (cell_assert_ctx (demo_cell ReadWrite) ?cell demo_test (demo_provider (Some JNull)) (co_response oc)) (te_assert demo_test)
        (pr_output (co_response oc)) var_ctx metrics (te_threshold demo_test) wd = (Some ([?r], [?s], []), wd)"
      using quiet
      by (simp add: resp evaluate_asserts_def cell_assert_ctx_def is_local_def demo_test_def demo_cell_def demo_response_def eval
          local_step_def push_defs Let_def from_pass_def)
    then have one: "ca_asserts c = [?r]" "scored = [?s]" "wd' = wd" using c(2) by auto
    have st: "ar_status ?r = APass" "sc_passed ?s" by (simp_all add: assert_result_def scored_of_def eval)
    have "ca_error c = None" using c(3) st by (simp add: one)
    moreover have "cl_skip_on_empty_reason (demo_cell ReadWrite) = []" "te_threshold demo_test = None" "\<not> expect_fail_enabled demo_test"
      by (simp_all add: demo_cell_def demo_test_def expect_fail_enabled_def)
    ultimately have "ca_status c = Pass"
      using c(4) st by (simp add: one case_verdict_def case_status_def reasoning_is_skippable_def split: option.splits)
    then show ?thesis using c(1) one by blast
  qed
  have env: "cl_env (demo_cell ReadWrite) = demo_env" by (simp add: demo_cell_def)
  note chain' = demo_chain [of "demo_provider (Some JNull)" ReadWrite, unfolded call Let_def prod.case]
  show ?thesis unfolding demo_ask
  proof (cases rule: ask_cell_cases [of demo_test "demo_cell ReadWrite" "demo_provider (Some JNull)" "[]" ?cell "Some ''t''"
        "context_with_env demo_engine []" "[]" None demo_world])
    case (refused msg inputs)
    then show "\<exists>c wd. ask_cell (demo_cell ReadWrite) (demo_provider (Some JNull)) [] ?cell (Some ''t'') demo_test
        (context_with_env demo_engine []) [] None demo_world = (Some c, wd) \<and> ca_status c = Pass"
      by (simp add: demo_test_def has_latency_assert_def)
  next
    case (failed oc' failure inputs ms wd1)
    then show "\<exists>c wd. ask_cell (demo_cell ReadWrite) (demo_provider (Some JNull)) [] ?cell (Some ''t'') demo_test
        (context_with_env demo_engine []) [] None demo_world = (Some c, wd) \<and> ca_status c = Pass"
      by (auto simp: demo_cell_request chain' env)
  next
    case (answered oc' outcome inputs ms wd1)
    from answered(2,3) have "oc = outcome" "wd1 = wd" "at_provider oc' = demo_provider (Some JNull)"
      by (auto simp: demo_cell_request chain' env)
    moreover obtain c where "grade_cell (demo_cell ReadWrite) ?cell (Some ''t'') demo_test (context_with_env demo_engine []) inputs
        (demo_provider (Some JNull)) oc ms wd = (Some c, wd)" "ca_status c = Pass"
      using grade by blast
    ultimately show "\<exists>c wd. ask_cell (demo_cell ReadWrite) (demo_provider (Some JNull)) [] ?cell (Some ''t'') demo_test
        (context_with_env demo_engine []) [] None demo_world = (Some c, wd) \<and> ca_status c = Pass"
      using answered(4) by auto
  qed
qed


lemma run_cell_total: "\<exists>c wd'. run_cell cl provider fallbacks prompt test rep wd = (Some c, wd')"
proof (cases rule: run_cell_cases [of cl provider fallbacks prompt test rep wd])
  case (early cls msg inputs)
  then show ?thesis by simp
next
  case (asked var_ctx vars rendered)
  let ?cell = "cell_of provider prompt test rep" and ?name = "or_else (te_description test) (ts_id test)"
  show ?thesis
  proof (cases rule: ask_cell_cases [of test cl provider fallbacks ?cell ?name var_ctx vars rendered wd])
    case (answered oc outcome inputs ms wd1)
    then show ?thesis using asked grade_cell_result [of cl ?cell ?name test var_ctx inputs "at_provider oc" outcome ms wd1] by metis
  qed (use asked in auto)
qed

theorem strict_cell_is_offline_witness:
  "\<exists>c wd. run_cell (demo_cell ReadOnlyStrict) (demo_provider (Some JNull)) [] None demo_test 0 demo_world = (Some c, wd)
    \<and> wd_world wd = 0 \<and> (ca_cached c \<or> ca_status c = Error)"
proof -
  obtain c wd where run: "run_cell (demo_cell ReadOnlyStrict) (demo_provider (Some JNull)) [] None demo_test 0 demo_world = (Some c, wd)"
    using run_cell_total by blast
  have ctx: "cl_cache (demo_cell ReadOnlyStrict) = LocalDiskCache (\<lambda>_. 1)" "cl_env (demo_cell ReadOnlyStrict) = demo_env"
    "cl_cache_mode (demo_cell ReadOnlyStrict) = ReadOnlyStrict" "cl_grader (demo_cell ReadOnlyStrict) = None"
    by (simp_all add: demo_cell_def)
  have be: "cache_backend (cl_cache (demo_cell ReadOnlyStrict)) disk_stored" using disk.cache_backend_axioms by (simp add: ctx)
  have "wd_world wd = wd_world demo_world \<and> (ca_cached c \<or> ca_status c = Error)"
    using strict_cell_is_offline [OF be _ ctx(3) _ _ _ run] demo_digest by (simp add: ctx demo_provider_def)
  then show ?thesis using run by (simp add: demo_world_def)
qed

end
