(* ===== verification/Requests.thy ===== *)
theory Requests
  imports Render
begin

text \<open>
  What domarinn sends over HTTP: the \<open>request:\<close> block of a provider rendered twice, once for the wire and once for
  the cache key (\<open>request_cfg.rs\<close>), the canonical request (\<open>provider.rs\<close>), and the classification of transport
  and status errors with the lookup of API keys (\<open>net.rs\<close>). The process environment is \<open>en_env_vars\<close> of the
  template engine's record; the HTTP client and the clock are parameters. An ellipsis is written as three dots.
\<close>

section \<open>Model\<close>

subsection \<open>Merging and encoding (\<open>request_cfg.rs\<close>)\<close>

definition insert_ci :: "string \<Rightarrow> string \<Rightarrow> (string \<times> string) list \<Rightarrow> (string \<times> string) list" where
  "insert_ci name value headers =
     (case find (\<lambda>(k, _). eq_ignore_ascii_case k name) headers of
        Some (existing, _) \<Rightarrow> btree_insert name value (filter (\<lambda>(k, _). k \<noteq> existing) headers)
      | None \<Rightarrow> btree_insert name value headers)"

text \<open>One member of the overlay, with the merge its value stands for.\<close>

definition merge_member :: "(string \<times> json) \<times> (string \<times> (json \<Rightarrow> json)) \<Rightarrow> (string \<times> json) list \<Rightarrow> (string \<times> json) list" where
  "merge_member = (\<lambda>((k, v), (_, merge)) ms. case map_of ms k of
       Some existing \<Rightarrow> members_insert k (merge existing) ms
     | None \<Rightarrow> members_insert k v ms)"

primrec merge_into :: "json \<Rightarrow> json \<Rightarrow> json" where
  "merge_into JNull base = JNull"
| "merge_into (JBool b) base = JBool b"
| "merge_into (JNumber n) base = JNumber n"
| "merge_into (JString s) base = JString s"
| "merge_into (JArray vs) base = JArray vs"
| "merge_into (JObject ms) base = (case base of
      JObject bs \<Rightarrow> JObject (fold merge_member (zip ms (map (map_prod id merge_into) ms)) bs)
    | _ \<Rightarrow> JObject ms)"

definition deep_merge :: "json \<Rightarrow> json \<Rightarrow> json" where
  "deep_merge base overlay = merge_into overlay base"

definition unreserved :: "nat \<Rightarrow> bool" where
  "unreserved b \<longleftrightarrow> (65 \<le> b \<and> b \<le> 90) \<or> (97 \<le> b \<and> b \<le> 122) \<or> (48 \<le> b \<and> b \<le> 57) \<or> b \<in> {45, 95, 46, 126}"

definition hex_digit :: "nat \<Rightarrow> char" where
  "hex_digit d = char_of (if d < 10 then 48 + d else 55 + d)"

definition urlencode_byte :: "nat \<Rightarrow> string" where
  "urlencode_byte b = (if unreserved b then [char_of b] else [CHR ''%'', hex_digit (b div 16), hex_digit (b mod 16)])"

definition urlencode :: "string \<Rightarrow> string" where
  "urlencode raw = concat (map urlencode_byte (utf8 raw))"

definition json_kind :: "json \<Rightarrow> string" where
  "json_kind v = (case v of JNull \<Rightarrow> ''null'' | JBool _ \<Rightarrow> ''boolean'' | JNumber _ \<Rightarrow> ''number'' | JString _ \<Rightarrow> ''string''
     | JArray _ \<Rightarrow> ''array'' | JObject _ \<Rightarrow> ''object'')"

subsection \<open>Resolving a \<open>request:\<close> block (\<open>request_cfg.rs\<close>)\<close>

datatype RequestError = RequestRender string string | GlobalHeadersJson string | GlobalHeadersShape string

record Rendered =
  rn_headers :: "(string \<times> string) list"
  rn_path :: string
  rn_body :: "json option"

record ResolvedRequest =
  rr_wire :: Rendered
  rr_keyed :: Rendered
  rr_headers_digest :: "string option"
  rr_auth :: AuthMode

definition vendor_default :: "string \<Rightarrow> AuthMode \<Rightarrow> ResolvedRequest" where
  "vendor_default default_path auth =
     (let rendered = \<lparr>rn_headers = [], rn_path = default_path, rn_body = None\<rparr>
      in \<lparr>rr_wire = rendered, rr_keyed = rendered, rr_headers_digest = None, rr_auth = auth\<rparr>)"

definition overlay_body :: "Rendered \<Rightarrow> json \<Rightarrow> json" where
  "overlay_body r body = (case rn_body r of None \<Rightarrow> body | Some overlay \<Rightarrow> deep_merge body overlay)"

definition apply_body :: "ResolvedRequest \<Rightarrow> json \<Rightarrow> json" where
  "apply_body r body = overlay_body (rr_wire r) body"

definition apply_keyed_body :: "ResolvedRequest \<Rightarrow> json \<Rightarrow> json" where
  "apply_keyed_body r body = overlay_body (rr_keyed r) body"

definition insert_all_ci :: "(string \<times> string) list \<Rightarrow> (string \<times> string) list \<Rightarrow> (string \<times> string) list" where
  "insert_all_ci new headers = fold (\<lambda>(n, v) hs. insert_ci n v hs) new headers"

definition call_headers :: "ResolvedRequest \<Rightarrow> (string \<times> string) list \<Rightarrow> string option \<Rightarrow> (string \<times> string) list" where
  "call_headers r vendor_defaults credential =
     (let headers = insert_all_ci vendor_defaults [];
          headers = (case Option.bind credential (auth_header (rr_auth r)) of
              Some (name, value) \<Rightarrow> insert_ci name value headers | None \<Rightarrow> headers)
      in insert_all_ci (rn_headers (rr_wire r)) headers)"

definition render_field :: "engine \<Rightarrow> json \<Rightarrow> string \<Rightarrow> string \<Rightarrow> RequestError + string" where
  "render_field en ctx field template = map_sum (RequestRender field) id (en_render_str en template ctx)"

text \<open>The path with the query string appended.\<close>

definition with_query :: "string \<Rightarrow> (string \<times> string) list \<Rightarrow> string" where
  "with_query p query =
     (if query = [] then p
      else p @ (if str_contains p ''?'' then ''&'' else ''?'') @ join ''&'' (map (\<lambda>(n, v). urlencode n @ ''='' @ urlencode v) query))"

definition render_named :: "engine \<Rightarrow> json \<Rightarrow> string \<Rightarrow> (string \<times> string) list \<Rightarrow> RequestError + (string \<times> string) list" where
  "render_named en ctx prefix entries = collect_results (map (\<lambda>(name, template).
     map_sum id (Pair name) (render_field en ctx (prefix @ name) template)) entries)"

definition render_request ::
  "engine \<Rightarrow> RequestCfg \<Rightarrow> (string \<times> string) list \<Rightarrow> string \<Rightarrow> json \<Rightarrow> RequestError + Rendered" where
  "render_request en cfg declared default_path env =
     (let ctx = JObject [(''env'', env)]
      in bind_sum (render_named en ctx ''headers.'' declared) (\<lambda>headers.
         bind_sum (case rf_path cfg of Some p \<Rightarrow> render_field en ctx ''path'' p | None \<Rightarrow> Inr default_path) (\<lambda>p.
         bind_sum (render_named en ctx ''query.'' (rf_query cfg)) (\<lambda>query.
         bind_sum (case rf_body cfg of
             Some body \<Rightarrow> map_sum (RequestRender ''body'') Some (render_val (en_render_str en) (Tpl body) ctx)
           | None \<Rightarrow> Inr None) (\<lambda>body.
         Inr \<lparr>rn_headers = headers, rn_path = with_query p query, rn_body = body\<rparr>)))))"

definition headers_digest :: "hashing \<Rightarrow> (string \<Rightarrow> string) \<Rightarrow> (string \<times> string) list \<Rightarrow> string option" where
  "headers_digest h blake3 headers =
     (if headers = [] then None
      else Some (''blake3:'' @ blake3 (canonical_json (num_text h) (str_text h) (JObject (map (map_prod id JString) headers)))))"

definition no_request :: RequestCfg where
  "no_request = \<lparr>rf_auth = None, rf_path = None, rf_query = [], rf_headers = [], rf_body = None\<rparr>"

definition resolve_with_global ::
  "hashing \<Rightarrow> (string \<Rightarrow> string) \<Rightarrow> engine \<Rightarrow> RequestCfg option \<Rightarrow> string \<Rightarrow> AuthMode \<Rightarrow> (string \<times> string) list
   \<Rightarrow> RequestError + ResolvedRequest" where
  "resolve_with_global h blake3 en cfg default_path default_auth global =
     (if (case cfg of None \<Rightarrow> True | Some c \<Rightarrow> request_is_empty c) \<and> global = [] then Inr (vendor_default default_path default_auth)
      else let cfg = unwrap_or cfg no_request;
               declared = insert_all_ci (rf_headers cfg) global
           in bind_sum (render_request en cfg declared default_path (env_object en)) (\<lambda>wire.
              bind_sum (render_request en cfg declared default_path (env_placeholder_object en)) (\<lambda>keyed.
              Inr \<lparr>rr_wire = wire, rr_keyed = keyed, rr_headers_digest = headers_digest h blake3 (rn_headers keyed),
                rr_auth = unwrap_or (rf_auth cfg) default_auth\<rparr>)))"

definition GLOBAL_HEADERS_ENV :: string where "GLOBAL_HEADERS_ENV = ''DOMARINN_PROVIDER_HEADERS''"

definition header_entry :: "string \<times> json \<Rightarrow> RequestError + string \<times> string" where
  "header_entry = (\<lambda>(name, value). case value of
       JString s \<Rightarrow> Inr (name, s)
     | _ \<Rightarrow> Inl (GlobalHeadersShape (backtick name @ '' is a '' @ json_kind value)))"

definition parse_global_headers :: "(string \<Rightarrow> string + json) \<Rightarrow> string \<Rightarrow> RequestError + (string \<times> string) list" where
  "parse_global_headers parse raw = (case parse raw of
       Inl e \<Rightarrow> Inl (GlobalHeadersJson e)
     | Inr (JObject ms) \<Rightarrow> map_sum id (\<lambda>hs. fold (\<lambda>(k, v) m. btree_insert k v m) hs []) (collect_results (map header_entry ms))
     | Inr v \<Rightarrow> Inl (GlobalHeadersShape (''it is a '' @ json_kind v)))"

definition env_var :: "engine \<Rightarrow> string \<Rightarrow> string option" where
  "env_var en name = map_of (en_env_vars en) name"

definition non_blank :: "string option \<Rightarrow> string option" where
  "non_blank v = Option.bind v (\<lambda>s. then_some (trim s \<noteq> []) s)"

definition global_headers :: "(string \<Rightarrow> string + json) \<Rightarrow> engine \<Rightarrow> RequestError + (string \<times> string) list" where
  "global_headers parse en = (case non_blank (env_var en GLOBAL_HEADERS_ENV) of
       None \<Rightarrow> Inr [] | Some raw \<Rightarrow> parse_global_headers parse raw)"

definition resolve_request ::
  "hashing \<Rightarrow> (string \<Rightarrow> string) \<Rightarrow> (string \<Rightarrow> string + json) \<Rightarrow> engine \<Rightarrow> RequestCfg option \<Rightarrow> string \<Rightarrow> AuthMode
   \<Rightarrow> RequestError + ResolvedRequest" where
  "resolve_request h blake3 parse en cfg default_path default_auth =
     bind_sum (global_headers parse en) (resolve_with_global h blake3 en cfg default_path default_auth)"

subsection \<open>Calls (\<open>provider.rs\<close>, \<open>grader_llm.rs\<close>)\<close>

record VendorCall =
  vc_url :: string
  vc_path :: string
  vc_body :: json
  vc_keyed_body :: json

definition http_canonical_request :: "string \<Rightarrow> string \<Rightarrow> json \<Rightarrow> json" where
  "http_canonical_request verb p body =
     JObject [(''transport'', JString ''http''), (''method'', JString verb), (''path'', JString p), (''body'', body)]"

definition exec_request_preview :: "string \<Rightarrow> string list \<Rightarrow> json \<Rightarrow> json" where
  "exec_request_preview command args stdin =
     JObject [(''transport'', JString ''exec''), (''command'', JString command), (''args'', JArray (map JString args)), (''stdin'', stdin)]"

definition vendor_call :: "string \<Rightarrow> ResolvedRequest \<Rightarrow> json \<Rightarrow> VendorCall" where
  "vendor_call base r body =
     \<lparr>vc_url = base @ rn_path (rr_wire r), vc_path = rn_path (rr_keyed r), vc_body = apply_body r body,
      vc_keyed_body = apply_keyed_body r body\<rparr>"

subsection \<open>Errors and keys (\<open>net.rs\<close>)\<close>

record TransportError =
  xe_timeout :: bool
  xe_connect :: bool
  xe_request :: bool
  xe_text :: string

definition transport_error :: "TransportError \<Rightarrow> ProviderError" where
  "transport_error e =
     (if xe_timeout e \<or> xe_connect e \<or> xe_request e then Retriable (xe_text e) None PROVIDER_TIMEOUT None
      else Fatal (xe_text e) PROVIDER_PROTOCOL None)"

text \<open>The first bytes of a text; cutting inside a character panics.\<close>

definition truncate_bytes :: "nat \<Rightarrow> string \<Rightarrow> string option" where
  "truncate_bytes bound s = (if length (utf8 s) \<le> bound then Some s else map_option (\<lambda>p. p @ ''...'') (byte_prefix bound s))"

definition status_error :: "nat \<Rightarrow> duration option \<Rightarrow> string \<Rightarrow> ProviderError option" where
  "status_error status after body = map_option (\<lambda>text.
     let msg = ''HTTP '' @ show_nat status @ '': '' @ text
     in if status = 429 then Retriable msg after PROVIDER_RATE_LIMIT None
        else if 500 \<le> status \<and> status \<le> 599 then Retriable msg after PROVIDER_UNAVAILABLE None
        else if status = 401 \<or> status = 403 then Fatal msg PROVIDER_AUTH None
        else Fatal msg PROVIDER_REQUEST None) (truncate_bytes 500 body)"

text \<open>A \<open>Retry-After\<close> header: seconds, or a date of which the parser gives the Unix time.\<close>

definition parse_retry_after ::
  "(string \<Rightarrow> u64 option) \<Rightarrow> (string \<Rightarrow> int option) \<Rightarrow> int \<Rightarrow> string option \<Rightarrow> duration option" where
  "parse_retry_after parse_u64 parse_date now header = Option.bind header (\<lambda>value.
     let raw = trim value
     in case parse_u64 raw of
          Some secs \<Rightarrow> Some (secs * 1000000000)
        | None \<Rightarrow> map_option (\<lambda>moment. nat (max (moment - now) 0) * 1000000000) (parse_date raw))"

definition api_key :: "engine \<Rightarrow> EnvNames \<Rightarrow> ProviderError + string" where
  "api_key en names = (case find_map (\<lambda>n. non_blank (env_var en n)) (env_names names) of
       Some value \<Rightarrow> Inr value
     | None \<Rightarrow> Inl (Fatal (case env_names names of
           [n] \<Rightarrow> ''API key environment variable '' @ tick n @ '' is not set''
         | ns \<Rightarrow> ''none of these API key environment variables are set: '' @ join '', '' ns) PROVIDER_AUTH None))"

section \<open>Secrets stay out of the cache key\<close>

text \<open>Two processes whose environments name the same variables, whatever the values.\<close>

definition same_names :: "engine \<Rightarrow> engine \<Rightarrow> bool" where
  "same_names en en' \<longleftrightarrow> en_render_str en = en_render_str en' \<and> map fst (en_env_vars en) = map fst (en_env_vars en')"

lemma placeholder_names:
  assumes "same_names en en'"
  shows "env_placeholder_object en = env_placeholder_object en'"
proof -
  have "map (\<lambda>(k, _). (k, JString (''${env:'' @ k @ ''}''))) vars = map (\<lambda>k. (k, JString (''${env:'' @ k @ ''}''))) (map fst vars)"
    for vars :: "(string \<times> string) list" by (induction vars) auto
  then show ?thesis using assms by (simp only: env_placeholder_object_def same_names_def)
qed

lemma render_request_cong:
  "en_render_str en = en_render_str en' \<Longrightarrow> render_request en cfg declared p env = render_request en' cfg declared p env"
proof -
  assume same: "en_render_str en = en_render_str en'"
  show ?thesis unfolding render_request_def render_named_def render_field_def same ..
qed

lemma resolve_with_global_Inr:
  assumes "resolve_with_global h blake3 en cfg p auth global = Inr r"
  shows "(((case cfg of None \<Rightarrow> True | Some c \<Rightarrow> request_is_empty c) \<and> global = []) \<and> r = vendor_default p auth)
    \<or> (\<not> ((case cfg of None \<Rightarrow> True | Some c \<Rightarrow> request_is_empty c) \<and> global = [])
       \<and> render_request en (unwrap_or cfg no_request) (insert_all_ci (rf_headers (unwrap_or cfg no_request)) global) p (env_placeholder_object en)
           = Inr (rr_keyed r)
       \<and> rr_headers_digest r = headers_digest h blake3 (rn_headers (rr_keyed r)))"
  using assms by (auto simp: resolve_with_global_def Let_def bind_sum_def split: sum.splits if_splits)


definition secret_engine :: "string \<Rightarrow> engine" where
  "secret_engine token = \<lparr>en_render_str = (\<lambda>template ctx. Inr (if template = ''{{ env.T }}''
        then (case json_get ctx ''env'' of Some env \<Rightarrow> (case json_get env ''T'' of Some (JString s) \<Rightarrow> s | _ \<Rightarrow> []) | None \<Rightarrow> [])
        else template)),
     en_env_vars = [(''T'', token)], en_yaml_messages = \<lambda>_. Inr []\<rparr>"

lemma secret_request:
  "resolve_with_global h b3 (secret_engine token) (Some (no_request\<lparr>rf_headers := [(''x-key'', ''{{ env.T }}'')]\<rparr>)) ''/v1'' NoAuth []
   = Inr \<lparr>rr_wire = \<lparr>rn_headers = [(''x-key'', token)], rn_path = ''/v1'', rn_body = None\<rparr>,
       rr_keyed = \<lparr>rn_headers = [(''x-key'', ''${env:T}'')], rn_path = ''/v1'', rn_body = None\<rparr>,
       rr_headers_digest = headers_digest h b3 [(''x-key'', ''${env:T}'')], rr_auth = NoAuth\<rparr>"
  by (simp add: resolve_with_global_def request_is_empty_def no_request_def insert_all_ci_def insert_ci_def render_request_def
      render_named_def render_field_def secret_engine_def env_object_def env_placeholder_object_def json_get_def with_query_def Let_def)


section \<open>Headers\<close>

text \<open>Header names compare without case.\<close>

definition header_map :: "(string \<times> string) list \<Rightarrow> string \<rightharpoonup> string" where
  "header_map hs = map_of (map (map_prod to_ascii_lowercase id) hs)"

definition ci_distinct :: "(string \<times> string) list \<Rightarrow> bool" where
  "ci_distinct hs \<longleftrightarrow> distinct (map (\<lambda>(k, _). to_ascii_lowercase k) hs)"

lemma mset_btree_insert: "k \<notin> fst ` set m \<Longrightarrow> mset (btree_insert k v m) = add_mset (k, v) (mset m)"
  by (induction k v m rule: btree_insert.induct) auto

lemma ci_keys: "map fst (map (map_prod f id) hs) = map (\<lambda>(k, _). f k) hs"
  by (induction hs) auto

lemma header_map_Some: "ci_distinct hs \<Longrightarrow> header_map hs n = Some v \<longleftrightarrow> (\<exists>k. (k, v) \<in> set hs \<and> to_ascii_lowercase k = n)"
  unfolding header_map_def ci_distinct_def ci_keys [symmetric] by (subst map_of_eq_Some_iff) (auto intro: rev_image_eqI)

lemma insert_ci_mset:
  assumes "ci_distinct hs"
  shows "mset (insert_ci n v hs) = add_mset (n, v) (filter_mset (\<lambda>(k, _). to_ascii_lowercase k \<noteq> to_ascii_lowercase n) (mset hs))"
proof -
  have "filter (\<lambda>(k, _). k \<noteq> e) hs = filter (\<lambda>(k, _). to_ascii_lowercase k \<noteq> to_ascii_lowercase n) hs"
    if found: "(e, x) \<in> set hs" "to_ascii_lowercase e = to_ascii_lowercase n" for e x
  proof (rule filter_cong)
    fix h assume h: "h \<in> set hs"
    have "inj_on (\<lambda>(k, _). to_ascii_lowercase k) (set hs)" using assms by (simp add: ci_distinct_def distinct_map)
    then have "h = (e, x)" if "to_ascii_lowercase (fst h) = to_ascii_lowercase n"
      using h found that by (elim inj_onD) (auto simp: case_prod_unfold)
    then show "(case h of (k, _) \<Rightarrow> k \<noteq> e) = (case h of (k, _) \<Rightarrow> to_ascii_lowercase k \<noteq> to_ascii_lowercase n)"
      using found by (cases h) auto
  qed simp
  moreover have "filter (\<lambda>(k, _). to_ascii_lowercase k \<noteq> to_ascii_lowercase n) hs = hs"
    if "find (\<lambda>(k, _). eq_ignore_ascii_case k n) hs = None"
    using that by (auto simp: find_None_iff eq_ignore_ascii_case_def intro!: filter_True)
  ultimately have "mset (insert_ci n v hs) = mset (btree_insert n v (filter (\<lambda>(k, _). to_ascii_lowercase k \<noteq> to_ascii_lowercase n) hs))"
    by (auto simp: insert_ci_def eq_ignore_ascii_case_def dest: find_SomeD split: option.splits)
  then show ?thesis by (subst (asm) mset_btree_insert) (auto simp: mset_filter)
qed

lemma insert_ci_set: "ci_distinct hs \<Longrightarrow> set (insert_ci n v hs) = insert (n, v) {(k, x) \<in> set hs. to_ascii_lowercase k \<noteq> to_ascii_lowercase n}"
  by (subst set_mset_mset [symmetric]) (auto simp: insert_ci_mset)

lemma insert_ci_distinct: "ci_distinct hs \<Longrightarrow> ci_distinct (insert_ci n v hs)"
proof -
  let ?f = "\<lambda>(k, _). to_ascii_lowercase k"
  assume ci: "ci_distinct hs"
  have "mset (map ?f (insert_ci n v hs)) = mset (map ?f ((n, v) # filter (\<lambda>(k, _). to_ascii_lowercase k \<noteq> to_ascii_lowercase n) hs))"
    by (simp only: mset_map insert_ci_mset [OF ci]) (simp add: mset_filter)
  moreover have "distinct (map ?f ((n, v) # filter (\<lambda>(k, _). to_ascii_lowercase k \<noteq> to_ascii_lowercase n) hs))"
    using ci by (auto simp: ci_distinct_def distinct_map_filter)
  ultimately show ?thesis unfolding ci_distinct_def by (metis mset_eq_imp_distinct_iff)
qed

lemma header_map_insert: "ci_distinct hs \<Longrightarrow> header_map (insert_ci n v hs) = (header_map hs)(to_ascii_lowercase n \<mapsto> v)"
proof
  fix m assume ci: "ci_distinct hs"
  have "header_map (insert_ci n v hs) m = Some w \<longleftrightarrow> ((header_map hs)(to_ascii_lowercase n \<mapsto> v)) m = Some w" for w
    using header_map_Some [OF ci] header_map_Some [OF insert_ci_distinct [OF ci]] by (auto simp: insert_ci_set [OF ci])
  then show "header_map (insert_ci n v hs) m = ((header_map hs)(to_ascii_lowercase n \<mapsto> v)) m"
    by (cases "header_map (insert_ci n v hs) m") (metis option.exhaust)+
qed

lemma insert_all_ci_map:
  "ci_distinct hs \<Longrightarrow> ci_distinct (insert_all_ci new hs) \<and> header_map (insert_all_ci new hs) = header_map hs ++ header_map (rev new)"
proof (induction new arbitrary: hs)
  case Nil
  then show ?case by (simp add: insert_all_ci_def header_map_def)
next
  case (Cons h new)
  obtain n v where h: "h = (n, v)" by fastforce
  have "insert_all_ci (h # new) hs = insert_all_ci new (insert_ci n v hs)" by (simp add: insert_all_ci_def h)
  then show ?case using Cons.IH [of "insert_ci n v hs"] insert_ci_distinct [OF Cons.prems] header_map_insert [OF Cons.prems]
    by (simp add: h header_map_def)
qed

text \<open>A call never sends a header twice, whatever the case of its spellings, and among the three sources the declared
  headers of the suite win over the credential, and the credential over the vendor's defaults.\<close>

theorem call_headers_precedence:
  "ci_distinct (call_headers r vendor_defaults credential)
   \<and> header_map (call_headers r vendor_defaults credential)
     = header_map (rev vendor_defaults)
       ++ (case Option.bind credential (auth_header (rr_auth r)) of Some (n, v) \<Rightarrow> [to_ascii_lowercase n \<mapsto> v] | None \<Rightarrow> Map.empty)
       ++ header_map (rev (rn_headers (rr_wire r)))"
proof -
  have empty: "ci_distinct []" "header_map [] = Map.empty" by (simp_all add: ci_distinct_def header_map_def)
  note first = insert_all_ci_map [OF empty(1), of vendor_defaults]
  show ?thesis
  proof (cases "Option.bind credential (auth_header (rr_auth r))")
    case None
    then show ?thesis using insert_all_ci_map [of "insert_all_ci vendor_defaults []" "rn_headers (rr_wire r)"] first
      by (simp add: call_headers_def Let_def empty)
  next
    case (Some h)
    obtain n v where h: "h = (n, v)" by fastforce
    have "ci_distinct (insert_ci n v (insert_all_ci vendor_defaults []))"
      "header_map (insert_ci n v (insert_all_ci vendor_defaults [])) = header_map (rev vendor_defaults) ++ [to_ascii_lowercase n \<mapsto> v]"
      using first by (simp_all add: insert_ci_distinct header_map_insert empty)
    then show ?thesis using insert_all_ci_map [of "insert_ci n v (insert_all_ci vendor_defaults [])" "rn_headers (rr_wire r)"] Some
      by (simp add: call_headers_def Let_def h)
  qed
qed

section \<open>Overlays\<close>

lemma map_of_members_insert: "map_of (members_insert k v ms) = (map_of ms)(k \<mapsto> v)"
  by (induction k v ms rule: members_insert.induct) (auto simp: fun_eq_iff)

lemma merge_members:
  "distinct (map fst ms) \<Longrightarrow>
   map_of (fold merge_member (zip ms (map (map_prod id merge_into) ms)) bs) k =
     (case map_of ms k of None \<Rightarrow> map_of bs k
      | Some v \<Rightarrow> Some (case map_of bs k of Some b \<Rightarrow> merge_into v b | None \<Rightarrow> v))"
proof (induction ms arbitrary: bs)
  case (Cons m ms)
  obtain n v where m: "m = (n, v)" by fastforce
  have "n \<notin> fst ` set ms" using Cons.prems m by simp
  then have "map_of ms n = None" by (simp add: map_of_eq_None_iff)
  then show ?case using Cons m by (auto simp: merge_member_def map_of_members_insert split: option.split)
qed simp

text \<open>An overlay is laid member by member: a member the overlay does not name stays, one it names is merged with what was
  there, or added; anything that is not an object on both sides is replaced by the overlay.\<close>

theorem deep_merge_pointwise:
  assumes "distinct (map fst ms)"
  shows "(case deep_merge (JObject bs) (JObject ms) of JObject rs \<Rightarrow>
        map_of rs k = (case map_of ms k of None \<Rightarrow> map_of bs k
          | Some v \<Rightarrow> Some (case map_of bs k of Some b \<Rightarrow> deep_merge b v | None \<Rightarrow> v)) | _ \<Rightarrow> False)
    \<and> ((\<nexists>bs. base = JObject bs) \<or> (\<nexists>ms. overlay = JObject ms) \<longrightarrow> deep_merge base overlay = overlay)"
proof -
  have "deep_merge base overlay = overlay" if "(\<nexists>bs. base = JObject bs) \<or> (\<nexists>ms. overlay = JObject ms)"
    using that by (cases overlay; cases base) (auto simp: deep_merge_def)
  then show ?thesis by (simp add: deep_merge_def merge_members [OF assms] split: option.split)
qed

theorem deep_merge_pointwise_witness:
  "deep_merge (JObject [(''a'', JNull), (''b'', JObject [(''c'', JNull)])]) (JObject [(''b'', JObject [(''d'', JBool True)])])
   = JObject [(''a'', JNull), (''b'', JObject [(''c'', JNull), (''d'', JBool True)])]
   \<and> (case deep_merge (JObject [(''a'', JNull)]) (JObject [(''b'', JNull)]) of JObject rs \<Rightarrow> map_of rs ''a'' = Some JNull | _ \<Rightarrow> False)"
  using deep_merge_pointwise [where ms = "[(''b'', JNull)]" and bs = "[(''a'', JNull)]" and k = "''a''"]
  by (simp add: deep_merge_def merge_member_def)

section \<open>Query strings\<close>

definition hex_value :: "char \<Rightarrow> nat" where
  "hex_value c = (if of_char c < (58::nat) then of_char c - 48 else of_char c - 55)"

fun urldecode :: "string \<Rightarrow> nat list" where
  "urldecode [] = []"
| "urldecode (c # cs) = (if c = CHR ''%'' then (case cs of h # l # rest \<Rightarrow> (hex_value h * 16 + hex_value l) # urldecode rest | _ \<Rightarrow> [])
     else of_char c # urldecode cs)"

lemma hex_value_digit: "d < 16 \<Longrightarrow> hex_value (hex_digit d) = d"
  by (auto simp: hex_value_def hex_digit_def)

lemma utf8_bytes: "b \<in> set (utf8 s) \<Longrightarrow> b < 256"
proof -
  have "b < 256" if "b \<in> set (utf8_char c)" for c
  proof -
    have "of_char c div 64 < (4::nat)" by (rule less_mult_imp_div_less) (use nat_of_char_less_256 [of c] in simp)
    then show ?thesis using that by (auto simp: utf8_char_def Let_def split: if_splits)
  qed
  then show "b \<in> set (utf8 s) \<Longrightarrow> b < 256" by (auto simp: utf8_def)
qed

lemma percent_code: "of_char (CHR ''%'') = (37 :: nat)"
  by simp

lemma urldecode_byte: "b < 256 \<Longrightarrow> urldecode (urlencode_byte b @ rest) = b # urldecode rest"
proof (cases "unreserved b")
  case True
  assume b: "b < 256"
  have "of_char (char_of b :: char) = b" using b by simp
  moreover have "b \<noteq> 37" using True by (auto simp: unreserved_def)
  ultimately have "char_of b \<noteq> CHR ''%''" by (metis percent_code)
  then show ?thesis using True b by (simp add: urlencode_byte_def)
next
  case False
  assume "b < 256"
  then have "hex_value (hex_digit (b div 16)) = b div 16" "hex_value (hex_digit (b mod 16)) = b mod 16"
    by (simp_all add: hex_value_digit)
  then show ?thesis using False by (simp add: urlencode_byte_def)
qed

lemma urldecode_urlencode: "urldecode (urlencode s) = utf8 s"
proof -
  have "urldecode (concat (map urlencode_byte bs)) = bs" if "\<forall>b \<in> set bs. b < 256" for bs
    using that by (induction bs) (simp_all add: urldecode_byte)
  then show ?thesis using utf8_bytes by (simp add: urlencode_def)
qed

lemma utf8_char_inj: "utf8_char c @ r = utf8_char d @ r' \<longleftrightarrow> c = d \<and> r = r'"
proof -
  have "of_char c = (of_char d :: nat)" if "of_char c div 64 = (of_char d div 64 :: nat)" "of_char c mod 64 = (of_char d mod 64 :: nat)"
    using that by (metis div_mult_mod_eq)
  then show ?thesis by (auto simp: utf8_char_def Let_def split: if_splits)
qed

lemma utf8_inj: "utf8 s = utf8 t \<Longrightarrow> s = t"
proof (induction s arbitrary: t)
  case (Cons c s)
  then obtain d t' where t: "t = d # t'" by (cases t) auto
  then show ?case using Cons by (auto simp: utf8_def utf8_char_inj)
qed (metis utf8_Nil utf8_of_Nil)

lemma urlencode_chars: "CHR ''&'' \<notin> set (urlencode s)" "CHR ''='' \<notin> set (urlencode s)"
proof -
  have hex: "hex_digit d \<notin> {CHR ''&'', CHR ''=''}" if "d < 16" for d
  proof -
    have "of_char (hex_digit d) = (if d < 10 then 48 + d else 55 + d)" using that by (simp add: hex_digit_def)
    then have "of_char (hex_digit d) \<notin> {38, 61 :: nat}" using that by (simp split: if_splits)
    then show ?thesis by auto
  qed
  have "c \<notin> {CHR ''&'', CHR ''=''}" if b: "b < 256" and c: "c \<in> set (urlencode_byte b)" for b c
  proof (cases "unreserved b")
    case True
    then have "c = char_of b" using c by (simp add: urlencode_byte_def)
    then have "of_char c = b" using b by simp
    then show ?thesis using True by (auto simp: unreserved_def)
  next
    case False
    moreover have "b div 16 < 16" by (rule less_mult_imp_div_less) (use b in simp)
    ultimately show ?thesis using c b hex [of "b div 16"] hex [of "b mod 16"] by (auto simp: urlencode_byte_def)
  qed
  then have "c \<notin> {CHR ''&'', CHR ''=''}" if "c \<in> set (urlencode s)" for c
    using that utf8_bytes [of _ s] by (auto simp: urlencode_def)
  then show "CHR ''&'' \<notin> set (urlencode s)" "CHR ''='' \<notin> set (urlencode s)" by auto
qed

lemma split_char_plain: "sep \<notin> set s \<Longrightarrow> split_char sep acc s = [rev acc @ s]"
  by (induction s arbitrary: acc) auto

lemma split_char_join:
  "sep \<notin> set s \<Longrightarrow> split_char sep acc (s @ sep # rest) = (rev acc @ s) # split_char sep [] rest"
  by (induction s arbitrary: acc) auto

lemma split_join: "xs \<noteq> [] \<Longrightarrow> \<forall>x \<in> set xs. sep \<notin> set x \<Longrightarrow> split_char sep [] (join [sep] xs) = xs"
  by (induction "[sep]" xs rule: join.induct) (auto simp: split_char_plain split_char_join)

lemma split_once_plain: "sep \<notin> set a \<Longrightarrow> split_once sep (a @ sep # b) = Some (a, b)"
  by (induction a) auto

text \<open>A query string keeps what it encodes: two lists of parameters give the same path only when they are the same, so no
  value of a parameter can imitate another parameter.\<close>

theorem query_unambiguous: "with_query p query = with_query p query' \<longleftrightarrow> query = query'"
proof -
  let ?pair = "\<lambda>(n, v). urlencode n @ ''='' @ urlencode v"
  have read: "map (\<lambda>s. map_prod urldecode urldecode (the (split_once (CHR ''='') s))) (split_char (CHR ''&'') [] (join ''&'' (map ?pair q)))
      = map (map_prod utf8 utf8) q" if "q \<noteq> []" for q
    using that by (subst split_join) (auto simp: urlencode_chars split_once_plain urldecode_urlencode)
  have "q = q'" if "q \<noteq> []" "q' \<noteq> []" "join ''&'' (map ?pair q) = join ''&'' (map ?pair q')" for q q'
  proof -
    have "map (map_prod utf8 utf8) q = map (map_prod utf8 utf8) q'" using read [OF that(1)] read [OF that(2)] that(3) by simp
    moreover have "inj (map_prod utf8 utf8)" by (intro prod.inj_map injI) (simp_all add: utf8_inj)
    ultimately show ?thesis by (metis inj_map_eq_map)
  qed
  then show ?thesis by (auto simp: with_query_def)
qed

section \<open>Error bodies\<close>

text \<open>A failed response with a long body can panic instead of being reported: the message keeps the first 500 bytes of the
  body, and there is none when byte 500 falls inside a character.\<close>

theorem error_body_may_panic:
  "(status_error status after body = None \<longleftrightarrow> 500 < length (utf8 body) \<and> (\<nexists>p rest. body = p @ rest \<and> length (utf8 p) = 500))
   \<and> status_error 500 None (replicate 499 (CHR ''x'') @ [CHR 0xE9]) = None"
proof -
  have none: "status_error status after body = None \<longleftrightarrow> 500 < length (utf8 body) \<and> (\<nexists>p rest. body = p @ rest \<and> length (utf8 p) = 500)"
    for status after body
    using byte_prefix_Some [of 500 body]
    by (cases "byte_prefix 500 body") (auto simp: status_error_def truncate_bytes_def Let_def)
  have len: "length (utf8 (replicate n (CHR ''x''))) = n" for n
    by (induction n) (auto simp: utf8_def utf8_char_def)
  have "byte_prefix (Suc n) (replicate n (CHR ''x'') @ [CHR 0xE9]) = None" for n
    by (induction n) (auto simp: utf8_char_def)
  from this [of 499] have "byte_prefix 500 (replicate 499 (CHR ''x'') @ [CHR 0xE9]) = None" by simp
  moreover have "length (utf8 (replicate 499 (CHR ''x'') @ [CHR 0xE9])) = 501"
    by (simp add: utf8_append len) (simp add: utf8_def utf8_char_def)
  ultimately have "status_error 500 None (replicate 499 (CHR ''x'') @ [CHR 0xE9]) = None"
    by (simp add: status_error_def truncate_bytes_def)
  then show ?thesis using none by blast
qed

end
