(* ===== verification/Preflight.thy ===== *)
theory Preflight
  imports RunnerCell Requests
begin

text \<open>
  The credential check before a run (\<open>crates/domarinn-core/src/preflight.rs\<close>). The environment is a function from
  names to values. An ellipsis is written as three dots.
\<close>

section \<open>Model\<close>

record CredentialIssue =
  cri_path :: string
  cri_provider_id :: "string option"
  cri_message :: string

definition issue_text :: "CredentialIssue \<Rightarrow> string" where
  "issue_text i = (case cri_provider_id i of
       Some pid \<Rightarrow> cri_path i @ '' (id: '' @ pid @ ''): '' @ cri_message i
     | None \<Rightarrow> cri_path i @ '': '' @ cri_message i)"

record BadShape =
  bs_provider_type :: string
  bs_prefix :: string
  bs_only_when_auth_is :: AuthMode
  bs_only_when_host_is :: string
  bs_explanation :: string

definition KNOWN_BAD :: "BadShape list" where
  "KNOWN_BAD = [\<lparr>bs_provider_type = ''anthropic'', bs_prefix = ''sk-ant-oat'', bs_only_when_auth_is = ApiKey,
     bs_only_when_host_is = ''api.anthropic.com'',
     bs_explanation = ''an Anthropic OAuth access token, which the Messages API rejects as `x-api-key`. Set `request: {auth: bearer}` to present it as a bearer token, use an API key from the Anthropic Console, or point `base_url` at a gateway that accepts OAuth tokens''\<rparr>]"

record Credential =
  cd_path :: string
  cd_provider_id :: "string option"
  cd_env_names :: "string list"
  cd_provider_type :: string
  cd_base_url :: "string option"
  cd_auth :: AuthMode

definition credential_names :: "Credential \<Rightarrow> string" where
  "credential_names c = join '', '' (map backtick (cd_env_names c))"

definition missing_message :: "Credential \<Rightarrow> string" where
  "missing_message c =
     (if length (cd_env_names c) = 1 then ''environment variable '' @ credential_names c @ '' is not set (or is empty)''
      else ''none of these environment variables are set (or all are empty): '' @ credential_names c)"

text \<open>The type, variables, base URL and authentication of a provider that needs a credential.\<close>

definition vendor_shape :: "string \<Rightarrow> string \<Rightarrow> AuthMode \<Rightarrow> VendorCfg \<Rightarrow> (string \<times> string list \<times> string option \<times> AuthMode) option" where
  "vendor_shape kind fallback default_auth v =
     (let auth = unwrap_or (Option.bind (ve_request v) rf_auth) default_auth
      in then_some (needs_credential auth)
           (kind, (case ve_api_key_env v of Some n \<Rightarrow> env_names n | None \<Rightarrow> [fallback]), ve_base_url v, auth))"

definition default_env_for :: "ProviderKind \<Rightarrow> (string \<times> string list \<times> string option \<times> AuthMode) option" where
  "default_env_for kind = (case kind of
       KindAnthropic v \<Rightarrow> vendor_shape ''anthropic'' ''ANTHROPIC_API_KEY'' ApiKey v
     | KindOpenai v \<Rightarrow> vendor_shape ''openai'' ''OPENAI_API_KEY'' Bearer v
     | KindEmbeddings v \<Rightarrow> vendor_shape ''embeddings'' ''OPENAI_API_KEY'' Bearer v
     | KindExec _ _ _ _ \<Rightarrow> None | KindHttp _ _ _ _ _ \<Rightarrow> None)"

definition credential_at :: "ProviderKind \<Rightarrow> string \<Rightarrow> string option \<Rightarrow> Credential list" where
  "credential_at kind place pid = (case default_env_for kind of None \<Rightarrow> []
     | Some (ptype, names, base_url, auth) \<Rightarrow>
         [\<lparr>cd_path = place, cd_provider_id = pid, cd_env_names = names, cd_provider_type = ptype, cd_base_url = base_url, cd_auth = auth\<rparr>])"

definition any_assert :: "TestCase list \<Rightarrow> (AssertKind \<Rightarrow> bool) \<Rightarrow> bool" where
  "any_assert tests pred = list_ex (\<lambda>t. list_ex (\<lambda>a. pred (as_kind a)) (te_assert t)) tests"

definition is_similar :: "AssertKind \<Rightarrow> bool" where
  "is_similar k = (case k of Similar _ _ \<Rightarrow> True | _ \<Rightarrow> False)"

definition provider_credentials :: "ProviderCfg list \<Rightarrow> string list \<Rightarrow> TestCase list \<Rightarrow> Credential list" where
  "provider_credentials providers chosen tests = concat (map (\<lambda>(i, p).
     if pcf_id p \<notin> set chosen \<or> (is_embeddings (pcf_kind p) \<and> \<not> any_assert tests is_similar) then []
     else credential_at (pcf_kind p) (''providers['' @ show_nat i @ '']'') (Some (pcf_id p))) (enumerate 0 providers))"

definition uses_suite_grader :: "AssertKind \<Rightarrow> bool" where
  "uses_suite_grader k = (case k of LlmRubric _ None _ _ \<Rightarrow> True | _ \<Rightarrow> False)"

definition own_grader :: "AssertKind \<Rightarrow> Grader option" where
  "own_grader k = (case k of LlmRubric _ g _ _ \<Rightarrow> g | _ \<Rightarrow> None)"

definition assert_credentials :: "nat \<Rightarrow> nat \<times> Assert \<Rightarrow> Credential list" where
  "assert_credentials t = (\<lambda>(a, assert). case own_grader (as_kind assert) of
       Some g \<Rightarrow> credential_at (gd_provider g) (''tests['' @ show_nat t @ ''].assert['' @ show_nat a @ ''].grader'') None
     | None \<Rightarrow> [])"

definition test_credentials :: "nat \<times> TestCase \<Rightarrow> Credential list" where
  "test_credentials = (\<lambda>(t, test). concat (map (assert_credentials t) (enumerate 0 (te_assert test))))"

definition grader_credentials :: "Grader option \<Rightarrow> TestCase list \<Rightarrow> Credential list" where
  "grader_credentials suite_grader tests =
     (if any_assert tests uses_suite_grader
      then (case suite_grader of Some g \<Rightarrow> credential_at (gd_provider g) ''grader'' None | None \<Rightarrow> []) else [])
     @ concat (map test_credentials (enumerate 0 tests))"

text \<open>The text between the first \<open>://\<close> and the next one, if any.\<close>

fun split_on :: "string \<Rightarrow> string \<Rightarrow> string \<Rightarrow> nat \<Rightarrow> string list" where
  "split_on sep acc [] skip = [rev acc]"
| "split_on sep acc (c # cs) (Suc skip) = split_on sep acc cs skip"
| "split_on sep acc (c # cs) 0 = (if starts_with (c # cs) sep then rev acc # split_on sep [] cs (length sep - 1)
     else split_on sep (c # acc) cs 0)"

definition host_of :: "string \<Rightarrow> string option" where
  "host_of url = (case split_on ''://'' [] url 0 of _ # rest # _ \<Rightarrow>
       Some (hd (split_char (CHR '':'') [] (hd (split_char (CHR ''/'') [] rest)))) | _ \<Rightarrow> None)"

definition check_shape :: "Credential \<Rightarrow> string \<Rightarrow> CredentialIssue option" where
  "check_shape c value = Option.bind
     (find (\<lambda>b. bs_provider_type b = cd_provider_type c \<and> starts_with value (bs_prefix b) \<and> bs_only_when_auth_is b = cd_auth c) KNOWN_BAD)
     (\<lambda>bad. then_some (case Option.bind (cd_base_url c) host_of of None \<Rightarrow> True | Some h \<Rightarrow> h = bs_only_when_host_is bad)
        \<lparr>cri_path = cd_path c, cri_provider_id = cd_provider_id c,
         cri_message = ''the credential from '' @ credential_names c @ '' holds '' @ bs_explanation bad
           @ '' (prefix `'' @ bs_prefix bad @ ''...`)''\<rparr>)"

definition credential_issues :: "(string \<rightharpoonup> string) \<Rightarrow> Credential \<Rightarrow> CredentialIssue list" where
  "credential_issues env c = (case find_map (\<lambda>n. non_blank (env n)) (cd_env_names c) of
       None \<Rightarrow> [\<lparr>cri_path = cd_path c, cri_provider_id = cd_provider_id c, cri_message = missing_message c\<rparr>]
     | Some value \<Rightarrow> (case check_shape c value of None \<Rightarrow> [] | Some i \<Rightarrow> [i]))"

definition preflight_check ::
  "ProviderCfg list \<Rightarrow> Grader option \<Rightarrow> string list \<Rightarrow> TestCase list \<Rightarrow> (string \<rightharpoonup> string) \<Rightarrow> CredentialIssue list" where
  "preflight_check providers suite_grader chosen tests env =
     concat (map (credential_issues env) (provider_credentials providers chosen tests @ grader_credentials suite_grader tests))"

section \<open>A clean check means every key is there\<close>

lemma find_map_api_key:
  "find_map (\<lambda>n. non_blank (env_var en n)) (env_names names) \<noteq> None \<longleftrightarrow> (\<exists>key. api_key en names = Inr key)"
  by (auto simp: api_key_def split: option.splits)

lemma credential_ok:
  assumes "credential_issues env c = []"
  shows "\<exists>v. find_map (\<lambda>n. non_blank (env n)) (cd_env_names c) = Some v \<and> check_shape c v = None"
  using assms by (auto simp: credential_issues_def split: option.splits)

lemma check_covers:
  assumes "preflight_check providers suite_grader chosen tests env = []"
    and "c \<in> set (provider_credentials providers chosen tests @ grader_credentials suite_grader tests)"
  shows "credential_issues env c = []"
  using assms by (auto simp: preflight_check_def)

text \<open>The names under which a vendor looks for its key.\<close>

definition key_names :: "ProviderKind \<Rightarrow> EnvNames option" where
  "key_names kind = (case kind of
       KindAnthropic v \<Rightarrow> Some (unwrap_or (ve_api_key_env v) (One ''ANTHROPIC_API_KEY''))
     | KindOpenai v \<Rightarrow> Some (unwrap_or (ve_api_key_env v) (One ''OPENAI_API_KEY''))
     | KindEmbeddings v \<Rightarrow> Some (unwrap_or (ve_api_key_env v) (One ''OPENAI_API_KEY''))
     | _ \<Rightarrow> None)"

lemma vendor_shape_names:
  "vendor_shape k fallback auth v = Some (ptype, names, url, mode) \<Longrightarrow> names = env_names (unwrap_or (ve_api_key_env v) (One fallback))"
  by (auto simp: vendor_shape_def Let_def env_names_def unwrap_or_def split: option.splits)

lemma credential_at_names:
  "c \<in> set (credential_at kind place pid) \<Longrightarrow> \<exists>names. key_names kind = Some names \<and> cd_env_names c = env_names names"
  by (auto simp: credential_at_def default_env_for_def key_names_def dest: vendor_shape_names [OF sym]
      split: ProviderKind.splits option.splits)

lemma credential_at_Nil: "credential_at kind place pid = [] \<longleftrightarrow> default_env_for kind = None"
  by (auto simp: credential_at_def split: option.split)

lemma credential_found:
  assumes "preflight_check providers suite_grader chosen tests (env_var en) = []"
    and "set (credential_at kind place pid) \<subseteq> set (provider_credentials providers chosen tests @ grader_credentials suite_grader tests)"
    and "default_env_for kind \<noteq> None"
  shows "\<exists>names key. key_names kind = Some names \<and> api_key en names = Inr key"
proof -
  obtain c where c: "c \<in> set (credential_at kind place pid)" using assms(3) by (cases "credential_at kind place pid") (auto simp: credential_at_Nil)
  then have "credential_issues (env_var en) c = []" using assms(1,2) by (intro check_covers) auto
  then obtain v where "find_map (\<lambda>n. non_blank (env_var en n)) (cd_env_names c) = Some v"
    using credential_ok by blast
  moreover obtain names where "key_names kind = Some names" "cd_env_names c = env_names names"
    using credential_at_names [OF c] by blast
  ultimately show ?thesis using find_map_api_key [of en names] by auto
qed

lemma provider_credential_listed:
  assumes "p \<in> set providers" and "pcf_id p \<in> set chosen" and "is_embeddings (pcf_kind p) \<longrightarrow> any_assert tests is_similar"
  shows "\<exists>place. set (credential_at (pcf_kind p) place (Some (pcf_id p))) \<subseteq> set (provider_credentials providers chosen tests)"
proof -
  obtain i where "(i, p) \<in> set (enumerate 0 providers)" using enumerated [OF assms(1), of 0] by blast
  then have "set (credential_at (pcf_kind p) (''providers['' @ show_nat i @ '']'') (Some (pcf_id p))) \<subseteq> set (provider_credentials providers chosen tests)"
    using assms(2,3) by (auto simp: provider_credentials_def intro!: bexI [of _ "(i, p)"])
  then show ?thesis by blast
qed

lemma own_grader_listed:
  assumes "test \<in> set tests" and "assert \<in> set (te_assert test)" and "own_grader (as_kind assert) = Some g"
  shows "\<exists>place. set (credential_at (gd_provider g) place None) \<subseteq> set (grader_credentials suite_grader tests)"
proof -
  obtain i j where i: "(i, test) \<in> set (enumerate 0 tests)" and j: "(j, assert) \<in> set (enumerate 0 (te_assert test))"
    using enumerated [OF assms(1), of 0] enumerated [OF assms(2), of 0] by blast
  have "set (assert_credentials i (j, assert)) \<subseteq> set (test_credentials (i, test))"
    using j by (simp add: test_credentials_def) blast
  moreover have "set (test_credentials (i, test)) \<subseteq> set (grader_credentials suite_grader tests)"
    using i unfolding grader_credentials_def set_append set_concat set_map by (intro subsetI UnI2) blast
  ultimately have "set (assert_credentials i (j, assert)) \<subseteq> set (grader_credentials suite_grader tests)" by blast
  then have "set (credential_at (gd_provider g) (''tests['' @ show_nat i @ ''].assert['' @ show_nat j @ ''].grader'') None)
      \<subseteq> set (grader_credentials suite_grader tests)" using assms(3) by (simp add: assert_credentials_def)
  then show ?thesis by blast
qed



end
