(* ===== verification/Summary.thy ===== *)
theory Summary
  imports RunnerCell
begin

text \<open>
  The summary of a run (\<open>summarize\<close> in \<open>crates/domarinn-core/src/runner_result.rs\<close>, \<open>RunSummary\<close> in
  \<open>crates/domarinn-types/src/result.rs\<close>). The counters are \<open>u64\<close> and incremented with \<open>+=\<close>, which wraps in a
  release build; money is summed in micro-dollars, saturating. The loop body is split by what it counts, in the
  order of the code.
\<close>

section \<open>Model\<close>

definition add_assign :: "u64 \<Rightarrow> u64 \<Rightarrow> u64" where
  "add_assign a b = (a + b) mod 2 ^ 64"

record RunSummary =
  sm_total :: u64
  sm_passed :: u64
  sm_failed :: u64
  sm_errored :: u64
  sm_skipped :: u64
  sm_prompt_tokens :: u64
  sm_completion_tokens :: u64
  sm_cost_usd :: "f64 option"
  sm_cache_hits :: u64
  sm_cache_misses :: u64
  sm_retried_cases :: u64
  sm_cache_read_tokens :: u64
  sm_cache_write_tokens :: u64
  sm_cache_savings_usd :: "f64 option"
  sm_grader_cost_usd :: "f64 option"
  sm_empty_counts :: "string \<rightharpoonup> u64"
  sm_fallback_cases :: u64
  sm_xfailed :: u64
  sm_xpassed :: u64

text \<open>The summary under construction and the local variables beside it.\<close>

record SummaryAcc = RunSummary +
  sa_cost :: MicroUsd
  sa_saved :: MicroUsd
  sa_grader_cost :: MicroUsd
  sa_any_cost :: bool
  sa_any_grader_cost :: bool

definition empty_summary :: "u64 \<Rightarrow> SummaryAcc" where
  "empty_summary n = \<lparr>sm_total = n, sm_passed = 0, sm_failed = 0, sm_errored = 0, sm_skipped = 0, sm_prompt_tokens = 0,
     sm_completion_tokens = 0, sm_cost_usd = None, sm_cache_hits = 0, sm_cache_misses = 0, sm_retried_cases = 0,
     sm_cache_read_tokens = 0, sm_cache_write_tokens = 0, sm_cache_savings_usd = None, sm_grader_cost_usd = None,
     sm_empty_counts = Map.empty, sm_fallback_cases = 0, sm_xfailed = 0, sm_xpassed = 0,
     sa_cost = 0, sa_saved = 0, sa_grader_cost = 0, sa_any_cost = False, sa_any_grader_cost = False\<rparr>"

definition count_status :: "CaseStatus \<Rightarrow> SummaryAcc \<Rightarrow> SummaryAcc" where
  "count_status st s = (case st of
       Pass \<Rightarrow> s\<lparr>sm_passed := add_assign (sm_passed s) 1\<rparr>
     | Fail \<Rightarrow> s\<lparr>sm_failed := add_assign (sm_failed s) 1\<rparr>
     | Error \<Rightarrow> s\<lparr>sm_errored := add_assign (sm_errored s) 1\<rparr>
     | Skip \<Rightarrow> s\<lparr>sm_skipped := add_assign (sm_skipped s) 1\<rparr>
     | XFail \<Rightarrow> s\<lparr>sm_xfailed := add_assign (sm_xfailed s) 1\<rparr>
     | XPass \<Rightarrow> s\<lparr>sm_xpassed := add_assign (sm_xpassed s) 1\<rparr>)"

definition count_usage :: "TokenUsage option \<Rightarrow> SummaryAcc \<Rightarrow> SummaryAcc" where
  "count_usage usage s = (case usage of None \<Rightarrow> s
     | Some u \<Rightarrow>
         s\<lparr>sm_prompt_tokens := add_assign (sm_prompt_tokens s) (saturating_add (input_tokens u) (unwrap_or (cache_read_tokens u) 0)),
           sm_completion_tokens := add_assign (sm_completion_tokens s) (output_tokens u),
           sm_cache_read_tokens := add_assign (sm_cache_read_tokens s) (unwrap_or (cache_read_tokens u) 0),
           sm_cache_write_tokens := add_assign (sm_cache_write_tokens s) (unwrap_or (cache_write_tokens u) 0)\<rparr>)"

definition count_cost :: "f64 option \<Rightarrow> bool \<Rightarrow> SummaryAcc \<Rightarrow> SummaryAcc" where
  "count_cost cost cached s = (case cost of None \<Rightarrow> s
     | Some c \<Rightarrow>
         s\<lparr>sa_cost := saturating_add (sa_cost s) (from_usd c),
           sa_saved := (if cached then saturating_add (sa_saved s) (from_usd c) else sa_saved s),
           sa_any_cost := True\<rparr>)"

definition count_grader_cost :: "f64 option \<Rightarrow> SummaryAcc \<Rightarrow> SummaryAcc" where
  "count_grader_cost cost s = (case cost of None \<Rightarrow> s
     | Some c \<Rightarrow> s\<lparr>sa_grader_cost := saturating_add (sa_grader_cost s) (from_usd c), sa_any_grader_cost := True\<rparr>)"

definition count_cached :: "bool \<Rightarrow> SummaryAcc \<Rightarrow> SummaryAcc" where
  "count_cached cached s =
     (if cached then s\<lparr>sm_cache_hits := add_assign (sm_cache_hits s) 1\<rparr>
      else s\<lparr>sm_cache_misses := add_assign (sm_cache_misses s) 1\<rparr>)"

definition count_retried :: "CaseResult \<Rightarrow> SummaryAcc \<Rightarrow> SummaryAcc" where
  "count_retried c s =
     (if \<not> ca_cached c \<and> ca_attempts c > 1 then s\<lparr>sm_retried_cases := add_assign (sm_retried_cases s) 1\<rparr> else s)"

definition count_fallback :: "CaseResult \<Rightarrow> SummaryAcc \<Rightarrow> SummaryAcc" where
  "count_fallback c s =
     (if ca_status c \<noteq> Skip \<and> ca_answered_by_provider_id c \<noteq> None
      then s\<lparr>sm_fallback_cases := add_assign (sm_fallback_cases s) 1\<rparr> else s)"

definition count_empty :: "EmptyReason option \<Rightarrow> SummaryAcc \<Rightarrow> SummaryAcc" where
  "count_empty reason s = (case reason of None \<Rightarrow> s
     | Some r \<Rightarrow> if r = [] then s
         else s\<lparr>sm_empty_counts := (sm_empty_counts s)(r \<mapsto> add_assign (unwrap_or (sm_empty_counts s r) 0) 1)\<rparr>)"

definition summary_step :: "CaseResult \<Rightarrow> SummaryAcc \<Rightarrow> SummaryAcc" where
  "summary_step c s =
     (let s = count_status (ca_status c) s;
          s = count_usage (ca_usage c) s;
          s = count_cost (ca_cost_usd c) (ca_cached c) s;
          s = fold (\<lambda>a. count_grader_cost (ar_cost_usd a)) (ca_asserts c) s;
          s = count_cached (ca_cached c) s;
          s = count_retried c s;
          s = count_fallback c s
      in count_empty (ca_empty_reason c) s)"

definition summarize :: "CaseResult list \<Rightarrow> RunSummary" where
  "summarize cases =
     (let s = fold summary_step cases (empty_summary (length cases))
      in RunSummary.truncate (s\<lparr>sm_cost_usd := then_some (sa_any_cost s) (to_usd (sa_cost s)),
           sm_cache_savings_usd := then_some (sa_any_cost s \<and> sa_saved s > 0) (to_usd (sa_saved s)),
           sm_grader_cost_usd := then_some (sa_any_grader_cost s) (to_usd (sa_grader_cost s))\<rparr>))"

definition answering_provider_id :: "CaseResult \<Rightarrow> string" where
  "answering_provider_id c = unwrap_or (ca_answered_by_provider_id c) (ck_provider_id (ca_cell c))"

section \<open>The order of the cases does not matter\<close>

lemma add_assign_comm: "add_assign (add_assign a b) c = add_assign (add_assign a c) b"
  by (simp add: add_assign_def mod_simps ac_simps)

lemma saturating_add_comm: "saturating_add (saturating_add a b) c = saturating_add (saturating_add a c) b"
  by (auto simp: saturating_add_def min_def)

text \<open>Each update as one assignment to the fields it touches.\<close>

definition bump :: "bool \<Rightarrow> u64 \<Rightarrow> u64" where
  "bump b n = (if b then add_assign n 1 else n)"

definition add_from :: "('a \<Rightarrow> u64) \<Rightarrow> 'a option \<Rightarrow> u64 \<Rightarrow> u64" where
  "add_from f x n = (case x of None \<Rightarrow> n | Some y \<Rightarrow> add_assign n (f y))"

definition add_money :: "f64 option \<Rightarrow> MicroUsd \<Rightarrow> MicroUsd" where
  "add_money x m = (case x of None \<Rightarrow> m | Some c \<Rightarrow> saturating_add m (from_usd c))"

definition bump_key :: "EmptyReason option \<Rightarrow> (string \<rightharpoonup> u64) \<Rightarrow> string \<rightharpoonup> u64" where
  "bump_key r m = (case r of None \<Rightarrow> m | Some k \<Rightarrow> if k = [] then m else m(k \<mapsto> add_assign (unwrap_or (m k) 0) 1))"

lemma bump_comm: "bump a (bump b n) = bump b (bump a n)"
  by (simp add: bump_def add_assign_comm)

lemma add_from_comm: "add_from f x (add_from f y n) = add_from f y (add_from f x n)"
  by (simp add: add_from_def add_assign_comm split: option.split)

lemma add_money_comm: "add_money x (add_money y m) = add_money y (add_money x m)"
  by (simp add: add_money_def saturating_add_comm split: option.split)

lemma bump_key_comm: "bump_key a (bump_key b m) = bump_key b (bump_key a m)"
  by (cases "a = b") (auto simp: bump_key_def fun_upd_twist split: option.split)

lemmas bumps_comm = bump_comm add_from_comm add_money_comm bump_key_comm

lemma count_status_upd: "count_status st s = s\<lparr>sm_passed := bump (st = Pass) (sm_passed s), sm_failed := bump (st = Fail) (sm_failed s),
    sm_errored := bump (st = Error) (sm_errored s), sm_skipped := bump (st = Skip) (sm_skipped s),
    sm_xfailed := bump (st = XFail) (sm_xfailed s), sm_xpassed := bump (st = XPass) (sm_xpassed s)\<rparr>"
  by (cases st) (simp_all add: count_status_def bump_def)

lemma count_usage_upd: "count_usage u s = s\<lparr>
    sm_prompt_tokens := add_from (\<lambda>u. saturating_add (input_tokens u) (unwrap_or (cache_read_tokens u) 0)) u (sm_prompt_tokens s),
    sm_completion_tokens := add_from output_tokens u (sm_completion_tokens s),
    sm_cache_read_tokens := add_from (\<lambda>u. unwrap_or (cache_read_tokens u) 0) u (sm_cache_read_tokens s),
    sm_cache_write_tokens := add_from (\<lambda>u. unwrap_or (cache_write_tokens u) 0) u (sm_cache_write_tokens s)\<rparr>"
  by (cases u) (simp_all add: count_usage_def add_from_def)

lemma count_cost_upd: "count_cost x b s = s\<lparr>sa_cost := add_money x (sa_cost s), sa_saved := add_money (if b then x else None) (sa_saved s),
    sa_any_cost := (sa_any_cost s \<or> x \<noteq> None)\<rparr>"
  by (cases x) (simp_all add: count_cost_def add_money_def)

lemma count_grader_cost_upd: "count_grader_cost x s = s\<lparr>sa_grader_cost := add_money x (sa_grader_cost s),
    sa_any_grader_cost := (sa_any_grader_cost s \<or> x \<noteq> None)\<rparr>"
  by (cases x) (simp_all add: count_grader_cost_def add_money_def)

lemma count_cached_upd: "count_cached b s = s\<lparr>sm_cache_hits := bump b (sm_cache_hits s), sm_cache_misses := bump (\<not> b) (sm_cache_misses s)\<rparr>"
  by (simp add: count_cached_def bump_def)

lemma count_retried_upd: "count_retried c s = s\<lparr>sm_retried_cases := bump (\<not> ca_cached c \<and> ca_attempts c > 1) (sm_retried_cases s)\<rparr>"
  by (simp add: count_retried_def bump_def)

lemma count_fallback_upd:
  "count_fallback c s = s\<lparr>sm_fallback_cases := bump (ca_status c \<noteq> Skip \<and> ca_answered_by_provider_id c \<noteq> None) (sm_fallback_cases s)\<rparr>"
  by (simp add: count_fallback_def bump_def)

lemma count_empty_upd: "count_empty r s = s\<lparr>sm_empty_counts := bump_key r (sm_empty_counts s)\<rparr>"
  by (cases r) (simp_all add: count_empty_def bump_key_def)

lemmas updates_upd = count_status_upd count_usage_upd count_cost_upd count_grader_cost_upd count_cached_upd count_retried_upd
  count_fallback_upd count_empty_upd

lemma grader_costs:
  "fold (\<lambda>a. count_grader_cost (ar_cost_usd a)) as s
   = s\<lparr>sa_grader_cost := fold (\<lambda>a. add_money (ar_cost_usd a)) as (sa_grader_cost s),
       sa_any_grader_cost := (sa_any_grader_cost s \<or> (\<exists>a \<in> set as. ar_cost_usd a \<noteq> None))\<rparr>"
  by (induction as arbitrary: s) (auto simp: count_grader_cost_upd)

text \<open>Every update of the loop commutes with every other one.\<close>

definition commutes :: "('s \<Rightarrow> 's) \<Rightarrow> ('s \<Rightarrow> 's) \<Rightarrow> bool" where
  "commutes f g \<longleftrightarrow> f \<circ> g = g \<circ> f"

lemma commutesD: "commutes f g \<Longrightarrow> f (g s) = g (f s)"
  by (simp add: commutes_def fun_eq_iff)

lemma commutes_sym: "commutes f g \<Longrightarrow> commutes g f"
  by (simp add: commutes_def)

lemma commutes_comp: "commutes f g \<Longrightarrow> commutes f h \<Longrightarrow> commutes f (g \<circ> h)"
  by (simp add: commutes_def fun_eq_iff)

lemma commutes_fold: "(\<And>x. x \<in> set xs \<Longrightarrow> commutes f (g x)) \<Longrightarrow> commutes f (fold g xs)"
proof (induction xs)
  case Nil
  then show ?case by (simp add: commutes_def fun_eq_iff)
next
  case (Cons x xs)
  have "commutes f (fold g xs \<circ> g x)" using Cons by (intro commutes_comp) simp_all
  then show ?case by (simp add: comp_def)
qed

inductive_set updates :: "(SummaryAcc \<Rightarrow> SummaryAcc) set" where
  "count_status st \<in> updates"
| "count_usage u \<in> updates"
| "count_cost x b \<in> updates"
| "count_grader_cost x \<in> updates"
| "count_cached b \<in> updates"
| "count_retried c \<in> updates"
| "count_fallback c \<in> updates"
| "count_empty r \<in> updates"

lemma updates_commute:
  assumes "f \<in> updates" and "g \<in> updates"
  shows "commutes f g"
  using assms by (elim updates.cases) (simp_all add: commutes_def fun_eq_iff updates_upd bumps_comm disj_commute disj_left_commute)

lemma summary_step_comp:
  "summary_step c = count_empty (ca_empty_reason c) \<circ> (count_fallback c \<circ> (count_retried c \<circ> (count_cached (ca_cached c)
     \<circ> (fold (\<lambda>a. count_grader_cost (ar_cost_usd a)) (ca_asserts c) \<circ> (count_cost (ca_cost_usd c) (ca_cached c)
     \<circ> (count_usage (ca_usage c) \<circ> count_status (ca_status c)))))))"
  by (simp add: fun_eq_iff summary_step_def Let_def)

lemma summary_step_commutes: "commutes (summary_step c) (summary_step d)"
proof -
  have one: "commutes f (summary_step c)" if "f \<in> updates" for f c
    unfolding summary_step_comp using that
    by (intro commutes_comp commutes_fold updates_commute) (auto intro: updates.intros)
  have two: "commutes (summary_step d) f" if "f \<in> updates" for f using one [OF that] by (rule commutes_sym)
  show ?thesis
    unfolding summary_step_comp [of c]
    by (rule commutes_sym) (intro commutes_comp commutes_fold two updates.intros)
qed

text \<open>The summary of a run says nothing about the order in which its cases finished: two lists with the same cases
  have the same summary, counters, costs and reasons included.\<close>

theorem summary_order_free:
  assumes "mset cases = mset cases'"
  shows "summarize cases = summarize cases'"
proof -
  have "fold summary_step cases = fold summary_step cases'"
    using assms summary_step_commutes by (intro fold_multiset_equiv) (simp_all add: commutes_def)
  moreover have "length cases = length cases'" using assms by (metis size_mset)
  ultimately show ?thesis by (simp add: summarize_def)
qed

section \<open>The tallies\<close>

text \<open>What holds of the summary under construction after \<open>k\<close> cases.\<close>

definition tally_inv :: "u64 \<Rightarrow> SummaryAcc \<Rightarrow> bool" where
  "tally_inv k s \<longleftrightarrow>
     sm_passed s + sm_failed s + sm_errored s + sm_skipped s + sm_xfailed s + sm_xpassed s = k
     \<and> sm_cache_hits s + sm_cache_misses s = k \<and> sm_retried_cases s \<le> sm_cache_misses s
     \<and> sm_fallback_cases s + sm_skipped s \<le> k \<and> sa_saved s \<le> sa_cost s \<and> sa_saved s \<le> u64_max \<and> (\<not> sa_any_cost s \<longrightarrow> sa_cost s = 0)"

lemma usage_tally: "tally_inv k (count_usage u s) \<longleftrightarrow> tally_inv k s"
  by (simp add: tally_inv_def count_usage_upd)

lemma empty_tally: "tally_inv k (count_empty r s) \<longleftrightarrow> tally_inv k s"
  by (simp add: tally_inv_def count_empty_upd)

lemma grader_tally: "tally_inv k (fold (\<lambda>a. count_grader_cost (ar_cost_usd a)) as s) \<longleftrightarrow> tally_inv k s"
  by (simp add: tally_inv_def grader_costs)

lemma cost_tally: "tally_inv k s \<Longrightarrow> tally_inv k (count_cost x b s)"
  by (auto simp: tally_inv_def count_cost_def saturating_add_def split: option.split)

lemma order_of_step:
  "summary_step c s = count_usage (ca_usage c) (count_empty (ca_empty_reason c)
     (fold (\<lambda>a. count_grader_cost (ar_cost_usd a)) (ca_asserts c) (count_cost (ca_cost_usd c) (ca_cached c)
       (count_fallback c (count_retried c (count_cached (ca_cached c) (count_status (ca_status c) s)))))))"
  by (simp add: summary_step_def Let_def grader_costs updates_upd)

lemma bump_exact: "n \<le> k \<Longrightarrow> k + 1 < 2 ^ 64 \<Longrightarrow> bump b n = n + of_bool b"
  by (simp add: bump_def add_assign_def)

lemma step_tally:
  assumes "tally_inv k s" and "k + 1 < 2 ^ 64"
  shows "tally_inv (k + 1) (summary_step c s)"
proof -
  note inv = assms(1) [unfolded tally_inv_def]
  have exact: "bump b (sm_passed s) = sm_passed s + of_bool b" "bump b (sm_failed s) = sm_failed s + of_bool b"
    "bump b (sm_errored s) = sm_errored s + of_bool b" "bump b (sm_skipped s) = sm_skipped s + of_bool b"
    "bump b (sm_xfailed s) = sm_xfailed s + of_bool b" "bump b (sm_xpassed s) = sm_xpassed s + of_bool b"
    "bump b (sm_cache_hits s) = sm_cache_hits s + of_bool b" "bump b (sm_cache_misses s) = sm_cache_misses s + of_bool b"
    "bump b (sm_retried_cases s) = sm_retried_cases s + of_bool b" "bump b (sm_fallback_cases s) = sm_fallback_cases s + of_bool b" for b
    using inv by (intro bump_exact [OF _ assms(2)]; linarith)+
  have "tally_inv (k + 1) (count_fallback c (count_retried c (count_cached (ca_cached c) (count_status (ca_status c) s))))"
    using inv by (cases "ca_status c") (simp_all add: tally_inv_def updates_upd exact of_bool_def)
  then show ?thesis
    unfolding order_of_step usage_tally empty_tally grader_tally by (rule cost_tally)
qed

lemma fold_tally: "tally_inv k s \<Longrightarrow> k + length cs < 2 ^ 64 \<Longrightarrow> tally_inv (k + length cs) (fold summary_step cs s)"
proof (induction cs arbitrary: k s)
  case (Cons c cs)
  then show ?case using step_tally [of k s c] Cons.IH [of "k + 1" "summary_step c s"] by simp
qed simp

lemma sm_total_step: "sm_total (fold summary_step cs s) = sm_total s"
proof (induction cs arbitrary: s)
  case (Cons c cs)
  have "sm_total (summary_step c s) = sm_total s"
    by (simp add: summary_step_def Let_def grader_costs updates_upd)
  then show ?case by (simp add: Cons)
qed simp

lemma to_usd_mono: "a \<le> b \<Longrightarrow> to_usd a \<le> to_usd b"
  by (simp add: to_usd_def divide_right_mono)

text \<open>C35: The tallies of a summary add up: every case is counted under exactly one status and as exactly one of a cache hit
  and a miss, a retried case is a miss, a case answered by a fallback is not also counted as skipped, and what
  the cache is said to have saved is part of the reported cost.\<close>

theorem summary_partitions:
  assumes "length cases < 2 ^ 64"
  shows "let s = summarize cases in
     sm_total s = length cases
     \<and> sm_passed s + sm_failed s + sm_errored s + sm_skipped s + sm_xfailed s + sm_xpassed s = sm_total s
     \<and> sm_cache_hits s + sm_cache_misses s = sm_total s \<and> sm_retried_cases s \<le> sm_cache_misses s
     \<and> sm_fallback_cases s + sm_skipped s \<le> sm_total s
     \<and> (\<forall>saved. sm_cache_savings_usd s = Some saved \<longrightarrow> (\<exists>cost. sm_cost_usd s = Some cost \<and> 0 < saved \<and> saved \<le> cost))"
proof -
  let ?s = "fold summary_step cases (empty_summary (length cases))"
  have "tally_inv (0 + length cases) ?s"
    using assms by (intro fold_tally) (simp_all add: tally_inv_def empty_summary_def)
  then show ?thesis
    by (auto simp: summarize_def Let_def RunSummary.truncate_def tally_inv_def sm_total_step empty_summary_def to_usd_mono)
      (simp add: to_usd_def)
qed

definition demo_case :: "string \<Rightarrow> CaseStatus \<Rightarrow> bool \<Rightarrow> f64 \<Rightarrow> CaseResult" where
  "demo_case t st cached cost = (error_case demo_env (demo_cell_key t) t None demo_test (before_any_attempt CACHE_MISS []) 0 no_inputs)
     \<lparr>ca_status := st, ca_cached := cached, ca_cost_usd := Some cost\<rparr>"

lemma demo_case_sel:
  "ca_status (demo_case t st b x) = st" "ca_cached (demo_case t st b x) = b" "ca_cost_usd (demo_case t st b x) = Some x"
  "ca_usage (demo_case t st b x) = None" "ca_asserts (demo_case t st b x) = []" "ca_attempts (demo_case t st b x) = 0"
  "ca_answered_by_provider_id (demo_case t st b x) = None" "ca_empty_reason (demo_case t st b x) = None"
  by (simp_all add: demo_case_def error_case_def before_any_attempt_def no_inputs_def)

theorem summary_partitions_witness:
  "let s = summarize [demo_case ''a'' Pass True 2, demo_case ''b'' Fail False 1]
   in sm_passed s = 1 \<and> sm_passed s + sm_failed s + sm_errored s + sm_skipped s + sm_xfailed s + sm_xpassed s = 2
     \<and> sm_cache_hits s + sm_cache_misses s = 2"
proof -
  let ?c = "[demo_case ''a'' Pass True 2, demo_case ''b'' Fail False 1]"
  have "sm_passed (summarize ?c) = 1"
    by (simp add: summarize_def Let_def summary_step_def updates_upd grader_costs bump_def demo_case_sel RunSummary.truncate_def empty_summary_def add_assign_def)
  then show ?thesis using summary_partitions [of ?c] by (simp add: Let_def)
qed

theorem summary_order_free_witness:
  "summarize [demo_case ''a'' Pass True 2, demo_case ''b'' Fail False 1] = summarize [demo_case ''b'' Fail False 1, demo_case ''a'' Pass True 2]"
  by (rule summary_order_free) simp

end
