(* ===== verification/Stats.thy ===== *)
theory Stats
  imports Prelude
begin

text \<open>
  Statistics of eval results (\<open>crates/domarinn-core/src/stats.rs\<close>): the Wilson score interval of a
  pass rate, McNemar's paired test with continuity correction, and the pass@k estimator.
\<close>

section \<open>Model\<close>

definition Z_95 :: f64 where
  "Z_95 = 1959963984540054 / 1000000000000000"

record PassRate =
  pr_passed :: u64
  pr_total :: u64
  pr_rate :: f64
  pr_lower :: f64
  pr_upper :: f64

definition clamp :: "f64 \<Rightarrow> f64 \<Rightarrow> f64 \<Rightarrow> f64" where
  "clamp x lo hi = (if x < lo then lo else if x > hi then hi else x)"

definition wilson :: "u64 \<Rightarrow> u64 \<Rightarrow> f64 \<Rightarrow> PassRate" where
  "wilson passed tot z =
     (if tot = 0
      then \<lparr>pr_passed = passed, pr_total = tot, pr_rate = 0, pr_lower = 0, pr_upper = 0\<rparr>
      else (let n = real tot;
                phat = real passed / n;
                z2 = z * z;
                denom = 1 + z2 / n;
                center = phat + z2 / (2 * n);
                margin = z * sqrt ((phat * (1 - phat) + z2 / (4 * n)) / n)
            in \<lparr>pr_passed = passed, pr_total = tot, pr_rate = phat,
                pr_lower = clamp ((center - margin) / denom) 0 1,
                pr_upper = clamp ((center + margin) / denom) 0 1\<rparr>))"

record McNemar =
  mc_b :: u64
  mc_c :: u64
  mc_statistic :: f64
  mc_significant :: bool

definition mcnemar :: "u64 \<Rightarrow> u64 \<Rightarrow> McNemar" where
  "mcnemar b c =
     (let bc = real (b + c);
          statistic = (if bc = 0 then 0
                       else (let diff = \<bar>real b - real c\<bar> - 1 in (max diff 0) ^ 2 / bc))
      in \<lparr>mc_b = b, mc_c = c, mc_statistic = statistic, mc_significant = statistic > 3841 / 1000\<rparr>)"

text \<open>\<open>n - passed\<close> on \<open>u64\<close> wraps when \<open>passed > n\<close> (in a release build).\<close>

definition wrapping_sub :: "u64 \<Rightarrow> u64 \<Rightarrow> u64" where
  "wrapping_sub a b = (a + 2 ^ 64 - b) mod 2 ^ 64"

definition pass_at_k :: "u64 \<Rightarrow> u64 \<Rightarrow> u64 \<Rightarrow> f64" where
  "pass_at_k n passed k =
     (if k \<ge> n then (if passed > 0 then 1 else 0)
      else (let fails = wrapping_sub n passed
            in if fails < k then 1
               else 1 - foldl (\<lambda>p i. p * (real (fails - i) / real (n - i))) 1 [0..<k]))"

section \<open>Wilson interval\<close>

text \<open>The unclamped ends of the interval, and the identity that makes them the roots of the score
  equation.\<close>

definition wilson_end :: "real \<Rightarrow> real \<Rightarrow> real \<Rightarrow> real \<Rightarrow> real" where
  "wilson_end sg phat n z =
     ((phat + z\<^sup>2 / (2 * n)) + sg * (z * sqrt ((phat * (1 - phat) + z\<^sup>2 / (4 * n)) / n))) / (1 + z\<^sup>2 / n)"

lemma margin_square:
  fixes n phat z :: real
  assumes "0 < n" "0 \<le> phat" "phat \<le> 1"
  shows "(z * sqrt ((phat * (1 - phat) + z\<^sup>2 / (4 * n)) / n))\<^sup>2
       = (phat + z\<^sup>2 / (2 * n))\<^sup>2 - (1 + z\<^sup>2 / n) * phat\<^sup>2"
proof -
  have "0 \<le> (phat * (1 - phat) + z\<^sup>2 / (4 * n)) / n" using assms by simp
  then have "(z * sqrt ((phat * (1 - phat) + z\<^sup>2 / (4 * n)) / n))\<^sup>2
      = z\<^sup>2 * ((phat * (1 - phat) + z\<^sup>2 / (4 * n)) / n)"
    by (simp add: power_mult_distrib)
  also have "\<dots> = (phat + z\<^sup>2 / (2 * n))\<^sup>2 - (1 + z\<^sup>2 / n) * phat\<^sup>2"
    using assms(1) by (simp add: power2_eq_square field_simps)
  finally show ?thesis .
qed

lemma wilson_ends_solve:
  fixes n phat z p :: real
  assumes "0 < n" "0 \<le> phat" "phat \<le> 1" "0 \<le> z"
  shows "wilson_end (-1) phat n z \<le> p \<and> p \<le> wilson_end 1 phat n z
     \<longleftrightarrow> (phat - p)\<^sup>2 \<le> z\<^sup>2 * (p * (1 - p) / n)"
proof -
  define D where "D = 1 + z\<^sup>2 / n"
  define c where "c = phat + z\<^sup>2 / (2 * n)"
  define m where "m = z * sqrt ((phat * (1 - phat) + z\<^sup>2 / (4 * n)) / n)"
  have D: "0 < D" using assms(1) by (simp add: D_def add_pos_nonneg)
  have m: "0 \<le> m" using assms by (simp add: m_def)
  have msq: "m\<^sup>2 = c\<^sup>2 - D * phat\<^sup>2"
    using margin_square [OF assms(1-3), of z] by (simp add: m_def c_def D_def)
  have quad: "(D * p - c)\<^sup>2 - m\<^sup>2 = D * (D * p\<^sup>2 - 2 * c * p + phat\<^sup>2)"
    unfolding msq by (simp add: power2_eq_square algebra_simps)
  have gap: "D * p\<^sup>2 - 2 * c * p + phat\<^sup>2 = (phat - p)\<^sup>2 - z\<^sup>2 * (p * (1 - p) / n)"
    using assms(1) by (simp add: D_def c_def power2_eq_square field_simps)
  have ends: "wilson_end (-1) phat n z = (c - m) / D" "wilson_end 1 phat n z = (c + m) / D"
    by (simp_all add: wilson_end_def D_def c_def m_def)
  have "wilson_end (-1) phat n z \<le> p \<and> p \<le> wilson_end 1 phat n z \<longleftrightarrow> \<bar>D * p - c\<bar> \<le> m"
    using D unfolding ends by (auto simp: divide_le_eq le_divide_eq algebra_simps abs_le_iff)
  also have "\<dots> \<longleftrightarrow> (D * p - c)\<^sup>2 \<le> m\<^sup>2"
    using m by (metis abs_ge_zero abs_le_square_iff abs_of_nonneg)
  also have "\<dots> \<longleftrightarrow> D * (D * p\<^sup>2 - 2 * c * p + phat\<^sup>2) \<le> 0" using quad by linarith
  also have "\<dots> \<longleftrightarrow> D * p\<^sup>2 - 2 * c * p + phat\<^sup>2 \<le> 0" using D by (simp add: mult_le_0_iff)
  finally show ?thesis using gap by simp
qed

lemma wilson_rate_inside:
  assumes "0 < n" "0 \<le> phat" "phat \<le> 1" "0 \<le> (z::real)"
  shows "wilson_end (-1) phat n z \<le> phat \<and> phat \<le> wilson_end 1 phat n z"
  using wilson_ends_solve [OF assms, of phat] assms by simp

text \<open>Outside [0, 1] the variance \<open>p * (1 - p)\<close> is negative, so no such \<open>p\<close> is in the interval: the
  clamp of the code never cuts anything off.\<close>

lemma wilson_ends_unit:
  assumes "0 < n" "0 \<le> phat" "phat \<le> 1" "0 \<le> (z::real)"
  shows "0 \<le> wilson_end (-1) phat n z" "wilson_end 1 phat n z \<le> 1"
proof -
  have unit: "0 \<le> p * (1 - p)"
    if "(phat - p)\<^sup>2 \<le> z\<^sup>2 * (p * (1 - p) / n)" "z \<noteq> 0" for p
  proof (rule ccontr)
    assume "\<not> 0 \<le> p * (1 - p)"
    then have "z\<^sup>2 * (p * (1 - p) / n) < 0" using that(2) assms(1)
      by (simp add: mult_pos_neg divide_neg_pos)
    with that(1) show False using zero_le_power2 [of "phat - p"] by linarith
  qed
  have inside: "(phat - e)\<^sup>2 \<le> z\<^sup>2 * (e * (1 - e) / n)"
    if "e = wilson_end (-1) phat n z \<or> e = wilson_end 1 phat n z" for e
    using wilson_rate_inside [OF assms] that
    by (subst wilson_ends_solve [OF assms, symmetric]) auto
  show "0 \<le> wilson_end (-1) phat n z" "wilson_end 1 phat n z \<le> 1"
  proof -
    show "0 \<le> wilson_end (-1) phat n z"
    proof (cases "z = 0")
      case True
      then show ?thesis using assms by (simp add: wilson_end_def)
    next
      case False
      have "wilson_end (-1) phat n z \<le> 1" using wilson_rate_inside [OF assms] assms(3) by linarith
      then show ?thesis using unit [OF inside False, of "wilson_end (-1) phat n z"]
        by (auto simp: zero_le_mult_iff)
    qed
    show "wilson_end 1 phat n z \<le> 1"
    proof (cases "z = 0")
      case True
      then show ?thesis using assms by (simp add: wilson_end_def)
    next
      case False
      have "0 \<le> wilson_end 1 phat n z" using wilson_rate_inside [OF assms] assms(2) by linarith
      then show ?thesis using unit [OF inside False, of "wilson_end 1 phat n z"]
        by (auto simp: zero_le_mult_iff)
    qed
  qed
qed


lemma wilson_fields:
  assumes "0 < tot" "passed \<le> tot" "0 \<le> z"
  shows "pr_rate (wilson passed tot z) = real passed / real tot"
    and "pr_lower (wilson passed tot z) = wilson_end (-1) (real passed / real tot) (real tot) z"
    and "pr_upper (wilson passed tot z) = wilson_end 1 (real passed / real tot) (real tot) z"
proof -
  let ?r = "real passed / real tot" and ?n = "real tot"
  have h: "0 < ?n" "0 \<le> ?r" "?r \<le> 1" using assms by (simp_all add: divide_le_eq)
  have lo: "clamp (wilson_end (-1) ?r ?n z) 0 1 = wilson_end (-1) ?r ?n z"
    and hi: "clamp (wilson_end 1 ?r ?n z) 0 1 = wilson_end 1 ?r ?n z"
    using wilson_ends_unit [OF h assms(3)] wilson_rate_inside [OF h assms(3)] h
    by (auto simp: clamp_def)
  show "pr_rate (wilson passed tot z) = ?r"
    and "pr_lower (wilson passed tot z) = wilson_end (-1) ?r ?n z"
    and "pr_upper (wilson passed tot z) = wilson_end 1 ?r ?n z"
    using assms(1) lo hi by (simp_all add: wilson_def Let_def wilson_end_def power2_eq_square)
qed

text \<open>The reported interval is the Wilson score interval: a proportion \<open>p\<close> in [0, 1] lies between
  \<open>lower\<close> and \<open>upper\<close> exactly when the observed rate is within \<open>z\<close> standard errors of \<open>p\<close>, the
  standard error taken at \<open>p\<close>. The observed rate is inside, the ends stay in [0, 1], and the
  clamp in the code never moves an end.\<close>

theorem wilson_is_score_interval:
  assumes "0 < tot" "passed \<le> tot" "0 \<le> z" "0 \<le> p" "p \<le> 1"
  shows "(pr_lower (wilson passed tot z) \<le> p \<and> p \<le> pr_upper (wilson passed tot z)
            \<longleftrightarrow> (real passed / real tot - p)\<^sup>2 \<le> z\<^sup>2 * (p * (1 - p) / real tot))
    \<and> 0 \<le> pr_lower (wilson passed tot z)
    \<and> pr_lower (wilson passed tot z) \<le> pr_rate (wilson passed tot z)
    \<and> pr_rate (wilson passed tot z) \<le> pr_upper (wilson passed tot z)
    \<and> pr_upper (wilson passed tot z) \<le> 1"
proof -
  have h: "0 < real tot" "0 \<le> real passed / real tot" "real passed / real tot \<le> 1"
    using assms by (simp_all add: divide_le_eq)
  show ?thesis
    using wilson_ends_solve [OF h assms(3), of p] wilson_ends_unit [OF h assms(3)]
      wilson_rate_inside [OF h assms(3)]
    by (simp add: wilson_fields [OF assms(1-3)])
qed

theorem wilson_is_score_interval_witness:
  "pr_lower (wilson 5 10 2) \<le> 2/5 \<and> 2/5 \<le> pr_upper (wilson 5 10 2)"
  using wilson_is_score_interval [of 10 5 2 "2/5"] by (simp add: power2_eq_square)

section \<open>McNemar\<close>

lemma mcnemar_fields:
  "mc_b (mcnemar b c) = b" "mc_c (mcnemar b c) = c"
  "mc_statistic (mcnemar b c) = (max (\<bar>real b - real c\<bar> - 1) 0)\<^sup>2 / real (b + c)"
  "mc_significant (mcnemar b c) \<longleftrightarrow> mc_statistic (mcnemar b c) > 3841 / 1000"
  by (simp_all add: mcnemar_def Let_def)

text \<open>McNemar's test does not depend on which run is called the base, never reports significance
  when regressions and fixes differ by at most one, and needs at least six discordant cases to
  report it at all.\<close>

theorem mcnemar_sound:
  "mc_statistic (mcnemar b c) = mc_statistic (mcnemar c b)
   \<and> 0 \<le> mc_statistic (mcnemar b c)
   \<and> (\<bar>real b - real c\<bar> \<le> 1 \<longrightarrow> \<not> mc_significant (mcnemar b c))
   \<and> (mc_significant (mcnemar b c) \<longrightarrow> 6 \<le> b + c)"
proof -
  have "6 \<le> b + c" if sig: "mc_significant (mcnemar b c)"
  proof (rule ccontr)
    assume "\<not> 6 \<le> b + c"
    then have le: "b + c \<le> 5" by simp
    define d where "d = max (\<bar>real b - real c\<bar> - 1) 0"
    have d: "0 \<le> d" "d \<le> max (real (b + c) - 1) 0" by (auto simp: d_def)
    have "b + c \<noteq> 0"
    proof
      assume "b + c = 0"
      then show False using sig by (simp add: mcnemar_fields)
    qed
    then have pos: "0 < real (b + c)" and n1: "1 \<le> real (b + c)" by linarith+
    have "d\<^sup>2 \<le> (real (b + c) - 1)\<^sup>2" using d n1 by (intro power_mono) auto
    also have "\<dots> \<le> 32 / 10 * real (b + c)"
    proof -
      have "real (b + c) \<le> 5" using le by linarith
      then have "(real (b + c) - 1) * (real (b + c) - 1) \<le> (real (b + c) - 1) * 4"
        using n1 by (intro mult_left_mono) auto
      with \<open>real (b + c) \<le> 5\<close> show ?thesis by (simp add: power2_eq_square)
    qed
    finally have "d\<^sup>2 / real (b + c) \<le> 32 / 10" using pos by (simp add: divide_le_eq)
    moreover have "3841 / 1000 < d\<^sup>2 / real (b + c)"
      using sig by (simp only: mcnemar_fields d_def)
    ultimately show False by linarith
  qed
  then show ?thesis by (auto simp: mcnemar_fields add.commute abs_minus_commute)
qed

theorem mcnemar_sound_witness:
  "mc_significant (mcnemar 20 2) \<and> 6 \<le> (20::nat) + 2 \<and> \<not> mc_significant (mcnemar 3 2)"
proof -
  have "mc_significant (mcnemar 20 2)" by (simp add: mcnemar_fields power2_eq_square)
  with mcnemar_sound [of 20 2] mcnemar_sound [of 3 2] show ?thesis by simp
qed

section \<open>pass@k\<close>

lemma wrapping_sub_le: "b \<le> a \<Longrightarrow> a < 2 ^ 64 \<Longrightarrow> wrapping_sub a b = a - b"
proof -
  assume "b \<le> a" "a < 2 ^ 64"
  then have "a + 2 ^ 64 - b = (a - b) + 2 ^ 64" "a - b < 2 ^ 64" by simp_all
  then show ?thesis unfolding wrapping_sub_def by (metis mod_add_self2 mod_less)
qed

lemma foldl_prod: "foldl (\<lambda>p i. p * (f i :: real)) a [0..<k] = a * (\<Prod>i = 0..<k. f i)"
  by (induction k) simp_all

lemma choose_ratio:
  assumes "k \<le> m" "k \<le> n"
  shows "(\<Prod>i = 0..<k. real (m - i) / real (n - i)) = real (m choose k) / real (n choose k)"
proof -
  have "real (m choose k) / real (n choose k)
      = (\<Prod>i = 0..<k. real (m - i) / real (k - i)) / (\<Prod>i = 0..<k. real (n - i) / real (k - i))"
    using assms by (simp add: binomial_altdef_of_nat)
  also have "\<dots> = (\<Prod>i = 0..<k. (real (m - i) / real (k - i)) / (real (n - i) / real (k - i)))"
    by (simp add: prod_dividef)
  also have "\<dots> = (\<Prod>i = 0..<k. real (m - i) / real (n - i))"
    by (rule prod.cong) auto
  finally show ?thesis by simp
qed

text \<open>The loop of \<open>pass_at_k\<close> computes the unbiased estimator: of \<open>n\<close> trials with \<open>passed\<close> successes, one
  minus the share of the \<open>k\<close>-element samples that contain no success.\<close>

theorem pass_at_k_is_unbiased_estimator:
  assumes "passed \<le> n" "k \<le> n" "n < 2 ^ 64"
  shows "pass_at_k n passed k = 1 - real ((n - passed) choose k) / real (n choose k)"
proof (cases "k = n")
  case True
  with assms show ?thesis by (cases "passed = 0") (auto simp: pass_at_k_def)
next
  case False
  with assms have k: "k < n" by simp
  show ?thesis
  proof (cases "n - passed < k")
    case True
    with k assms show ?thesis by (simp add: pass_at_k_def wrapping_sub_le binomial_eq_0)
  next
    case False
    then have "pass_at_k n passed k
        = 1 - foldl (\<lambda>p i. p * (real (n - passed - i) / real (n - i))) 1 [0..<k]"
      using k by (simp add: pass_at_k_def wrapping_sub_le [OF assms(1,3)] Let_def)
    also have "\<dots> = 1 - real ((n - passed) choose k) / real (n choose k)"
      using False k by (simp only: foldl_prod choose_ratio mult_1 not_less less_imp_le)
    finally show ?thesis .
  qed
qed

theorem pass_at_k_is_unbiased_estimator_witness: "pass_at_k 4 1 2 = 1 / 2"
proof -
  have "(3::nat) choose 2 = 3" "(4::nat) choose 2 = 6" by (simp_all add: choose_two)
  then show ?thesis using pass_at_k_is_unbiased_estimator [of 1 4 2] by simp
qed

end
