(* ===== verification/Compare.thy ===== *)
theory Compare
  imports Summary Stats
begin

text \<open>
  Results of whole runs and what is made of them: the run record (\<open>crates/domarinn-types/src/result.rs\<close>), the diff of
  two runs (\<open>crates/domarinn-core/src/diff.rs\<close>), the classification of a changed case
  (\<open>crates/domarinn-types/src/change.rs\<close>) and the composite baseline of a branch (\<open>crates/domarinn-core/src/composite.rs\<close>).
  A \<open>BTreeMap\<close> collected from a list keeps the last entry of a key; a timestamp is an integer.
\<close>

section \<open>Model\<close>

record GitMeta =
  gm_branch :: "string option"
  gm_commit :: "string option"
  gm_dirty :: bool

record CiMeta =
  ci_provider :: "string option"
  ci_run_url :: "string option"

record RunOrigin =
  ro_actor :: "string option"
  ro_host :: "string option"
  ro_version :: "string option"
  ro_note :: "string option"
  ro_redacted :: "bool option"

record ConfigDigests =
  cd_prompts :: "string option"
  cd_providers :: "string option"
  cd_tests :: "string option"
  cd_asserts :: "string option"
  cd_grader :: "string option"

record CompositeBaseline =
  cb_branch :: string
  cb_contributing_run_ids :: "string list"
  cb_truncated :: "bool option"

record FilterSpec =
  fs_tags :: "string list"
  fs_filters :: "string list"
  fs_providers :: "string list"
  fs_prompts :: "string list"

definition no_filters :: FilterSpec where
  "no_filters = \<lparr>fs_tags = [], fs_filters = [], fs_providers = [], fs_prompts = []\<rparr>"

record RunResult =
  rr_schema_version :: u32
  rr_run_id :: string
  rr_project :: "string option"
  rr_suite :: "string option"
  rr_started_at :: int
  rr_finished_at :: int
  rr_config_digest :: string
  rr_config_snapshot :: json
  rr_git :: "GitMeta option"
  rr_ci :: "CiMeta option"
  rr_origin :: "RunOrigin option"
  rr_digests :: "ConfigDigests option"
  rr_share_url :: "string option"
  rr_composite :: "CompositeBaseline option"
  rr_filters :: FilterSpec
  rr_cases :: "CaseResult list"
  rr_summary :: RunSummary

definition RESULT_SCHEMA_VERSION :: u32 where "RESULT_SCHEMA_VERSION = 4"

subsection \<open>Diff of two runs\<close>

datatype Delta = NewlyFailing | NewlyPassing | StillFailing | Unchanged | Added | Removed

record CaseDelta =
  dl_case_key :: string
  dl_name :: "string option"
  dl_base_status :: "CaseStatus option"
  dl_head_status :: "CaseStatus option"
  dl_delta :: Delta
  dl_output_changed :: bool

record DiffSummary =
  ds_newly_failing :: u64
  ds_newly_passing :: u64
  ds_still_failing :: u64
  ds_unchanged :: u64
  ds_output_changed :: u64
  ds_added :: u64
  ds_removed :: u64

record McNemarView =
  mv_regressions :: u64
  mv_fixes :: u64
  mv_statistic :: f64
  mv_significant :: bool

record RunDiff =
  rd_cases :: "CaseDelta list"
  rd_summary :: DiffSummary
  rd_mcnemar :: McNemarView

definition mcnemar_view :: "McNemar \<Rightarrow> McNemarView" where
  "mcnemar_view m = \<lparr>mv_regressions = mc_b m, mv_fixes = mc_c m, mv_statistic = mc_statistic m, mv_significant = mc_significant m\<rparr>"

definition has_regression :: "RunDiff \<Rightarrow> bool" where
  "has_regression d \<longleftrightarrow> ds_newly_failing (rd_summary d) > 0"

definition passed :: "CaseStatus \<Rightarrow> bool" where
  "passed st = (case st of Pass \<Rightarrow> True | XPass \<Rightarrow> True | _ \<Rightarrow> False)"

definition output_text :: "serde \<Rightarrow> CaseResult \<Rightarrow> string" where
  "output_text sd c = (case ca_output c of None \<Rightarrow> [] | Some out \<Rightarrow> as_text sd out)"

definition by_key :: "CaseResult list \<Rightarrow> string \<rightharpoonup> CaseResult" where
  "by_key cases = fold (\<lambda>c m. m(ca_case_key c \<mapsto> c)) cases Map.empty"

definition tally :: "DiffSummary \<Rightarrow> Delta \<Rightarrow> bool \<Rightarrow> DiffSummary" where
  "tally summary delta output_changed =
     (let s = (case delta of
          NewlyFailing \<Rightarrow> summary\<lparr>ds_newly_failing := add_assign (ds_newly_failing summary) 1\<rparr>
        | NewlyPassing \<Rightarrow> summary\<lparr>ds_newly_passing := add_assign (ds_newly_passing summary) 1\<rparr>
        | StillFailing \<Rightarrow> summary\<lparr>ds_still_failing := add_assign (ds_still_failing summary) 1\<rparr>
        | Unchanged \<Rightarrow> summary\<lparr>ds_unchanged := add_assign (ds_unchanged summary) 1\<rparr>
        | Added \<Rightarrow> summary\<lparr>ds_added := add_assign (ds_added summary) 1\<rparr>
        | Removed \<Rightarrow> summary\<lparr>ds_removed := add_assign (ds_removed summary) 1\<rparr>)
      in if output_changed then s\<lparr>ds_output_changed := add_assign (ds_output_changed s) 1\<rparr> else s)"

definition delta_of :: "bool \<Rightarrow> bool \<Rightarrow> Delta" where
  "delta_of base_pass head_pass = (case (base_pass, head_pass) of
       (True, False) \<Rightarrow> NewlyFailing | (False, True) \<Rightarrow> NewlyPassing
     | (False, False) \<Rightarrow> StillFailing | (True, True) \<Rightarrow> Unchanged)"

text \<open>What the two loops of \<open>diff_runs\<close> build up.\<close>

record DiffAcc =
  da_cases :: "CaseDelta list"
  da_summary :: DiffSummary
  da_b :: u64
  da_c :: u64

definition head_delta :: "serde \<Rightarrow> (string \<rightharpoonup> CaseResult) \<Rightarrow> CaseResult \<Rightarrow> CaseDelta" where
  "head_delta sd base_by_key hc =
     (let (delta, base_status, output_changed) = (case base_by_key (ca_case_key hc) of
            Some bc \<Rightarrow> (delta_of (passed (ca_status bc)) (passed (ca_status hc)), Some (ca_status bc), output_text sd bc \<noteq> output_text sd hc)
          | None \<Rightarrow> (Added, None, False))
      in \<lparr>dl_case_key = ca_case_key hc, dl_name = ca_name hc, dl_base_status = base_status, dl_head_status = Some (ca_status hc),
          dl_delta = delta, dl_output_changed = output_changed\<rparr>)"

definition diff_head :: "serde \<Rightarrow> (string \<rightharpoonup> CaseResult) \<Rightarrow> CaseResult \<Rightarrow> DiffAcc \<Rightarrow> DiffAcc" where
  "diff_head sd base_by_key hc acc =
     (let d = head_delta sd base_by_key hc
      in acc\<lparr>da_cases := da_cases acc @ [d], da_summary := tally (da_summary acc) (dl_delta d) (dl_output_changed d),
             da_b := (if dl_delta d = NewlyFailing then add_assign (da_b acc) 1 else da_b acc),
             da_c := (if dl_delta d = NewlyPassing then add_assign (da_c acc) 1 else da_c acc)\<rparr>)"

definition removed_delta :: "CaseResult \<Rightarrow> CaseDelta" where
  "removed_delta bc = \<lparr>dl_case_key = ca_case_key bc, dl_name = ca_name bc, dl_base_status = Some (ca_status bc), dl_head_status = None,
     dl_delta = Removed, dl_output_changed = False\<rparr>"

definition diff_base :: "(string \<rightharpoonup> CaseResult) \<Rightarrow> CaseResult \<Rightarrow> DiffAcc \<Rightarrow> DiffAcc" where
  "diff_base head_by_key bc acc = (case head_by_key (ca_case_key bc) of
       Some _ \<Rightarrow> acc
     | None \<Rightarrow> acc\<lparr>da_cases := da_cases acc @ [removed_delta bc],
          da_summary := (da_summary acc)\<lparr>ds_removed := add_assign (ds_removed (da_summary acc)) 1\<rparr>\<rparr>)"

definition empty_diff :: DiffAcc where
  "empty_diff = \<lparr>da_cases = [], da_summary = \<lparr>ds_newly_failing = 0, ds_newly_passing = 0, ds_still_failing = 0, ds_unchanged = 0,
     ds_output_changed = 0, ds_added = 0, ds_removed = 0\<rparr>, da_b = 0, da_c = 0\<rparr>"

definition diff_runs :: "serde \<Rightarrow> RunResult \<Rightarrow> RunResult \<Rightarrow> RunDiff" where
  "diff_runs sd base head =
     (let acc = fold (diff_head sd (by_key (rr_cases base))) (rr_cases head) empty_diff;
          acc = fold (diff_base (by_key (rr_cases head))) (rr_cases base) acc
      in \<lparr>rd_cases = da_cases acc, rd_summary = da_summary acc, rd_mcnemar = mcnemar_view (mcnemar (da_b acc) (da_c acc))\<rparr>)"

subsection \<open>Why a case changed\<close>

datatype CaseChange = Unknown | PromptChanged | ProviderChanged | AssertsChanged | GraderChanged | ModelDrift | OutputDrift | UnstableGrader | Stable

record ChangeInputs =
  ch_base_prompt :: "string option"
  ch_head_prompt :: "string option"
  ch_base_provider :: "string option"
  ch_head_provider :: "string option"
  ch_base_asserts :: "string option"
  ch_head_asserts :: "string option"
  ch_base_grader :: "string option"
  ch_head_grader :: "string option"
  ch_output_changed :: bool
  ch_verdict_changed :: bool

definition moved :: "string option \<Rightarrow> string option \<Rightarrow> bool option" where
  "moved base head = (case (base, head) of (Some b, Some h) \<Rightarrow> Some (b \<noteq> h) | _ \<Rightarrow> None)"

definition classify_change :: "ChangeInputs \<Rightarrow> CaseChange" where
  "classify_change i =
     (let prompt = moved (ch_base_prompt i) (ch_head_prompt i);
          provider = moved (ch_base_provider i) (ch_head_provider i);
          asserts = moved (ch_base_asserts i) (ch_head_asserts i);
          grader = moved (ch_base_grader i) (ch_head_grader i)
      in if prompt = Some True then PromptChanged
         else if provider = Some True then ProviderChanged
         else if asserts = Some True then AssertsChanged
         else if grader = Some True then GraderChanged
         else if prompt = None \<or> provider = None \<or> asserts = None \<or> grader = None then Unknown
         else case (ch_output_changed i, ch_verdict_changed i) of
             (True, True) \<Rightarrow> ModelDrift | (True, False) \<Rightarrow> OutputDrift
           | (False, True) \<Rightarrow> UnstableGrader | (False, False) \<Rightarrow> Stable)"

subsection \<open>The composite baseline of a branch\<close>

definition BRANCH_LOOKBACK :: nat where "BRANCH_LOOKBACK = 20"

record MergeAcc =
  ma_seen :: "string set"
  ma_cases :: "CaseResult list"
  ma_contributors :: "string list"
  ma_skeleton :: "RunResult option"
  ma_last :: "nat option"

definition merge_case :: "CaseResult \<Rightarrow> (string set \<times> CaseResult list \<times> bool) \<Rightarrow> string set \<times> CaseResult list \<times> bool" where
  "merge_case c = (\<lambda>(seen, merged, contributed).
     if ca_case_key c \<in> seen then (seen, merged, contributed)
     else (insert (ca_case_key c) seen, merged @ [c], True))"

definition merge_run :: "nat \<times> RunResult \<Rightarrow> MergeAcc \<Rightarrow> MergeAcc" where
  "merge_run = (\<lambda>(index, run) acc.
     (let (seen, merged, contributed) = fold merge_case (rr_cases run) (ma_seen acc, ma_cases acc, False);
          run = run\<lparr>rr_cases := []\<rparr>;
          acc = acc\<lparr>ma_seen := seen, ma_cases := merged\<rparr>
      in if contributed
         then acc\<lparr>ma_contributors := ma_contributors acc @ [rr_run_id run], ma_last := Some index,
                  ma_skeleton := or_else (ma_skeleton acc) (Some run)\<rparr>
         else acc))"

definition no_merge :: MergeAcc where
  "no_merge = \<lparr>ma_seen = {}, ma_cases = [], ma_contributors = [], ma_skeleton = None, ma_last = None\<rparr>"

definition merge_branch_runs :: "string \<Rightarrow> RunResult list \<Rightarrow> RunResult option" where
  "merge_branch_runs branch runs_newest_first =
     (let runs_given = length runs_newest_first;
          acc = fold merge_run (enumerate 0 (take BRANCH_LOOKBACK runs_newest_first)) no_merge
      in Option.bind (ma_skeleton acc) (\<lambda>newest. Some
           \<lparr>rr_schema_version = RESULT_SCHEMA_VERSION, rr_run_id = ''composite-'' @ branch @ ''-'' @ rr_run_id newest,
            rr_project = rr_project newest, rr_suite = rr_suite newest, rr_started_at = rr_started_at newest,
            rr_finished_at = rr_finished_at newest, rr_config_digest = rr_config_digest newest,
            rr_config_snapshot = rr_config_snapshot newest,
            rr_git = Some \<lparr>gm_branch = Some branch, gm_commit = None, gm_dirty = False\<rparr>, rr_ci = None, rr_origin = None,
            rr_digests = rr_digests newest, rr_share_url = None,
            rr_composite = Some \<lparr>cb_branch = branch, cb_contributing_run_ids = ma_contributors acc,
              cb_truncated = then_some (ma_last acc = Some (BRANCH_LOOKBACK - 1) \<and> runs_given > BRANCH_LOOKBACK) True\<rparr>,
            rr_filters = no_filters, rr_cases = ma_cases acc, rr_summary = summarize (ma_cases acc)\<rparr>))"

section \<open>The diff accounts for every case\<close>

lemma by_key_append: "by_key (cs @ [c]) = (by_key cs)(ca_case_key c \<mapsto> c)"
  by (simp add: by_key_def)

lemma by_key_None: "by_key cs k = None \<longleftrightarrow> k \<notin> ca_case_key ` set cs"
  by (induction cs rule: rev_induct) (auto simp: by_key_append by_key_def)

lemma by_key_SomeD: "by_key cs k = Some c \<Longrightarrow> c \<in> set cs \<and> ca_case_key c = k"
  by (induction cs rule: rev_induct) (auto simp: by_key_append by_key_def split: if_splits)

lemma by_key_distinct: "distinct (map ca_case_key cs) \<Longrightarrow> by_key cs k = Some c \<longleftrightarrow> c \<in> set cs \<and> ca_case_key c = k"
proof (induction cs rule: rev_induct)
  case Nil
  then show ?case by (simp add: by_key_def)
next
  case (snoc d cs)
  then show ?case by (auto simp: by_key_append image_iff)
qed

definition ds_of :: "Delta \<Rightarrow> DiffSummary \<Rightarrow> u64" where
  "ds_of d s = (case d of NewlyFailing \<Rightarrow> ds_newly_failing s | NewlyPassing \<Rightarrow> ds_newly_passing s | StillFailing \<Rightarrow> ds_still_failing s
     | Unchanged \<Rightarrow> ds_unchanged s | Added \<Rightarrow> ds_added s | Removed \<Rightarrow> ds_removed s)"

lemma ds_of_tally: "ds_of d (tally s d' ch) = (if d = d' then add_assign (ds_of d s) 1 else ds_of d s)"
  by (cases d; cases d') (simp_all add: tally_def ds_of_def Let_def)

lemma ds_output_tally: "ds_output_changed (tally s d ch) = (if ch then add_assign (ds_output_changed s) 1 else ds_output_changed s)"
  by (cases d) (simp_all add: tally_def Let_def)

definition diff_inv :: "DiffAcc \<Rightarrow> bool" where
  "diff_inv acc \<longleftrightarrow> (\<forall>d. ds_of d (da_summary acc) = length (filter (\<lambda>x. dl_delta x = d) (da_cases acc)))
     \<and> ds_output_changed (da_summary acc) = length (filter dl_output_changed (da_cases acc))
     \<and> da_b acc = length (filter (\<lambda>x. dl_delta x = NewlyFailing) (da_cases acc))
     \<and> da_c acc = length (filter (\<lambda>x. dl_delta x = NewlyPassing) (da_cases acc))"

lemma add_assign_length: "length xs + 1 < 2 ^ 64 \<Longrightarrow> add_assign (length (filter P xs)) 1 = length (filter P xs) + 1"
  using length_filter_le [of P xs] unfolding add_assign_def by (intro mod_less) linarith

lemma diff_head_inv:
  assumes "diff_inv acc" and "length (da_cases acc) + 1 < 2 ^ 64"
  shows "diff_inv (diff_head sd m hc acc)" and "da_cases (diff_head sd m hc acc) = da_cases acc @ [head_delta sd m hc]"
proof -
  note len = add_assign_length [OF assms(2)]
  show "diff_inv (diff_head sd m hc acc)"
    using assms(1) len by (simp add: diff_inv_def diff_head_def Let_def ds_of_tally ds_output_tally)
  show "da_cases (diff_head sd m hc acc) = da_cases acc @ [head_delta sd m hc]" by (simp add: diff_head_def Let_def)
qed

lemma diff_head_fold:
  "diff_inv acc \<Longrightarrow> length (da_cases acc) + length cs < 2 ^ 64
   \<Longrightarrow> diff_inv (fold (diff_head sd m) cs acc) \<and> da_cases (fold (diff_head sd m) cs acc) = da_cases acc @ map (head_delta sd m) cs"
proof (induction cs arbitrary: acc)
  case (Cons c cs)
  then show ?case using diff_head_inv [of acc sd m c] Cons.IH [of "diff_head sd m c acc"] by simp
qed simp

lemma diff_base_inv:
  assumes "diff_inv acc" and "length (da_cases acc) + 1 < 2 ^ 64"
  shows "diff_inv (diff_base m bc acc)"
    and "da_cases (diff_base m bc acc) = da_cases acc @ (if m (ca_case_key bc) = None then [removed_delta bc] else [])"
proof -
  have rem: "ds_of d (s\<lparr>ds_removed := add_assign (ds_removed s) 1\<rparr>) = (if d = Removed then add_assign (ds_of d s) 1 else ds_of d s)" for d s
    by (cases d) (simp_all add: ds_of_def)
  have out: "ds_output_changed (s\<lparr>ds_removed := n\<rparr>) = ds_output_changed s" for s n by simp
  show "diff_inv (diff_base m bc acc)"
    using assms(1) add_assign_length [OF assms(2)]
    by (simp add: diff_inv_def diff_base_def rem [simplified] out removed_delta_def split: option.split)
  show "da_cases (diff_base m bc acc) = da_cases acc @ (if m (ca_case_key bc) = None then [removed_delta bc] else [])"
    by (simp add: diff_base_def split: option.split)
qed

lemma diff_base_fold:
  "diff_inv acc \<Longrightarrow> length (da_cases acc) + length cs < 2 ^ 64
   \<Longrightarrow> diff_inv (fold (diff_base m) cs acc)
     \<and> da_cases (fold (diff_base m) cs acc) = da_cases acc @ map removed_delta (filter (\<lambda>c. m (ca_case_key c) = None) cs)"
proof (induction cs arbitrary: acc)
  case (Cons c cs)
  then show ?case using diff_base_inv [of acc m c] Cons.IH [of "diff_base m c acc"] by simp
qed simp

lemma diff_runs_result:
  assumes "length (rr_cases base) + length (rr_cases head) < 2 ^ 64"
  obtains acc where "diff_inv acc" "diff_runs sd base head
      = \<lparr>rd_cases = da_cases acc, rd_summary = da_summary acc, rd_mcnemar = mcnemar_view (mcnemar (da_b acc) (da_c acc))\<rparr>"
    "da_cases acc = map (head_delta sd (by_key (rr_cases base))) (rr_cases head)
       @ map removed_delta (filter (\<lambda>c. ca_case_key c \<notin> ca_case_key ` set (rr_cases head)) (rr_cases base))"
proof -
  let ?h = "fold (diff_head sd (by_key (rr_cases base))) (rr_cases head) empty_diff"
  let ?acc = "fold (diff_base (by_key (rr_cases head))) (rr_cases base) ?h"
  have "diff_inv empty_diff" by (simp add: diff_inv_def empty_diff_def ds_of_def split: Delta.split)
  then have h: "diff_inv ?h" "da_cases ?h = map (head_delta sd (by_key (rr_cases base))) (rr_cases head)"
    using diff_head_fold [of empty_diff "rr_cases head" sd "by_key (rr_cases base)"] assms by (simp_all add: empty_diff_def)
  then show thesis
    using diff_base_fold [of ?h "rr_cases base" "by_key (rr_cases head)"] assms that [of ?acc]
    by (simp add: diff_runs_def Let_def by_key_None add.commute)
qed

text \<open>C34: A diff accounts for every case: one entry for each case of the head run, in its order, then one for each base
  case whose key the head run has not. Its tallies count those entries, and the numbers the significance
  test is fed are the regressions and the fixes among them.\<close>

theorem diff_accounts:
  assumes "length (rr_cases base) + length (rr_cases head) < 2 ^ 64"
  shows "let d = diff_runs sd base head; n = (\<lambda>k. length (filter (\<lambda>x. dl_delta x = k) (rd_cases d))) in
     rd_cases d = map (head_delta sd (by_key (rr_cases base))) (rr_cases head)
       @ map removed_delta (filter (\<lambda>c. ca_case_key c \<notin> ca_case_key ` set (rr_cases head)) (rr_cases base))
     \<and> (\<forall>k. ds_of k (rd_summary d) = n k)
     \<and> ds_output_changed (rd_summary d) = length (filter dl_output_changed (rd_cases d))
     \<and> mv_regressions (rd_mcnemar d) = n NewlyFailing \<and> mv_fixes (rd_mcnemar d) = n NewlyPassing"
proof -
  obtain acc where "diff_inv acc" and acc: "diff_runs sd base head
      = \<lparr>rd_cases = da_cases acc, rd_summary = da_summary acc, rd_mcnemar = mcnemar_view (mcnemar (da_b acc) (da_c acc))\<rparr>"
    "da_cases acc = map (head_delta sd (by_key (rr_cases base))) (rr_cases head)
       @ map removed_delta (filter (\<lambda>c. ca_case_key c \<notin> ca_case_key ` set (rr_cases head)) (rr_cases base))"
    using diff_runs_result [OF assms] by blast
  then show ?thesis by (auto simp: Let_def diff_inv_def mcnemar_view_def mcnemar_def)
qed

text \<open>Every count of a diff, as a number of keys.\<close>

lemma filter_keys:
  assumes "distinct (map ca_case_key cs)"
  shows "length (filter P cs) = card {k. \<exists>c. by_key cs k = Some c \<and> P c}"
proof -
  have "length (filter P cs) = card (ca_case_key ` set (filter P cs))"
    using assms by (metis distinct_card distinct_map_filter length_map list.set_map)
  also have "ca_case_key ` set (filter P cs) = {k. \<exists>c. by_key cs k = Some c \<and> P c}"
    by (auto simp: by_key_distinct [OF assms])
  finally show ?thesis .
qed

lemma head_delta_sel:
  "dl_delta (head_delta sd m c) = (case m (ca_case_key c) of None \<Rightarrow> Added | Some b \<Rightarrow> delta_of (passed (ca_status b)) (passed (ca_status c)))"
  "dl_output_changed (head_delta sd m c) = (case m (ca_case_key c) of None \<Rightarrow> False | Some b \<Rightarrow> output_text sd b \<noteq> output_text sd c)"
  by (simp_all add: head_delta_def split: option.split)

lemma delta_of_eq: "delta_of a b = NewlyFailing \<longleftrightarrow> a \<and> \<not> b" "delta_of a b = NewlyPassing \<longleftrightarrow> \<not> a \<and> b"
  "delta_of a b = StillFailing \<longleftrightarrow> \<not> a \<and> \<not> b" "delta_of a b = Unchanged \<longleftrightarrow> a \<and> b" "delta_of a b \<noteq> Added" "delta_of a b \<noteq> Removed"
  by (cases a; cases b; simp add: delta_of_def)+

text \<open>The keys whose cases stand in a relation, in either direction.\<close>

definition pairs :: "RunResult \<Rightarrow> RunResult \<Rightarrow> (CaseResult \<Rightarrow> CaseResult \<Rightarrow> bool) \<Rightarrow> string set" where
  "pairs base head R = {k. \<exists>b h. by_key (rr_cases base) k = Some b \<and> by_key (rr_cases head) k = Some h \<and> R b h}"

lemma pairs_swap: "pairs base head R = pairs head base (\<lambda>h b. R b h)"
  by (auto simp: pairs_def)

definition only_in :: "RunResult \<Rightarrow> RunResult \<Rightarrow> string set" where
  "only_in a b = {k. by_key (rr_cases a) k \<noteq> None \<and> by_key (rr_cases b) k = None}"

lemma pairs_from_head:
  "{k. \<exists>c. by_key (rr_cases head) k = Some c \<and> (case by_key (rr_cases base) (ca_case_key c) of None \<Rightarrow> False | Some b \<Rightarrow> R b c)}
   = pairs base head R"
proof -
  have "by_key (rr_cases head) k = Some c \<Longrightarrow> by_key (rr_cases base) (ca_case_key c) = by_key (rr_cases base) k" for k c
    by (simp add: by_key_SomeD)
  then have "(\<exists>c. by_key (rr_cases head) k = Some c \<and> (case by_key (rr_cases base) (ca_case_key c) of None \<Rightarrow> False | Some b \<Rightarrow> R b c))
      \<longleftrightarrow> (\<exists>b h. by_key (rr_cases base) k = Some b \<and> by_key (rr_cases head) k = Some h \<and> R b h)" for k
    by (cases "by_key (rr_cases base) k"; cases "by_key (rr_cases head) k") auto
  then show ?thesis by (simp add: pairs_def)
qed

lemma delta_in_pairs:
  "d \<noteq> Added \<Longrightarrow> dl_delta (head_delta sd (by_key (rr_cases base)) c) = d
    \<longleftrightarrow> (case by_key (rr_cases base) (ca_case_key c) of None \<Rightarrow> False | Some b \<Rightarrow> delta_of (passed (ca_status b)) (passed (ca_status c)) = d)"
  by (auto simp: head_delta_sel split: option.split)

lemma diff_counts:
  assumes "distinct (map ca_case_key (rr_cases base))" and "distinct (map ca_case_key (rr_cases head))"
    and "length (rr_cases base) + length (rr_cases head) < 2 ^ 64"
    and "s = rd_summary (diff_runs sd base head)"
  shows "ds_newly_failing s = card (pairs base head (\<lambda>b h. passed (ca_status b) \<and> \<not> passed (ca_status h)))"
    and "ds_newly_passing s = card (pairs base head (\<lambda>b h. \<not> passed (ca_status b) \<and> passed (ca_status h)))"
    and "ds_still_failing s = card (pairs base head (\<lambda>b h. \<not> passed (ca_status b) \<and> \<not> passed (ca_status h)))"
    and "ds_unchanged s = card (pairs base head (\<lambda>b h. passed (ca_status b) \<and> passed (ca_status h)))"
    and "ds_output_changed s = card (pairs base head (\<lambda>b h. output_text sd b \<noteq> output_text sd h))"
    and "ds_added s = card (only_in head base)" and "ds_removed s = card (only_in base head)"
proof -
  let ?B = "by_key (rr_cases base)" and ?H = "by_key (rr_cases head)"
  obtain acc where acc: "diff_inv acc" "rd_summary (diff_runs sd base head) = da_summary acc"
    "da_cases acc = map (head_delta sd ?B) (rr_cases head) @ map removed_delta (filter (\<lambda>c. ca_case_key c \<notin> ca_case_key ` set (rr_cases head)) (rr_cases base))"
    by (rule diff_runs_result [OF assms(3), where sd = sd]) auto
  have of_key: "?H k = Some h \<Longrightarrow> ca_case_key h = k" for k h by (simp add: by_key_SomeD)
  have rem: "dl_delta (removed_delta c) = Removed" "\<not> dl_output_changed (removed_delta c)" for c by (simp_all add: removed_delta_def)
  have s: "ds_of d s = length (filter (\<lambda>c. dl_delta (head_delta sd ?B c) = d) (rr_cases head))
      + (if d = Removed then length (filter (\<lambda>c. ?H (ca_case_key c) = None) (rr_cases base)) else 0)" for d
    using acc(1) by (simp add: assms(4) acc(2,3) diff_inv_def filter_map o_def rem by_key_None)
  have out: "ds_output_changed s = length (filter (\<lambda>c. dl_output_changed (head_delta sd ?B c)) (rr_cases head))"
    using acc(1) by (simp add: assms(4) acc(2,3) diff_inv_def filter_map o_def rem)
  note keys = filter_keys [OF assms(2)] filter_keys [OF assms(1)]
  note sel = head_delta_sel delta_of_eq
  show "ds_newly_failing s = card (pairs base head (\<lambda>b h. passed (ca_status b) \<and> \<not> passed (ca_status h)))"
    using s [of NewlyFailing] unfolding ds_of_def Delta.case
    by (simp add: keys delta_in_pairs pairs_from_head delta_of_eq)
  show "ds_newly_passing s = card (pairs base head (\<lambda>b h. \<not> passed (ca_status b) \<and> passed (ca_status h)))"
    using s [of NewlyPassing] unfolding ds_of_def Delta.case
    by (simp add: keys delta_in_pairs pairs_from_head delta_of_eq)
  show "ds_still_failing s = card (pairs base head (\<lambda>b h. \<not> passed (ca_status b) \<and> \<not> passed (ca_status h)))"
    using s [of StillFailing] unfolding ds_of_def Delta.case
    by (simp add: keys delta_in_pairs pairs_from_head delta_of_eq)
  show "ds_unchanged s = card (pairs base head (\<lambda>b h. passed (ca_status b) \<and> passed (ca_status h)))"
    using s [of Unchanged] unfolding ds_of_def Delta.case
    by (simp add: keys delta_in_pairs pairs_from_head delta_of_eq)
  show "ds_output_changed s = card (pairs base head (\<lambda>b h. output_text sd b \<noteq> output_text sd h))"
    using out by (simp add: keys head_delta_sel pairs_from_head)
  show "ds_added s = card (only_in head base)"
    using s [of Added] unfolding ds_of_def Delta.case
    by (simp add: keys) (rule arg_cong [of _ _ card], auto simp: only_in_def sel dest: by_key_SomeD split: option.splits)
  show "ds_removed s = card (only_in base head)"
    using s [of Removed] unfolding ds_of_def Delta.case
    by (simp add: keys sel split: option.splits) (rule arg_cong [of _ _ card], auto simp: only_in_def dest: by_key_SomeD)
qed

text \<open>A diff read backwards is the diff of the exchanged runs: what newly fails from one run to the other newly passes
  in the opposite direction, added cases become removed ones, and the other counts stay. The tests are taken
  to be identified by their keys.\<close>

theorem diff_symmetric:
  assumes "distinct (map ca_case_key (rr_cases base))" and "distinct (map ca_case_key (rr_cases head))"
    and "length (rr_cases base) + length (rr_cases head) < 2 ^ 64"
  shows "let s = rd_summary (diff_runs sd base head); t = rd_summary (diff_runs sd head base) in
     ds_newly_failing s = ds_newly_passing t \<and> ds_newly_passing s = ds_newly_failing t \<and> ds_still_failing s = ds_still_failing t
     \<and> ds_unchanged s = ds_unchanged t \<and> ds_output_changed s = ds_output_changed t
     \<and> ds_added s = ds_removed t \<and> ds_removed s = ds_added t"
proof -
  have len: "length (rr_cases head) + length (rr_cases base) < 2 ^ 64" using assms(3) by simp
  show ?thesis
    unfolding Let_def diff_counts [OF assms refl] diff_counts [OF assms(2,1) len refl]
    by (subst (1 2 3 4 5) pairs_swap) (simp add: conj_commute eq_commute)
qed

definition demo_run :: "string \<Rightarrow> CaseResult list \<Rightarrow> RunResult" where
  "demo_run rid cases = \<lparr>rr_schema_version = RESULT_SCHEMA_VERSION, rr_run_id = rid, rr_project = None, rr_suite = None, rr_started_at = 0,
     rr_finished_at = 0, rr_config_digest = [], rr_config_snapshot = JNull, rr_git = None, rr_ci = None, rr_origin = None,
     rr_digests = None, rr_share_url = None, rr_composite = None, rr_filters = no_filters, rr_cases = cases, rr_summary = summarize cases\<rparr>"

lemma demo_case_keys: "ca_case_key (demo_case t st b x) = t" "ca_output (demo_case t st b x) = None"
  by (simp_all add: demo_case_def error_case_def)

theorem diff_accounts_witness:
  "ds_of NewlyFailing (rd_summary (diff_runs (lib_serde quiet_libs) (demo_run ''1'' [demo_case ''a'' Pass True 1, demo_case ''b'' Fail True 1])
     (demo_run ''2'' [demo_case ''a'' Fail True 1]))) = 1"
  using diff_accounts [of "demo_run ''1'' [demo_case ''a'' Pass True 1, demo_case ''b'' Fail True 1]" "demo_run ''2'' [demo_case ''a'' Fail True 1]"
      "lib_serde quiet_libs"]
  by (simp add: demo_run_def Let_def head_delta_def removed_delta_def by_key_def demo_case_keys demo_case_sel delta_of_def passed_def)

theorem diff_symmetric_witness:
  "ds_newly_failing (rd_summary (diff_runs (lib_serde quiet_libs) (demo_run ''1'' [demo_case ''a'' Pass True 1]) (demo_run ''2'' [demo_case ''a'' Fail True 1])))
   = ds_newly_passing (rd_summary (diff_runs (lib_serde quiet_libs) (demo_run ''2'' [demo_case ''a'' Fail True 1]) (demo_run ''1'' [demo_case ''a'' Pass True 1])))"
  using diff_symmetric [of "demo_run ''1'' [demo_case ''a'' Pass True 1]" "demo_run ''2'' [demo_case ''a'' Fail True 1]" "lib_serde quiet_libs"]
  by (simp add: demo_run_def Let_def)

section \<open>Blame for a change\<close>

definition known_and_equal :: "string option \<Rightarrow> string option \<Rightarrow> bool" where
  "known_and_equal a b \<longleftrightarrow> a \<noteq> None \<and> a = b"

lemma moved_False: "moved a b = Some False \<longleftrightarrow> known_and_equal a b"
  by (auto simp: moved_def known_and_equal_def split: option.split)

lemma moved_None: "moved a b = None \<longleftrightarrow> a = None \<or> b = None"
  by (simp add: moved_def split: option.split)

text \<open>Blame needs evidence: a change is put on the model or the grader only when all four digests are known on both sides
  and none of them moved, and on the grader only when then the verdict changed although the output did
  not. Missing digests never read as unchanged, and it does not matter which of the runs is called the base.\<close>

theorem blame_needs_evidence:
  "(classify_change i \<in> {ModelDrift, OutputDrift, UnstableGrader, Stable} \<longleftrightarrow>
      known_and_equal (ch_base_prompt i) (ch_head_prompt i) \<and> known_and_equal (ch_base_provider i) (ch_head_provider i)
      \<and> known_and_equal (ch_base_asserts i) (ch_head_asserts i) \<and> known_and_equal (ch_base_grader i) (ch_head_grader i))
   \<and> (classify_change i = UnstableGrader \<longleftrightarrow>
      classify_change i \<in> {ModelDrift, OutputDrift, UnstableGrader, Stable} \<and> \<not> ch_output_changed i \<and> ch_verdict_changed i)
   \<and> classify_change (i\<lparr>ch_base_prompt := ch_head_prompt i, ch_head_prompt := ch_base_prompt i,
        ch_base_provider := ch_head_provider i, ch_head_provider := ch_base_provider i, ch_base_asserts := ch_head_asserts i,
        ch_head_asserts := ch_base_asserts i, ch_base_grader := ch_head_grader i, ch_head_grader := ch_base_grader i\<rparr>)
     = classify_change i"
proof -
  have swap: "moved a b = moved b a" for a b by (auto simp: moved_def split: option.split)
  have three: "moved a b = Some True \<or> moved a b = None \<or> moved a b = Some False" for a b
    by (cases "moved a b") auto
  have "classify_change i \<in> {ModelDrift, OutputDrift, UnstableGrader, Stable} \<longleftrightarrow>
      moved (ch_base_prompt i) (ch_head_prompt i) = Some False \<and> moved (ch_base_provider i) (ch_head_provider i) = Some False
      \<and> moved (ch_base_asserts i) (ch_head_asserts i) = Some False \<and> moved (ch_base_grader i) (ch_head_grader i) = Some False"
    using three [of "ch_base_prompt i" "ch_head_prompt i"] three [of "ch_base_provider i" "ch_head_provider i"]
      three [of "ch_base_asserts i" "ch_head_asserts i"] three [of "ch_base_grader i" "ch_head_grader i"]
    by (auto simp: classify_change_def Let_def split: bool.split)
  moreover have "classify_change i = UnstableGrader \<longleftrightarrow>
      classify_change i \<in> {ModelDrift, OutputDrift, UnstableGrader, Stable} \<and> \<not> ch_output_changed i \<and> ch_verdict_changed i"
    by (auto simp: classify_change_def Let_def split: bool.split)
  moreover have "classify_change (i\<lparr>ch_base_prompt := ch_head_prompt i, ch_head_prompt := ch_base_prompt i,
        ch_base_provider := ch_head_provider i, ch_head_provider := ch_base_provider i, ch_base_asserts := ch_head_asserts i,
        ch_head_asserts := ch_base_asserts i, ch_base_grader := ch_head_grader i, ch_head_grader := ch_base_grader i\<rparr>)
     = classify_change i"
    by (simp add: classify_change_def swap [of "ch_head_prompt i" "ch_base_prompt i"] swap [of "ch_head_provider i" "ch_base_provider i"]
        swap [of "ch_head_asserts i" "ch_base_asserts i"] swap [of "ch_head_grader i" "ch_base_grader i"] Let_def cong: if_cong prod.case_cong)
  ultimately show ?thesis unfolding moved_False by (intro conjI)
qed

section \<open>The composite baseline\<close>

fun keep_first :: "string set \<Rightarrow> CaseResult list \<Rightarrow> CaseResult list" where
  "keep_first S [] = []"
| "keep_first S (c # cs) = (if ca_case_key c \<in> S then keep_first S cs else c # keep_first (insert (ca_case_key c) S) cs)"

lemma keep_first_append: "keep_first S (xs @ ys) = keep_first S xs @ keep_first (S \<union> ca_case_key ` set xs) ys"
proof (induction xs arbitrary: S)
  case (Cons c xs)
  then show ?case by (simp add: insert_absorb)
qed simp

lemma keep_first_keys: "ca_case_key ` set (keep_first S cs) = ca_case_key ` set cs - S"
  by (induction cs arbitrary: S) auto

lemma keep_first_distinct: "distinct (map ca_case_key (keep_first S cs))"
  by (induction cs arbitrary: S) (use keep_first_keys in auto)

lemma keep_first_find: "k \<notin> S \<Longrightarrow> find (\<lambda>c. ca_case_key c = k) (keep_first S cs) = find (\<lambda>c. ca_case_key c = k) cs"
  by (induction cs arbitrary: S) auto

lemma merge_cases:
  "fold merge_case cs (S, merged, b) = (S \<union> ca_case_key ` set cs, merged @ keep_first S cs, b \<or> keep_first S cs \<noteq> [])"
  by (induction cs arbitrary: S merged b) (auto simp: merge_case_def insert_absorb)

text \<open>The runs that contribute: those with a key no newer run has.\<close>

fun contributing :: "string set \<Rightarrow> RunResult list \<Rightarrow> RunResult list" where
  "contributing S [] = []"
| "contributing S (r # rs) = (if keep_first S (rr_cases r) \<noteq> [] then [r] else []) @ contributing (S \<union> ca_case_key ` set (rr_cases r)) rs"

lemma merge_run_step:
  "merge_run (n, r) acc
   = (let new = keep_first (ma_seen acc) (rr_cases r)
      in acc\<lparr>ma_seen := ma_seen acc \<union> ca_case_key ` set (rr_cases r), ma_cases := ma_cases acc @ new,
             ma_contributors := ma_contributors acc @ (if new = [] then [] else [rr_run_id r]),
             ma_last := (if new = [] then ma_last acc else Some n),
             ma_skeleton := (if new = [] then ma_skeleton acc else or_else (ma_skeleton acc) (Some (r\<lparr>rr_cases := []\<rparr>)))\<rparr>)"
  by (simp add: merge_run_def merge_cases Let_def)

lemma merge_runs:
  defines "f \<equiv> \<lambda>n rs acc. fold merge_run (enumerate n rs) acc"
  shows "ma_cases (f n rs acc) = ma_cases acc @ keep_first (ma_seen acc) (concat (map rr_cases rs))"
    and "ma_contributors (f n rs acc) = ma_contributors acc @ map rr_run_id (contributing (ma_seen acc) rs)"
    and "ma_skeleton (f n rs acc) = or_else (ma_skeleton acc) (map_option (rr_cases_update (\<lambda>_. [])) (first_opt (contributing (ma_seen acc) rs)))"
  unfolding f_def
proof (induction rs arbitrary: n acc)
  case Nil
  { case 1 show ?case by simp }
  { case 2 show ?case by simp }
  { case 3 show ?case by (simp add: or_else_def split: option.split) }
next
  case (Cons r rs)
  { case 1 show ?case by (simp add: Cons(1) merge_run_step Let_def keep_first_append) }
  { case 2 show ?case by (simp add: Cons(2) merge_run_step Let_def) }
  { case 3 show ?case by (simp add: Cons(3) merge_run_step Let_def or_else_def split: option.split) }
qed

lemma contributing_none: "contributing S rs = [] \<longleftrightarrow> keep_first S (concat (map rr_cases rs)) = []"
  by (induction rs arbitrary: S) (auto simp: keep_first_append)

text \<open>The composite baseline of a branch is, key by key, the newest result: it holds each case key found in the twenty newest
  runs once, with the case of the newest run that has it, and names exactly the runs that contributed a
  case, newest first. There is no composite exactly when those runs have no cases, and its summary is the
  summary of the merged cases.\<close>

theorem composite_is_newest:
  "let recent = take BRANCH_LOOKBACK runs; pool = concat (map rr_cases recent) in
   case merge_branch_runs branch runs of
     None \<Rightarrow> pool = []
   | Some m \<Rightarrow> pool \<noteq> [] \<and> distinct (map ca_case_key (rr_cases m))
       \<and> (\<forall>k. find (\<lambda>c. ca_case_key c = k) (rr_cases m) = find (\<lambda>c. ca_case_key c = k) pool)
       \<and> rr_summary m = summarize (rr_cases m)
       \<and> (\<exists>cb. rr_composite m = Some cb \<and> cb_contributing_run_ids cb = map rr_run_id (contributing {} recent))"
proof -
  let ?recent = "take BRANCH_LOOKBACK runs" let ?pool = "concat (map rr_cases ?recent)"
  let ?acc = "fold merge_run (enumerate 0 ?recent) no_merge"
  have acc: "ma_cases ?acc = keep_first {} ?pool" "ma_contributors ?acc = map rr_run_id (contributing {} ?recent)"
    "ma_skeleton ?acc = map_option (rr_cases_update (\<lambda>_. [])) (first_opt (contributing {} ?recent))"
    by (simp_all add: merge_runs no_merge_def)
  have pool: "keep_first {} cs = [] \<longleftrightarrow> cs = []" for cs by (cases cs) simp_all
  have skel: "ma_skeleton ?acc = None \<longleftrightarrow> ?pool = []"
  proof -
    have "ma_skeleton ?acc = None \<longleftrightarrow> contributing {} ?recent = []"
      unfolding acc(3) by (cases "contributing {} ?recent") simp_all
    then show ?thesis unfolding contributing_none pool .
  qed
  show ?thesis
  proof (cases "ma_skeleton ?acc")
    case None
    then show ?thesis using skel by (simp add: merge_branch_runs_def Let_def)
  next
    case (Some newest)
    then show ?thesis
      using skel by (simp add: merge_branch_runs_def Let_def acc(1,2) keep_first_distinct keep_first_find)
  qed
qed

end
