(* ===== verification/Resolve.thy ===== *)
theory Resolve
  imports RunnerCell
begin

text \<open>
  From the test sources of a suite to the cases of a run (\<open>crates/domarinn-core/src/resolve.rs\<close>), with the expansion of a
  case's matrix (\<open>matrix.rs\<close>) and of \<open>$file\<close> and \<open>$digest\<close> references (\<open>filevars.rs\<close>). A \<open>BTreeMap\<close> is a list sorted
  by its keys. The parsers of YAML, JSON and CSV, the derived deserialisers, the glob matcher and the BLAKE3 hash are
  the record \<open>loader\<close>; files are read through the \<open>files\<close> record of the sandbox.
\<close>

section \<open>Model\<close>

datatype ResolveError =
    ResolveIo string string
  | BadGlob string string
  | ParseProblem string string
  | NotFileUrl string
  | OutsideSuite SandboxError

subsection \<open>The matrix of a case (\<open>matrix.rs\<close>)\<close>

text \<open>One axis: every combination so far, extended by every value.\<close>

definition extend_axis :: "string \<times> Val list \<Rightarrow> (string \<times> Val) list list \<Rightarrow> (string \<times> Val) list list" where
  "extend_axis axis combos = concat (map (\<lambda>combo. map (\<lambda>v. combo @ [(fst axis, v)]) (snd axis)) combos)"

definition axis_value_label :: "serde \<Rightarrow> Val \<Rightarrow> string" where
  "axis_value_label sd v = (case val_as_json v of JString s \<Rightarrow> s | other \<Rightarrow> to_string sd other)"

definition default_matrix_id :: "serde \<Rightarrow> string \<Rightarrow> (string \<times> Val) list \<Rightarrow> string" where
  "default_matrix_id sd base_id combo =
     base_id @ ''['' @ join '','' (map (\<lambda>(k, v). k @ ''='' @ axis_value_label sd v) combo) @ '']''"

definition render_matrix_id :: "engine \<Rightarrow> string \<Rightarrow> (string \<times> Val) list \<Rightarrow> string \<Rightarrow> ResolveError + string" where
  "render_matrix_id en template combo base_id =
     map_sum (ParseProblem (base_id @ ''.matrix_id'')) id
       (en_render_str en template (JObject (fold (\<lambda>(k, v). btree_insert k (val_as_json v)) combo [])))"

definition matrix_case :: "serde \<Rightarrow> engine \<Rightarrow> TestCase \<Rightarrow> (string \<times> Val) list \<Rightarrow> ResolveError + TestCase" where
  "matrix_case sd en tc combo =
     (let base_id = unwrap_or (ts_id tc) []
      in map_sum id (\<lambda>i. tc\<lparr>te_matrix := [], te_matrix_id := None, ts_id := Some i,
             te_vars := fold (\<lambda>(k, v). btree_insert k v) combo (te_vars tc)\<rparr>)
           (case te_matrix_id tc of
              Some template \<Rightarrow> render_matrix_id en template combo base_id
            | None \<Rightarrow> Inr (default_matrix_id sd base_id combo)))"

definition expand_matrix :: "serde \<Rightarrow> engine \<Rightarrow> TestCase \<Rightarrow> ResolveError + TestCase list" where
  "expand_matrix sd en tc =
     (if te_matrix tc = [] then Inr [tc]
      else case find (\<lambda>(_, values). values = []) (te_matrix tc) of
          Some (key, _) \<Rightarrow> Inl (ParseProblem (unwrap_or (ts_id tc) ''matrix'') (''matrix axis '' @ tick key @ '' has no values''))
        | None \<Rightarrow> collect_results (map (matrix_case sd en tc) (fold extend_axis (te_matrix tc) [[]])))"

subsection \<open>The loader's libraries\<close>

record loader =
  ld_files :: files
  ld_engine :: engine
  ld_serde :: serde
  ld_glob :: "string \<Rightarrow> string + path list"
  ld_is_file :: "path \<Rightarrow> bool"
  ld_blake3 :: "string \<Rightarrow> string"
  ld_json :: "string \<Rightarrow> string + json"
  ld_yaml :: "string \<Rightarrow> string + json"
  ld_suite_yaml :: "string \<Rightarrow> string + json"
  ld_test :: "json \<Rightarrow> string + TestCase"
  ld_test_text :: "string \<Rightarrow> string + TestCase"
  ld_asserts :: "string \<Rightarrow> string + Assert list"
  ld_history :: "json \<Rightarrow> string + HistorySpec"
  ld_csv :: "char \<Rightarrow> string \<Rightarrow> string + string list \<times> (string + string list) list"
  ld_f64 :: "string \<Rightarrow> f64 option"

definition read_source :: "loader \<Rightarrow> path \<Rightarrow> ResolveError + string" where
  "read_source ld p = map_sum (ResolveIo (show_path p)) id (read_to_string (ld_files ld) p)"

definition file_name :: "path \<Rightarrow> string option" where
  "file_name p = (if p = [] then None else case last p of Normal s \<Rightarrow> Some s | _ \<Rightarrow> None)"

text \<open>The last dot of a file name splits it, unless the name starts there.\<close>

definition split_at_dot :: "string \<Rightarrow> string \<times> string option" where
  "split_at_dot name = (let before = rev (drop 1 (dropWhile (\<lambda>c. c \<noteq> CHR ''.'') (rev name)))
     in if before = [] then (name, None) else (before, Some (rev (takeWhile (\<lambda>c. c \<noteq> CHR ''.'') (rev name)))))"

definition file_stem :: "path \<Rightarrow> string option" where
  "file_stem p = map_option (\<lambda>n. fst (split_at_dot n)) (file_name p)"

definition extension :: "path \<Rightarrow> string" where
  "extension p = to_lowercase (unwrap_or (Option.bind (file_name p) (\<lambda>n. snd (split_at_dot n))) [])"

text \<open>\<open>base_dir.join(rel)\<close> as text, for a relative \<open>rel\<close>.\<close>

definition join_text :: "path \<Rightarrow> string \<Rightarrow> string" where
  "join_text base rel = (let b = show_path base in if b = [] then rel else if last b = CHR ''/'' then b @ rel else b @ ''/'' @ rel)"

subsection \<open>References to files (\<open>filevars.rs\<close>)\<close>

definition FILE_KEY :: string where "FILE_KEY = ''$file''"
definition DIGEST_KEY :: string where "DIGEST_KEY = ''$digest''"

record FileSpec =
  fp_path :: string
  fp_parse :: bool
  fp_raw :: bool

definition bad_option :: "string \<Rightarrow> string \<Rightarrow> ResolveError" where
  "bad_option name p = ParseProblem p (''`$file` option '' @ tick name @ '' must be a boolean'')"

definition set_option :: "string \<Rightarrow> string \<times> json \<Rightarrow> ResolveError + FileSpec \<Rightarrow> ResolveError + FileSpec" where
  "set_option p = (\<lambda>(key, v) r. (case r of Inl e \<Rightarrow> Inl e
     | Inr spec \<Rightarrow>
         if key = FILE_KEY then Inr spec
         else if key = ''parse'' then (case v of JBool b \<Rightarrow> Inr (spec\<lparr>fp_parse := b\<rparr>) | _ \<Rightarrow> Inl (bad_option ''parse'' p))
         else if key = ''raw'' then (case v of JBool b \<Rightarrow> Inr (spec\<lparr>fp_raw := b\<rparr>) | _ \<Rightarrow> Inl (bad_option ''raw'' p))
         else Inl (ParseProblem p (''unknown `$file` option '' @ tick key @ '' (expected only '' @ tick ''parse'' @ '' / '' @ tick ''raw'' @ '')''))))"

definition file_spec :: "json \<Rightarrow> ResolveError + FileSpec option" where
  "file_spec v = (case v of
       JObject ms \<Rightarrow> (case map_of ms FILE_KEY of
           None \<Rightarrow> Inr None
         | Some (JString p) \<Rightarrow> map_sum id Some (fold (set_option p) ms (Inr \<lparr>fp_path = p, fp_parse = True, fp_raw = False\<rparr>))
         | Some _ \<Rightarrow> Inl (ParseProblem FILE_KEY ''`$file` must be a string path''))
     | _ \<Rightarrow> Inr None)"

definition load_file_var :: "loader \<Rightarrow> path \<Rightarrow> FileSpec \<Rightarrow> ResolveError + Val" where
  "load_file_var ld base spec = (case resolve_within (ld_files ld) base (fp_path spec) of
       Inl e \<Rightarrow> Inl (OutsideSuite e)
     | Inr resolved \<Rightarrow> (case read_source ld resolved of
         Inl e \<Rightarrow> Inl e
       | Inr body \<Rightarrow>
           (let ext = extension resolved;
                content = (if fp_parse spec
                  then if ext = ''json'' then map_sum (ParseProblem (show_path resolved)) id (ld_json ld body)
                       else if ext = ''yaml'' \<or> ext = ''yml'' then map_sum (ParseProblem (show_path resolved)) id (ld_yaml ld body)
                       else Inr (JString body)
                  else Inr (JString body))
            in map_sum id (if fp_raw spec then Raw else Tpl) content)))"

definition resolve_val :: "loader \<Rightarrow> path \<Rightarrow> Val \<Rightarrow> ResolveError + Val" where
  "resolve_val ld base v = (case file_spec (val_as_json v) of
       Inl e \<Rightarrow> Inl e | Inr None \<Rightarrow> Inr v | Inr (Some spec) \<Rightarrow> load_file_var ld base spec)"

definition resolve_opt :: "loader \<Rightarrow> path \<Rightarrow> Val option \<Rightarrow> ResolveError + Val option" where
  "resolve_opt ld base v = (case v of None \<Rightarrow> Inr None | Some v \<Rightarrow> map_sum id Some (resolve_val ld base v))"

definition resolve_file_vars :: "loader \<Rightarrow> path \<Rightarrow> TestCase list \<Rightarrow> ResolveError + TestCase list" where
  "resolve_file_vars ld base tests = collect_results (map (\<lambda>tc.
     map_sum id (\<lambda>vars. tc\<lparr>te_vars := vars\<rparr>)
       (collect_results (map (\<lambda>(k, v). map_sum id (Pair k) (resolve_val ld base v)) (te_vars tc)))) tests)"

definition resolve_assert_kind :: "loader \<Rightarrow> path \<Rightarrow> AssertKind \<Rightarrow> ResolveError + AssertKind" where
  "resolve_assert_kind ld base k = (case k of
       ContainsJson schema \<Rightarrow> map_sum id ContainsJson (resolve_opt ld base schema)
     | Equals v \<Rightarrow> map_sum id Equals (resolve_val ld base v)
     | Similar v th \<Rightarrow> map_sum id (\<lambda>v. Similar v th) (resolve_val ld base v)
     | ToolCallKind name args schema \<Rightarrow> bind_sum (resolve_opt ld base args) (\<lambda>args.
         map_sum id (ToolCallKind name args) (resolve_opt ld base schema))
     | other \<Rightarrow> Inr other)"

definition resolve_assert_file_vals :: "loader \<Rightarrow> path \<Rightarrow> TestCase list \<Rightarrow> ResolveError + TestCase list" where
  "resolve_assert_file_vals ld base tests = collect_results (map (\<lambda>tc.
     map_sum id (\<lambda>as. tc\<lparr>te_assert := as\<rparr>)
       (collect_results (map (\<lambda>a. map_sum id (\<lambda>k. a\<lparr>as_kind := k\<rparr>) (resolve_assert_kind ld base (as_kind a))) (te_assert tc)))) tests)"

subsection \<open>Content digests (\<open>filevars.rs\<close>)\<close>

definition digest_spec :: "string \<Rightarrow> string option" where
  "digest_spec salt = map_option trim (strip_prefix salt ''$digest:'')"

text \<open>The files a glob matches, each checked against the sandbox, sorted.\<close>

instantiation Component :: linorder
begin

definition component_rank :: "Component \<Rightarrow> nat" where
  "component_rank c = (case c of RootDir \<Rightarrow> 0 | CurDir \<Rightarrow> 1 | ParentDir \<Rightarrow> 2 | Normal _ \<Rightarrow> 3)"

definition less_eq_Component :: "Component \<Rightarrow> Component \<Rightarrow> bool" where
  "less_eq_Component a b = (case (a, b) of (Normal s, Normal t) \<Rightarrow> s \<le> t | _ \<Rightarrow> component_rank a \<le> component_rank b)"

definition less_Component :: "Component \<Rightarrow> Component \<Rightarrow> bool" where
  "less_Component a b = (a \<le> b \<and> \<not> b \<le> a)"

instance
proof
  fix a b c :: Component
  show "a < b \<longleftrightarrow> a \<le> b \<and> \<not> b \<le> a" by (rule less_Component_def)
  show "a \<le> a" by (cases a) (simp_all add: less_eq_Component_def)
  show "a \<le> b \<Longrightarrow> b \<le> c \<Longrightarrow> a \<le> c"
    by (cases a; cases b; cases c) (auto simp: less_eq_Component_def component_rank_def)
  show "a \<le> b \<Longrightarrow> b \<le> a \<Longrightarrow> a = b"
    by (cases a; cases b) (auto simp: less_eq_Component_def component_rank_def)
  show "a \<le> b \<or> b \<le> a"
    by (cases a; cases b) (auto simp: less_eq_Component_def component_rank_def)
qed

end

definition glob_files :: "loader \<Rightarrow> path \<Rightarrow> string \<Rightarrow> ResolveError + path list" where
  "glob_files ld base rel = (case reject_bad_spec base rel of
       Inl e \<Rightarrow> Inl (OutsideSuite e)
     | Inr _ \<Rightarrow> (case ld_glob ld (join_text base rel) of
         Inl e \<Rightarrow> Inl (BadGlob (join_text base rel) e)
       | Inr matches \<Rightarrow> map_sum id sort (collect_results (map (\<lambda>p.
           map_sum OutsideSuite (\<lambda>_. p) (assert_within (ld_files ld) base p (show_path p))) (filter (ld_is_file ld) matches)))))"

definition hashed_file :: "loader \<Rightarrow> path \<Rightarrow> path \<Rightarrow> ResolveError + string" where
  "hashed_file ld base p =
     map_sum id (\<lambda>bytes. show_path (if path_starts_with p base then drop (length base) p else p) @ [CHR 0x00] @ bytes @ [CHR 0x00])
       (read_source ld p)"

definition digest_of_glob :: "loader \<Rightarrow> path \<Rightarrow> string \<Rightarrow> ResolveError + string" where
  "digest_of_glob ld base pattern = bind_sum (glob_files ld base pattern) (\<lambda>files.
     if files = [] then Inl (ParseProblem DIGEST_KEY (''`$digest: '' @ pattern @ ''` matched no files''))
     else map_sum id (\<lambda>parts. ''blake3:'' @ ld_blake3 ld (concat parts)) (collect_results (map (hashed_file ld base) files)))"

definition resolve_digest_salts :: "loader \<Rightarrow> path \<Rightarrow> TestCase list \<Rightarrow> ResolveError + TestCase list" where
  "resolve_digest_salts ld base tests = collect_results (map (\<lambda>tc.
     (case Option.bind (te_cache_salt tc) digest_spec of
        None \<Rightarrow> Inr tc
      | Some spec \<Rightarrow>
          (case en_render_str (ld_engine ld) spec (JObject (map (map_prod id val_as_json) (te_vars tc))) of
             Inl e \<Rightarrow> Inl (ParseProblem DIGEST_KEY (''rendering `$digest` glob `'' @ spec @ ''`: '' @ e))
           | Inr pattern \<Rightarrow> map_sum id (\<lambda>d. tc\<lparr>te_cache_salt := Some d\<rparr>) (digest_of_glob ld base pattern)))) tests)"

definition resolve_provider_digest_salt :: "loader \<Rightarrow> string option \<Rightarrow> path option \<Rightarrow> ResolveError + string option" where
  "resolve_provider_digest_salt ld salt base_dir = (case salt of
       None \<Rightarrow> Inr None
     | Some s \<Rightarrow> (case digest_spec s of
         None \<Rightarrow> Inr (Some s)
       | Some spec \<Rightarrow> (case base_dir of
           None \<Rightarrow> Inl (ParseProblem DIGEST_KEY (''`$digest: '' @ spec @ ''` needs a suite directory to resolve against, but this ''
             @ ''provider was built without one''))
         | Some base \<Rightarrow> map_sum id Some (digest_of_glob ld base spec))))"

subsection \<open>Defaults (\<open>resolve.rs\<close>)\<close>

record Defaults =
  df_vars :: "(string \<times> Val) list"
  df_assert :: "Assert list"
  df_tags :: "string list"
  df_threshold :: "f64 option"
  df_cache_salt :: "string option"
  df_history :: "HistorySpec option"

definition merge_defaults :: "Defaults \<Rightarrow> TestCase \<Rightarrow> TestCase" where
  "merge_defaults d tc =
     tc\<lparr>te_vars := fold (\<lambda>(k, v) vars. if map_of vars k = None then btree_insert k v vars else vars) (df_vars d) (te_vars tc),
        te_assert := (if df_assert d \<noteq> [] then df_assert d @ te_assert tc else te_assert tc),
        ts_tags := fold (\<lambda>tag tags. if tag \<in> set tags then tags else tags @ [tag]) (df_tags d) (ts_tags tc),
        te_threshold := or_else (te_threshold tc) (df_threshold d),
        te_cache_salt := or_else (te_cache_salt tc) (df_cache_salt d),
        te_history := or_else (te_history tc) (df_history d)\<rparr>"

definition apply_defaults :: "Defaults \<Rightarrow> TestCase list \<Rightarrow> TestCase list" where
  "apply_defaults d tests = map (merge_defaults d) tests"

definition ensure_id :: "string \<Rightarrow> TestCase \<Rightarrow> TestCase" where
  "ensure_id d tc = (if ts_id tc = None then tc\<lparr>ts_id := Some d\<rparr> else tc)"

subsection \<open>Test files (\<open>resolve.rs\<close>)\<close>

definition default_test :: TestCase where
  "default_test = \<lparr>ts_id = None, ts_tags = [], ts_only_providers = [], ts_skip_providers = [], te_description = None, te_vars = [],
     te_matrix = [], te_matrix_id = None, te_assert = [], te_threshold = None, te_cache_salt = None, te_history = None, te_expect_fail = None\<rparr>"

definition parse_err :: "path \<Rightarrow> string \<Rightarrow> ResolveError" where
  "parse_err p e = ParseProblem (show_path p) e"

text \<open>The list of tests in a parsed document: the document itself, or its member \<open>tests\<close>.\<close>

definition tests_member :: "path \<Rightarrow> string \<Rightarrow> string \<Rightarrow> json \<Rightarrow> ResolveError + json list" where
  "tests_member p no_list no_shape v = (case v of
       JArray items \<Rightarrow> Inr items
     | JObject ms \<Rightarrow> (case map_of ms ''tests'' of Some (JArray items) \<Rightarrow> Inr items | _ \<Rightarrow> Inl (ParseProblem (show_path p) no_list))
     | _ \<Rightarrow> Inl (ParseProblem (show_path p) no_shape))"

definition tests_of_values :: "loader \<Rightarrow> path \<Rightarrow> json list \<Rightarrow> ResolveError + TestCase list" where
  "tests_of_values ld p items = collect_results (map (\<lambda>v. map_sum (parse_err p) id (ld_test ld v)) items)"

definition parse_yaml_tests :: "loader \<Rightarrow> string \<Rightarrow> path \<Rightarrow> ResolveError + TestCase list" where
  "parse_yaml_tests ld body p = bind_sum (map_sum (parse_err p) id (ld_suite_yaml ld body)) (\<lambda>v.
     bind_sum (tests_member p (''expected a sequence of tests or a mapping with a '' @ tick ''tests'' @ '' list'')
         ''expected a sequence or mapping'' v) (tests_of_values ld p))"

definition parse_json_tests :: "loader \<Rightarrow> string \<Rightarrow> path \<Rightarrow> ResolveError + TestCase list" where
  "parse_json_tests ld body p = bind_sum (map_sum (parse_err p) id (ld_json ld body)) (\<lambda>v.
     bind_sum (tests_member p (''expected an array of tests or an object with a '' @ tick ''tests'' @ '' array'')
         ''expected a JSON array or object'' v) (tests_of_values ld p))"

definition parse_jsonl_tests :: "loader \<Rightarrow> string \<Rightarrow> path \<Rightarrow> ResolveError + TestCase list" where
  "parse_jsonl_tests ld body p = collect_results (map (\<lambda>line.
     map_sum (parse_err p) id (ld_test_text ld line))
       (filter (\<lambda>l. trim l \<noteq> []) (text_lines body)))"

definition expect_fail_cell :: "string \<Rightarrow> ExpectFail option" where
  "expect_fail_cell cell =
     (if cell = [] then None
      else if eq_ignore_ascii_case cell ''true'' then Some (Flag True)
      else if eq_ignore_ascii_case cell ''false'' then Some (Flag False)
      else Some (Reason cell))"

text \<open>One column of a row. The case so far and its variables.\<close>

definition read_column ::
  "loader \<Rightarrow> path \<Rightarrow> string \<times> string \<Rightarrow> ResolveError + TestCase \<times> (string \<times> Val) list \<Rightarrow> ResolveError + TestCase \<times> (string \<times> Val) list" where
  "read_column ld p = (\<lambda>(header, field) r. bind_sum r (\<lambda>(tc, vars).
     if header = ''id'' then Inr (tc\<lparr>ts_id := Some field\<rparr>, vars)
     else if header = ''description'' then Inr (tc\<lparr>te_description := Some field\<rparr>, vars)
     else if header = ''threshold'' then Inr (tc\<lparr>te_threshold := ld_f64 ld (trim field)\<rparr>, vars)
     else if header = ''cache_salt'' then Inr (tc\<lparr>te_cache_salt := Some field\<rparr>, vars)
     else if header = ''expect_fail'' then Inr (tc\<lparr>te_expect_fail := expect_fail_cell (trim field)\<rparr>, vars)
     else if header = ''tags'' then Inr (tc\<lparr>ts_tags := filter (\<lambda>s. s \<noteq> []) (map trim (split_char (CHR '','') [] field))\<rparr>, vars)
     else if header = ''__assert'' then
       (if trim field = [] then Inr (tc, vars)
        else map_sum (parse_err p) (\<lambda>as. (tc\<lparr>te_assert := as\<rparr>, vars)) (ld_asserts ld field))
     else if header = ''__history'' then
       (let cell = trim field
        in if cell = [] then Inr (tc, vars)
           else bind_sum (if starts_with cell ''['' then map_sum (parse_err p) id (ld_json ld cell) else Inr (JString cell)) (\<lambda>v.
             map_sum (parse_err p) (\<lambda>h. (tc\<lparr>te_history := Some h\<rparr>, vars)) (ld_history ld v)))
     else Inr (tc, btree_insert header (Tpl (JString field)) vars)))"

definition read_row :: "loader \<Rightarrow> path \<Rightarrow> string list \<Rightarrow> string + string list \<Rightarrow> ResolveError + TestCase" where
  "read_row ld p headers row = bind_sum (map_sum (parse_err p) id row) (\<lambda>fields.
     map_sum id (\<lambda>(tc, vars). tc\<lparr>te_vars := vars\<rparr>) (fold (read_column ld p) (zip headers fields) (Inr (default_test, []))))"

definition parse_delimited_tests :: "loader \<Rightarrow> string \<Rightarrow> path \<Rightarrow> char \<Rightarrow> ResolveError + TestCase list" where
  "parse_delimited_tests ld body p delimiter = bind_sum (map_sum (parse_err p) id (ld_csv ld delimiter body)) (\<lambda>(headers, records).
     collect_results (map (read_row ld p headers) records))"

definition load_test_file :: "loader \<Rightarrow> path \<Rightarrow> ResolveError + TestCase list" where
  "load_test_file ld p = bind_sum (read_source ld p) (\<lambda>body.
     (let stem = unwrap_or (file_stem p) ''tests''; ext = extension p
      in map_sum id (\<lambda>cases. map (\<lambda>(i, tc). ensure_id (stem @ ''/'' @ show_nat i) tc) (enumerate 0 cases))
           (if ext = ''yaml'' \<or> ext = ''yml'' then parse_yaml_tests ld body p
            else if ext = ''json'' then parse_json_tests ld body p
            else if ext = ''jsonl'' \<or> ext = ''ndjson'' then parse_jsonl_tests ld body p
            else if ext = ''csv'' then parse_delimited_tests ld body p (CHR '','')
            else if ext = ''tsv'' then parse_delimited_tests ld body p (CHR 0x09)
            else Inl (ParseProblem (show_path p) (''unsupported test file extension '' @ tick (''.'' @ ext))))))"

definition load_glob :: "loader \<Rightarrow> path \<Rightarrow> string \<Rightarrow> ResolveError + TestCase list \<times> nat" where
  "load_glob ld base spec = (case strip_prefix spec ''file://'' of
       None \<Rightarrow> Inl (NotFileUrl spec)
     | Some rel \<Rightarrow> bind_sum (glob_files ld base rel) (\<lambda>files.
         map_sum id (\<lambda>cases. (concat cases, length files)) (collect_results (map (load_test_file ld) files))))"

subsection \<open>All sources of a suite (\<open>resolve.rs\<close>)\<close>

record GeneratorSpec =
  gn_command :: "string list"
  gn_config :: "json option"
  gn_timeout_ms :: "u64 option"

datatype TestSource = Glob string | Generator GeneratorSpec | InlineTest TestCase

record GlobReport =
  gl_spec :: string
  gl_files :: nat
  gl_cases :: nat

record Expanded =
  ex_tests :: "TestCase list"
  ex_deferred_generators :: "GeneratorSpec list"
  ex_globs :: "GlobReport list"

definition expand_source :: "loader \<Rightarrow> path \<Rightarrow> nat \<times> TestSource \<Rightarrow> ResolveError + Expanded \<Rightarrow> ResolveError + Expanded" where
  "expand_source ld base = (\<lambda>(index, source) r. bind_sum r (\<lambda>out. (case source of
       InlineTest tc \<Rightarrow> Inr (out\<lparr>ex_tests := ex_tests out @ [ensure_id (''inline/'' @ show_nat index) tc]\<rparr>)
     | Generator g \<Rightarrow> Inr (out\<lparr>ex_deferred_generators := ex_deferred_generators out @ [g]\<rparr>)
     | Glob spec \<Rightarrow> map_sum id (\<lambda>(loaded, files).
         out\<lparr>ex_globs := ex_globs out @ [\<lparr>gl_spec = spec, gl_files = files, gl_cases = length loaded\<rparr>],
             ex_tests := ex_tests out @ loaded\<rparr>) (load_glob ld base spec))))"

text \<open>The file references of prepared cases, in the order of the code.\<close>

definition resolve_references :: "loader \<Rightarrow> path \<Rightarrow> TestCase list \<Rightarrow> ResolveError + TestCase list" where
  "resolve_references ld base tests =
     bind_sum (resolve_file_vars ld base tests) (\<lambda>tests.
       bind_sum (resolve_assert_file_vals ld base tests) (resolve_digest_salts ld base))"

definition expand_tests :: "loader \<Rightarrow> path \<Rightarrow> TestSource list \<Rightarrow> Defaults option \<Rightarrow> ResolveError + Expanded" where
  "expand_tests ld base sources defaults =
     bind_sum (fold (expand_source ld base) (enumerate 0 sources) (Inr \<lparr>ex_tests = [], ex_deferred_generators = [], ex_globs = []\<rparr>)) (\<lambda>out.
     bind_sum (map_sum id concat (collect_results (map (expand_matrix (ld_serde ld) (ld_engine ld)) (ex_tests out)))) (\<lambda>swept.
     map_sum id (\<lambda>tests. out\<lparr>ex_tests := tests\<rparr>)
       (resolve_references ld base (case defaults of None \<Rightarrow> swept | Some d \<Rightarrow> apply_defaults d swept))))"

section \<open>Resolution stays in the suite\<close>

lemma collect_map_sum: "collect_results (map (\<lambda>x. map_sum f (\<lambda>_. x) (g x)) xs) = Inr ys \<longleftrightarrow> ys = xs \<and> (\<forall>x \<in> set xs. \<exists>u. g x = Inr u)"
proof (induction xs arbitrary: ys)
  case (Cons x xs)
  then show ?case using Cons.IH [of "tl ys"] Cons.IH [of xs] by (cases "g x") (auto split: sum.splits)
qed auto

abbreviation other_disk :: "loader \<Rightarrow> files \<Rightarrow> loader" where
  "other_disk ld fs \<equiv> ld\<lparr>ld_files := fs\<rparr>"

lemma other_disk_sel:
  "ld_files (other_disk ld fs) = fs" "ld_engine (other_disk ld fs) = ld_engine ld" "ld_serde (other_disk ld fs) = ld_serde ld"
  "ld_glob (other_disk ld fs) = ld_glob ld" "ld_is_file (other_disk ld fs) = ld_is_file ld" "ld_blake3 (other_disk ld fs) = ld_blake3 ld"
  "ld_json (other_disk ld fs) = ld_json ld" "ld_yaml (other_disk ld fs) = ld_yaml ld" "ld_suite_yaml (other_disk ld fs) = ld_suite_yaml ld"
  "ld_test (other_disk ld fs) = ld_test ld" "ld_test_text (other_disk ld fs) = ld_test_text ld" "ld_asserts (other_disk ld fs) = ld_asserts ld"
  "ld_history (other_disk ld fs) = ld_history ld" "ld_csv (other_disk ld fs) = ld_csv ld" "ld_f64 (other_disk ld fs) = ld_f64 ld"
  by simp_all

lemma assert_within_cong:
  assumes "fs_canonicalize fs = fs_canonicalize fs'"
  shows "assert_within fs base p spec = assert_within fs' base p spec"
proof -
  have near: "nearest_existing fs p n = nearest_existing fs' p n" for p n
    by (induction n) (simp_all add: assms split: option.split)
  show ?thesis unfolding assert_within_def canonicalize_existing_def assms near ..
qed

lemma read_asserted:
  assumes "same_inside base (ld_files ld) fs'" and "assert_within (ld_files ld) base p spec = Inr u"
  shows "read_source ld p = read_source (other_disk ld fs') p"
proof -
  have "path_starts_with c (suite_root (ld_files ld) base)" if "fs_canonicalize (ld_files ld) p = Some c" for c
    using assms(2) that by (auto simp: assert_within_def canonicalize_existing_def Let_def split: if_splits)
  then have "read_to_string (ld_files ld) p = read_to_string fs' p"
    using assms(1) by (auto simp: read_to_string_def same_inside_def split: option.split)
  then show ?thesis by (simp add: read_source_def)
qed

lemma load_file_var_inside:
  assumes "same_inside base (ld_files ld) fs'"
  shows "load_file_var ld base spec = load_file_var (other_disk ld fs') base spec"
proof -
  have canon: "fs_canonicalize (ld_files ld) = fs_canonicalize fs'" using assms by (simp add: same_inside_def)
  have "read_source ld p = read_source (other_disk ld fs') p" if "resolve_within (ld_files ld) base rel = Inr p" for rel p
    using that read_asserted [OF assms] by (auto simp: resolve_within_def Let_def split: sum.splits)
  then show ?thesis using resolve_within_cong [OF canon]
    by (cases "resolve_within (ld_files ld) base (fp_path spec)") (simp_all add: load_file_var_def Let_def cong: sum.case_cong if_cong)
qed

lemma glob_files_inside:
  assumes "same_inside base (ld_files ld) fs'"
  shows "glob_files ld base rel = glob_files (other_disk ld fs') base rel"
    and "glob_files ld base rel = Inr ps \<Longrightarrow> p \<in> set ps \<Longrightarrow> read_source ld p = read_source (other_disk ld fs') p"
proof -
  have canon: "fs_canonicalize (ld_files ld) = fs_canonicalize fs'" using assms by (simp add: same_inside_def)
  show "glob_files ld base rel = glob_files (other_disk ld fs') base rel"
    by (simp add: glob_files_def assert_within_cong [OF canon] cong: sum.case_cong)
  assume "glob_files ld base rel = Inr ps" and "p \<in> set ps"
  then obtain u where "assert_within (ld_files ld) base p (show_path p) = Inr u"
    by (auto simp: glob_files_def map_sum_Inr collect_map_sum split: sum.splits)
  then show "read_source ld p = read_source (other_disk ld fs') p" by (rule read_asserted [OF assms])
qed

lemma digest_of_glob_inside:
  assumes "same_inside base (ld_files ld) fs'"
  shows "digest_of_glob ld base pattern = digest_of_glob (other_disk ld fs') base pattern"
proof -
  have "map (hashed_file ld base) ps = map (hashed_file (other_disk ld fs') base) ps" if "glob_files ld base pattern = Inr ps" for ps
    using glob_files_inside(2) [OF assms that] by (simp add: hashed_file_def)
  then show ?thesis
    using glob_files_inside(1) [OF assms, of pattern] by (cases "glob_files (other_disk ld fs') base pattern") (simp_all add: digest_of_glob_def cong: map_cong)
qed

lemma load_glob_inside:
  assumes "same_inside base (ld_files ld) fs'"
  shows "load_glob ld base spec = load_glob (other_disk ld fs') base spec"
proof -
  have parse: "read_row (other_disk ld fs') = read_row ld" "parse_yaml_tests (other_disk ld fs') = parse_yaml_tests ld"
    "parse_json_tests (other_disk ld fs') = parse_json_tests ld" "parse_jsonl_tests (other_disk ld fs') = parse_jsonl_tests ld"
    "parse_delimited_tests (other_disk ld fs') = parse_delimited_tests ld"
    unfolding read_row_def read_column_def parse_yaml_tests_def parse_json_tests_def parse_jsonl_tests_def
      parse_delimited_tests_def tests_of_values_def other_disk_sel by (rule refl)+
  have loaded: "load_test_file ld p = load_test_file (other_disk ld fs') p" if "read_source ld p = read_source (other_disk ld fs') p" for p
    unfolding load_test_file_def parse that ..
  have "map (load_test_file ld) ps = map (load_test_file (other_disk ld fs')) ps" if "glob_files ld base rel = Inr ps" for rel ps
    using glob_files_inside(2) [OF assms that] loaded by simp
  then have "bind_sum (glob_files ld base rel) (\<lambda>files. map_sum id (\<lambda>cases. (concat cases, length files)) (collect_results (map (load_test_file ld) files)))
      = bind_sum (glob_files (other_disk ld fs') base rel)
          (\<lambda>files. map_sum id (\<lambda>cases. (concat cases, length files)) (collect_results (map (load_test_file (other_disk ld fs')) files)))" for rel
    using glob_files_inside(1) [OF assms, of rel] by (cases "glob_files (other_disk ld fs') base rel") (simp_all cong: map_cong)
  then show ?thesis by (simp add: load_glob_def split: option.split)
qed


definition demo_loader :: loader where
  "demo_loader = \<lparr>ld_files = demo_files ''a'', ld_engine = demo_engine, ld_serde = lib_serde quiet_libs,
     ld_glob = (\<lambda>_. Inr [[RootDir, Normal ''s'', Normal ''t.csv''], [RootDir, Normal ''s'', Normal ''link'']]), ld_is_file = (\<lambda>_. True),
     ld_blake3 = (\<lambda>s. s), ld_json = (\<lambda>_. Inr JNull), ld_yaml = (\<lambda>_. Inr JNull), ld_suite_yaml = (\<lambda>_. Inr JNull),
     ld_test = (\<lambda>_. Inr default_test), ld_test_text = (\<lambda>_. Inr default_test), ld_asserts = (\<lambda>_. Inr []),
     ld_history = (\<lambda>_. Inr (Inline [])), ld_csv = (\<lambda>_ s. Inr ([''x''], [Inr [s]])), ld_f64 = (\<lambda>_. None)\<rparr>"


section \<open>The order of a listing does not matter\<close>

lemma glob_files_perm:
  assumes "ld_glob ld (join_text base rel) = Inr ps" and "glob_files ld base rel = Inr files" and "mset qs = mset ps"
    and "ld' = ld\<lparr>ld_glob := \<lambda>p. if p = join_text base rel then Inr qs else ld_glob ld p\<rparr>"
  shows "glob_files ld' base rel = Inr files"
proof -
  have ok: "reject_bad_spec base rel = Inr ()" using assms(2) by (simp add: glob_files_def split: sum.splits)
  have files: "files = sort (filter (ld_is_file ld) ps)" "\<forall>p \<in> set (filter (ld_is_file ld) ps). \<exists>u. assert_within (ld_files ld) base p (show_path p) = Inr u"
    using assms(1,2) ok by (auto simp: glob_files_def map_sum_Inr collect_map_sum)
  have "set qs = set ps" using assms(3) by (metis set_mset_mset)
  then have "collect_results (map (\<lambda>p. map_sum OutsideSuite (\<lambda>_. p) (assert_within (ld_files ld) base p (show_path p))) (filter (ld_is_file ld) qs))
      = Inr (filter (ld_is_file ld) qs)"
    using files(2) by (auto simp: collect_map_sum)
  moreover have "sort (filter (ld_is_file ld) qs) = files"
    unfolding files(1) using assms(3) by (metis mset_filter mset_sort properties_for_sort sorted_sort)
  ultimately show ?thesis by (simp add: glob_files_def assms(4) ok)
qed

text \<open>What a glob loads, and a content digest, do not depend on the order in which the file system lists the matches: the
  files are read in the order of their paths. So case ids, which are numbered within a file, and salts are the
  same on every machine.\<close>

theorem listing_order_free:
  assumes "ld_glob ld (join_text base rel) = Inr ps" and "mset qs = mset ps"
    and "ld' = ld\<lparr>ld_glob := \<lambda>p. if p = join_text base rel then Inr qs else ld_glob ld p\<rparr>"
  shows "(load_glob ld base (''file://'' @ rel) = Inr r \<longrightarrow> load_glob ld' base (''file://'' @ rel) = Inr r)
    \<and> (digest_of_glob ld base rel = Inr d \<longrightarrow> digest_of_glob ld' base rel = Inr d)"
proof -
  have sel: "ld_files ld' = ld_files ld" "ld_engine ld' = ld_engine ld" "ld_blake3 ld' = ld_blake3 ld" "ld_json ld' = ld_json ld"
    "ld_suite_yaml ld' = ld_suite_yaml ld" "ld_test ld' = ld_test ld" "ld_test_text ld' = ld_test_text ld" "ld_asserts ld' = ld_asserts ld"
    "ld_history ld' = ld_history ld" "ld_csv ld' = ld_csv ld" "ld_f64 ld' = ld_f64 ld"
    using assms(3) by simp_all
  have load: "load_test_file ld' = load_test_file ld" "hashed_file ld' = hashed_file ld"
    unfolding load_test_file_def hashed_file_def read_source_def parse_yaml_tests_def parse_json_tests_def parse_jsonl_tests_def
      parse_delimited_tests_def tests_of_values_def read_row_def read_column_def sel by (rule refl)+
  note perm = glob_files_perm [OF assms(1) _ assms(2,3)]
  have "strip_prefix (''file://'' @ rel) ''file://'' = Some rel" by (simp only: strip_prefix_Some)
  then show ?thesis
    using perm by (cases "glob_files ld base rel") (simp_all add: load_glob_def digest_of_glob_def load sel(3))
qed

definition demo_paths :: "path list" where
  "demo_paths = [[RootDir, Normal ''s'', Normal ''a.csv''], [RootDir, Normal ''s'', Normal ''b.csv'']]"

definition demo_listing :: loader where
  "demo_listing = demo_loader\<lparr>ld_glob := \<lambda>_. Inr demo_paths\<rparr>"

theorem listing_order_free_witness:
  "\<exists>r. load_glob (demo_listing\<lparr>ld_glob := \<lambda>p. if p = join_text [RootDir, Normal ''s''] ''*'' then Inr (rev demo_paths) else ld_glob demo_listing p\<rparr>)
       [RootDir, Normal ''s''] (''file://'' @ ''*'') = Inr r
     \<and> load_glob demo_listing [RootDir, Normal ''s''] (''file://'' @ ''*'') = Inr r"
proof -
  let ?base = "[RootDir, Normal ''s'']"
  have within: "assert_within (demo_files ''a'') ?base p s = Inr ()" if "p \<in> set demo_paths" for p s
    using that by (auto simp: demo_paths_def assert_within_def canonicalize_existing_def demo_files_def path_starts_with_def)
  have "glob_files demo_listing ?base ''*'' = Inr demo_paths"
    using within by (simp add: glob_files_def demo_listing_def demo_paths_def demo_loader_def reject_bad_spec_def path_components_def
        component_of_def List.map_filter_simps is_absolute_def less_Component_def less_eq_Component_def component_rank_def)
  then have "load_glob demo_listing ?base (''file://'' @ ''*'')
      = map_sum id (\<lambda>cases. (concat cases, length demo_paths)) (collect_results (map (load_test_file demo_listing) demo_paths))"
    unfolding load_glob_def by simp
  moreover obtain r where "map_sum id (\<lambda>cases. (concat cases, length demo_paths)) (collect_results (map (load_test_file demo_listing) demo_paths)) = Inr r"
    by (simp add: demo_paths_def load_test_file_def demo_listing_def demo_loader_def read_source_def read_to_string_def demo_files_def Let_def
        extension_def file_name_def split_at_dot_def parse_delimited_tests_def read_row_def read_column_def bind_sum_def to_lowercase_def
        char_lowercase_def)
  ultimately have r: "load_glob demo_listing ?base (''file://'' @ ''*'') = Inr r" by simp
  have "ld_glob demo_listing (join_text ?base ''*'') = Inr demo_paths" by (simp add: demo_listing_def)
  from listing_order_free [OF this, of "rev demo_paths", OF _ refl, THEN conjunct1, rule_format, OF _ r] r show ?thesis by auto
qed

section \<open>A matrix is a product\<close>

lemma fold_axes:
  "fold extend_axis axes combos
   = concat (map (\<lambda>c. map (\<lambda>vs. c @ zip (map fst axes) vs) (product_lists (map snd axes))) combos)"
proof (induction axes arbitrary: combos)
  case Nil
  have "concat (map (\<lambda>c. [c]) combos) = combos" by (induction combos) simp_all
  then show ?case by simp
next
  case (Cons axis axes)
  have "concat (map (\<lambda>c. map (\<lambda>vs. c @ zip (map fst axes) vs) (product_lists (map snd axes))) (extend_axis axis combos))
      = concat (map (\<lambda>c. map (\<lambda>vs. c @ zip (map fst (axis # axes)) vs) (product_lists (map snd (axis # axes)))) combos)"
    by (induction combos) (simp_all add: extend_axis_def map_concat comp_def)
  then show ?case using Cons by simp
qed

text \<open>A case with a matrix becomes the product of its axes: one case for each choice of a value per axis, the last axis
  varying fastest, with the chosen values as variables and no matrix left. Without an id template it only
  fails when an axis is empty.\<close>

theorem matrix_is_product:
  assumes "te_matrix tc \<noteq> []"
  shows "(\<forall>out. expand_matrix sd en tc = Inr out \<longrightarrow>
       map te_vars out = map (\<lambda>vs. fold (\<lambda>(k, v). btree_insert k v) (zip (map fst (te_matrix tc)) vs) (te_vars tc))
         (product_lists (map snd (te_matrix tc)))
       \<and> (\<forall>c \<in> set out. te_matrix c = [] \<and> te_matrix_id c = None \<and> te_assert c = te_assert tc \<and> ts_tags c = ts_tags tc))
     \<and> (te_matrix_id tc = None \<longrightarrow> ((\<exists>e. expand_matrix sd en tc = Inl e) \<longleftrightarrow> (\<exists>axis \<in> set (te_matrix tc). snd axis = [])))"
proof (cases "find (\<lambda>(_, values). values = []) (te_matrix tc)")
  case None
  have combos: "fold extend_axis (te_matrix tc) [[]] = map (zip (map fst (te_matrix tc))) (product_lists (map snd (te_matrix tc)))"
    by (simp add: fold_axes)
  have one: "te_vars c = fold (\<lambda>(k, v). btree_insert k v) combo (te_vars tc) \<and> te_matrix c = [] \<and> te_matrix_id c = None
      \<and> te_assert c = te_assert tc \<and> ts_tags c = ts_tags tc" if "matrix_case sd en tc combo = Inr c" for combo c
    using that by (auto simp: matrix_case_def map_sum_Inr Let_def)
  have all: "map te_vars out = map (\<lambda>combo. fold (\<lambda>(k, v). btree_insert k v) combo (te_vars tc)) combos
      \<and> (\<forall>c \<in> set out. te_matrix c = [] \<and> te_matrix_id c = None \<and> te_assert c = te_assert tc \<and> ts_tags c = ts_tags tc)"
    if "collect_results (map (matrix_case sd en tc) combos) = Inr out" for combos out
    using that
  proof (induction combos arbitrary: out)
    case (Cons combo combos)
    then show ?case using one [of combo] by (auto simp: collect_results_Inr)
  qed simp
  have named: "\<exists>out. collect_results (map (matrix_case sd en tc) combos) = Inr out" if "te_matrix_id tc = None" for combos
    by (rule exI [of _ "map (\<lambda>combo. case matrix_case sd en tc combo of Inr c \<Rightarrow> c | Inl _ \<Rightarrow> tc) combos"])
      (use that in \<open>simp add: collect_results_Inr matrix_case_def Let_def\<close>)
  have expand: "expand_matrix sd en tc = collect_results (map (matrix_case sd en tc) (map (zip (map fst (te_matrix tc))) (product_lists (map snd (te_matrix tc)))))"
    using assms None by (simp add: expand_matrix_def combos)
  have "\<not> (\<exists>axis \<in> set (te_matrix tc). snd axis = [])" using None by (auto simp: find_None_iff)
  moreover have "\<not> (\<exists>e. expand_matrix sd en tc = Inl e)" if "te_matrix_id tc = None"
    using named [OF that] unfolding expand by (metis Inl_Inr_False)
  moreover have "map te_vars out = map (\<lambda>vs. fold (\<lambda>(k, v). btree_insert k v) (zip (map fst (te_matrix tc)) vs) (te_vars tc)) (product_lists (map snd (te_matrix tc)))
      \<and> (\<forall>c \<in> set out. te_matrix c = [] \<and> te_matrix_id c = None \<and> te_assert c = te_assert tc \<and> ts_tags c = ts_tags tc)"
    if "expand_matrix sd en tc = Inr out" for out
    using all [OF that [unfolded expand]] by (simp add: comp_def)
  ultimately show ?thesis by blast
next
  case (Some axis)
  then have "\<exists>axis \<in> set (te_matrix tc). snd axis = []" by (force simp: case_prod_beta dest!: Prelude.find_SomeD)
  then show ?thesis using assms Some by (simp add: expand_matrix_def split: prod.split)
qed

theorem matrix_is_product_witness:
  "\<exists>out. expand_matrix (lib_serde quiet_libs) demo_engine
     (default_test\<lparr>te_matrix := [(''a'', [Raw JNull, Raw (JBool True)]), (''b'', [Raw JNull])], te_matrix_id := Some ''t''\<rparr>) = Inr out
   \<and> map te_vars out = [[(''a'', Raw JNull), (''b'', Raw JNull)], [(''a'', Raw (JBool True)), (''b'', Raw JNull)]]"
proof -
  let ?tc = "default_test\<lparr>te_matrix := [(''a'', [Raw JNull, Raw (JBool True)]), (''b'', [Raw JNull])], te_matrix_id := Some ''t''\<rparr>"
  obtain out where out: "expand_matrix (lib_serde quiet_libs) demo_engine ?tc = Inr out"
    by (simp add: expand_matrix_def extend_axis_def matrix_case_def render_matrix_id_def demo_engine_def Let_def)
  have "te_matrix ?tc \<noteq> []" by simp
  from matrix_is_product [OF this, THEN conjunct1, rule_format, OF out] out show ?thesis by (auto simp: default_test_def)
qed

section \<open>Defaults fill gaps\<close>

lemma default_vars:
  "map_of (fold (\<lambda>(k, v) vars. if map_of vars k = None then btree_insert k v vars else vars) ds vars) = map_of ds ++ map_of vars"
proof (induction ds arbitrary: vars)
  case (Cons d ds)
  then show ?case by (cases d) (auto simp: map_of_btree_insert fun_eq_iff map_add_def split: option.split)
qed simp

lemma default_tags:
  "\<exists>new. fold (\<lambda>tag tags. if tag \<in> set tags then tags else tags @ [tag]) ds tags = tags @ new \<and> set new = set ds - set tags"
proof (induction ds arbitrary: tags)
  case (Cons d ds)
  show ?case
  proof (cases "d \<in> set tags")
    case True
    then show ?thesis using Cons [of tags] by auto
  next
    case False
    then show ?thesis using Cons [of "tags @ [d]"] by (auto intro: exI [of _ "d # _"])
  qed
qed simp

text \<open>Defaults fill gaps and never override: a case keeps every variable, its threshold, its salt and its history where it
  has them and takes the default otherwise, its own assertions follow the default ones, and its tags come
  first, followed by the default tags it lacks.\<close>

theorem defaults_fill_gaps:
  "map_of (te_vars (merge_defaults d tc)) = map_of (df_vars d) ++ map_of (te_vars tc)
   \<and> te_assert (merge_defaults d tc) = df_assert d @ te_assert tc
   \<and> (\<exists>new. ts_tags (merge_defaults d tc) = ts_tags tc @ new \<and> set new = set (df_tags d) - set (ts_tags tc))
   \<and> te_threshold (merge_defaults d tc) = or_else (te_threshold tc) (df_threshold d)
   \<and> te_cache_salt (merge_defaults d tc) = or_else (te_cache_salt tc) (df_cache_salt d)
   \<and> te_history (merge_defaults d tc) = or_else (te_history tc) (df_history d)
   \<and> ts_id (merge_defaults d tc) = ts_id tc \<and> te_expect_fail (merge_defaults d tc) = te_expect_fail tc"
  by (simp add: merge_defaults_def default_vars default_tags)

end
