(* ===== verification/Planning.thy ===== *)
theory Planning
  imports Compare Resolve
begin

text \<open>
  What a run will do: generated cases (\<open>crates/domarinn-core/src/generate.rs\<close>), the diagnosis of an empty run
  (\<open>empty_run.rs\<close>) and the plan of the cells (\<open>run_with_progress\<close> in \<open>runner.rs\<close>). The child process of a generator is
  a function of the world.
\<close>

section \<open>Model\<close>

subsection \<open>Generated cases (\<open>generate.rs\<close>)\<close>

datatype GenerateError = GenerateExec string | BadTests "string list" string

definition parse_tests :: "loader \<Rightarrow> string \<Rightarrow> string list \<Rightarrow> GenerateError + json list" where
  "parse_tests ld stdout command =
     (let trimmed = trim stdout;
          per_line = collect_results (map (\<lambda>line.
            map_sum (\<lambda>e. BadTests command (''invalid JSONL line: '' @ e)) id (ld_json ld line))
            (filter (\<lambda>l. l \<noteq> []) (map trim (text_lines trimmed))))
      in if trimmed = [] then Inr []
         else if starts_with trimmed ''{'' then
           (case ld_json ld trimmed of
              Inr (JObject ms) \<Rightarrow> (case map_of ms ''tests'' of
                  Some (JArray items) \<Rightarrow> Inr items
                | _ \<Rightarrow> Inl (BadTests command (''object form must have a '' @ tick ''tests'' @ '' array'')))
            | _ \<Rightarrow> per_line)
         else per_line)"

definition generated_cases :: "loader \<Rightarrow> string list \<Rightarrow> json list \<Rightarrow> GenerateError + TestCase list" where
  "generated_cases ld command items =
     (let stem = unwrap_or (Option.bind (first_opt command) (\<lambda>c. file_stem (path_components c))) ''generated''
      in map_sum id (\<lambda>cases. map (\<lambda>(i, tc). ensure_id (stem @ ''/'' @ show_nat i) tc) (enumerate 0 cases))
           (collect_results (map (\<lambda>v. map_sum (BadTests command) id (ld_test ld v)) items)))"

type_synonym 'w generator = "GeneratorSpec \<Rightarrow> 'w \<Rightarrow> (string + string) \<times> 'w"

definition run_one :: "loader \<Rightarrow> 'w generator \<Rightarrow> GeneratorSpec \<Rightarrow> 'w \<Rightarrow> (GenerateError + TestCase list) \<times> 'w" where
  "run_one ld exec g w =
     (let (out, w) = exec g w
      in (bind_sum (map_sum GenerateExec id out) (\<lambda>stdout.
            bind_sum (parse_tests ld stdout (gn_command g)) (generated_cases ld (gn_command g))), w))"

fun resolve_generators :: "loader \<Rightarrow> 'w generator \<Rightarrow> GeneratorSpec list \<Rightarrow> TestCase list \<Rightarrow> 'w \<Rightarrow> (GenerateError + TestCase list) \<times> 'w" where
  "resolve_generators ld exec [] out w = (Inr out, w)"
| "resolve_generators ld exec (g # gs) out w =
     (let (r, w) = run_one ld exec g w
      in case r of Inl e \<Rightarrow> (Inl e, w) | Inr cases \<Rightarrow> resolve_generators ld exec gs (out @ cases) w)"

subsection \<open>Nothing to run (\<open>empty_run.rs\<close>)\<close>

datatype EmptyRun =
    NoTestSources
  | SourcesProducedNothing "string list" "string list list"
  | FilteredOut nat FilterSpec "string list"
  | NoProvidersSelected "string list" "string list"
  | NoPromptsSelected "string list" "string list"
  | FallbackOnlyExcluded "string list" "string list" "string list"
  | EmbeddingsSelected "string list" "string list" "string list"

definition MAX_EXAMPLES :: nat where "MAX_EXAMPLES = 5"

definition examples :: "string list \<Rightarrow> string list" where
  "examples ids = take MAX_EXAMPLES ids"

definition cell_capable :: "ProviderCfg list \<Rightarrow> string list" where
  "cell_capable providers = map pcf_id (filter forms_cells providers)"

definition check_provider_filter :: "ProviderCfg list \<Rightarrow> string list \<Rightarrow> EmptyRun option" where
  "check_provider_filter providers requested =
     (let unknown = filter (\<lambda>r. \<not> list_ex (\<lambda>p. pcf_id p = r) providers) requested;
          fallback_only = filter (\<lambda>r. list_ex (\<lambda>p. pcf_id p = r \<and> pcf_fallback_only p) providers) requested;
          embeddings = filter (\<lambda>r. list_ex (\<lambda>p. pcf_id p = r \<and> is_embeddings (pcf_kind p)) providers) requested
      in if requested = [] then None
         else if unknown \<noteq> [] then Some (NoProvidersSelected unknown (cell_capable providers))
         else if fallback_only \<noteq> [] then Some (FallbackOnlyExcluded requested fallback_only (cell_capable providers))
         else if embeddings \<noteq> [] then Some (EmbeddingsSelected requested embeddings (cell_capable providers))
         else None)"

definition no_providers :: "ProviderCfg list \<Rightarrow> string list \<Rightarrow> EmptyRun" where
  "no_providers providers requested =
     (let fallback_only_ids = map pcf_id (filter pcf_fallback_only (filter (\<lambda>p. \<not> is_embeddings (pcf_kind p)) providers))
      in if requested = [] \<and> fallback_only_ids \<noteq> [] \<and> \<not> list_ex forms_cells providers
         then FallbackOnlyExcluded [] fallback_only_ids []
         else NoProvidersSelected requested (cell_capable providers))"

subsection \<open>The plan of the cells (\<open>runner.rs\<close>)\<close>

record 'w Cell =
  ce_provider :: "'w Provider"
  ce_fallbacks :: "'w Provider list"
  ce_prompt :: "Prompt option"
  ce_test :: TestCase
  ce_repeat :: u32

definition prompt_slots :: "Prompt list \<Rightarrow> Prompt option list" where
  "prompt_slots prompts = (if prompts = [] then [None] else map Some prompts)"

definition slot_included :: "Filter \<Rightarrow> Prompt option \<Rightarrow> bool" where
  "slot_included flt slot = (case slot of Some p \<Rightarrow> prompt_included flt (pt_id p) | None \<Rightarrow> True)"

text \<open>The fallback chain of one test under a provider, or \<open>None\<close> when the pair forms no cell.\<close>

definition chain_for ::
  "Filter \<Rightarrow> (string \<rightharpoonup> string list) \<Rightarrow> (string \<rightharpoonup> 'w Provider) \<Rightarrow> 'w Provider \<Rightarrow> TestCase \<Rightarrow> 'w Provider list option" where
  "chain_for flt fallback_ids by_id provider test =
     then_some (matches_test flt test \<and> provider_included flt (pv_id provider) test)
       (case fallback_ids (pv_id provider) of None \<Rightarrow> [] | Some ids \<Rightarrow> resolve_chain (pv_id provider) ids by_id test)"

definition plan_cells ::
  "Filter \<Rightarrow> (string \<rightharpoonup> string list) \<Rightarrow> (string \<rightharpoonup> 'w Provider) \<Rightarrow> 'w Provider list \<Rightarrow> Prompt list \<Rightarrow> TestCase list \<Rightarrow> u32
   \<Rightarrow> 'w Cell list" where
  "plan_cells flt fallback_ids by_id providers prompts tests repeats =
     concat (map (\<lambda>provider.
       concat (map (\<lambda>slot.
         concat (map (\<lambda>test. (case chain_for flt fallback_ids by_id provider test of
             None \<Rightarrow> []
           | Some chain \<Rightarrow> map (\<lambda>i. \<lparr>ce_provider = provider, ce_fallbacks = chain, ce_prompt = slot, ce_test = test, ce_repeat = i\<rparr>)
               [0..<repeats])) tests))
         (filter (slot_included flt) (prompt_slots prompts)))) providers)"

text \<open>Why a plan has no cells.\<close>

definition empty_reason_of ::
  "ProviderCfg list \<Rightarrow> 'w Provider list \<Rightarrow> FilterOpts \<Rightarrow> Prompt list \<Rightarrow> TestCase list \<Rightarrow> EmptyRun" where
  "empty_reason_of cfgs providers opts prompts tests =
     (if providers = [] then no_providers cfgs (fo_providers opts)
      else if List.map_filter id (prompt_slots prompts) = [] \<and> prompts \<noteq> []
      then NoPromptsSelected (fo_prompts opts) (map pt_id prompts)
      else FilteredOut (length tests)
        \<lparr>fs_tags = fo_tags opts, fs_filters = fo_filters opts, fs_providers = fo_providers opts, fs_prompts = fo_prompts opts\<rparr>
        (examples (List.map_filter ts_id tests)))"

text \<open>Completed cases go into their slots, whatever the order they completed in. A slot out of range or left empty would
  panic.\<close>

definition fill_slots :: "nat \<Rightarrow> (nat \<times> 'r) list \<Rightarrow> 'r list option" where
  "fill_slots n completed =
     (if list_all (\<lambda>(i, _). i < n) completed
      then let slots = fold (\<lambda>(i, r) s. s[i := Some r]) completed (replicate n None)
           in if list_all (\<lambda>s. s \<noteq> None) slots then Some (map the slots) else None
      else None)"

section \<open>The plan\<close>

abbreviation cell_key :: "'w Cell \<Rightarrow> CellKey" where
  "cell_key c \<equiv> cell_of (ce_provider c) (ce_prompt c) (ce_test c) (ce_repeat c)"

lemma distinct_concat_by:
  assumes "distinct (map k xs)" and "\<And>x. x \<in> set xs \<Longrightarrow> distinct (f x)" and "\<And>x y. x \<in> set xs \<Longrightarrow> y \<in> set (f x) \<Longrightarrow> h y = k x"
  shows "distinct (concat (map f xs))"
  using assms
proof (induction xs)
  case (Cons x xs)
  have "y \<notin> set (f z)" if "y \<in> set (f x)" "z \<in> set xs" for y z
    using Cons.prems(1) Cons.prems(3) [of x y] Cons.prems(3) [of z y] that by (auto simp: image_iff)
  moreover have "distinct (concat (map f xs))" using Cons.prems by (intro Cons.IH) auto
  ultimately show ?case using Cons.prems(2) [of x] by auto
qed simp

lemma distinct_slots: "distinct (map pt_id prompts) \<Longrightarrow> distinct (map (map_option pt_id) (prompt_slots prompts))"
  by (simp add: prompt_slots_def comp_def distinct_map inj_on_def)

lemma plan_repeats:
  "map cell_key (case chain_for flt ids by_id p t of None \<Rightarrow> [] | Some chain \<Rightarrow> map (\<lambda>i.
      \<lparr>ce_provider = p, ce_fallbacks = chain, ce_prompt = slot, ce_test = t, ce_repeat = i\<rparr>) [0..<n])
   = (if chain_for flt ids by_id p t = None then [] else map (cell_of p slot t) [0..<n])"
  by (auto split: option.split)

lemma plan_keys_distinct:
  assumes "distinct (map pv_id providers)" and "distinct (map pt_id prompts)" and "distinct (map (\<lambda>t. unwrap_or (ts_id t) []) tests)"
  shows "distinct (map cell_key (plan_cells flt ids by_id providers prompts tests n))"
  unfolding plan_cells_def map_concat map_map comp_def
proof (rule distinct_concat_by [where k = pv_id and h = ck_provider_id])
  fix p assume "p \<in> set providers"
  have slots: "distinct (map (map_option pt_id) (filter (slot_included flt) (prompt_slots prompts)))"
    by (rule distinct_map_filter [OF distinct_slots [OF assms(2)]])
  show "distinct (concat (map (\<lambda>slot. concat (map (\<lambda>t. map cell_key (case chain_for flt ids by_id p t of None \<Rightarrow> []
      | Some chain \<Rightarrow> map (\<lambda>i. \<lparr>ce_provider = p, ce_fallbacks = chain, ce_prompt = slot, ce_test = t, ce_repeat = i\<rparr>) [0..<n])) tests))
      (filter (slot_included flt) (prompt_slots prompts))))"
    unfolding plan_repeats
  proof (rule distinct_concat_by [where k = "map_option pt_id" and h = ck_prompt_id, OF slots])
    fix slot
    show "distinct (concat (map (\<lambda>t. if chain_for flt ids by_id p t = None then [] else map (cell_of p slot t) [0..<n]) tests))"
      by (rule distinct_concat_by [where k = "\<lambda>t. unwrap_or (ts_id t) []" and h = ck_test_id, OF assms(3)])
        (auto simp: distinct_map inj_on_def cell_of_def split: if_splits)
  qed (auto simp: cell_of_def split: if_splits)
qed (use assms(1) in \<open>auto simp: cell_of_def split: option.splits\<close>)

lemma repeats_member:
  "c \<in> set (case ch of None \<Rightarrow> [] | Some chain \<Rightarrow> map (\<lambda>i.
      \<lparr>ce_provider = p, ce_fallbacks = chain, ce_prompt = slot, ce_test = t, ce_repeat = i\<rparr>) [0..<n])
   \<longleftrightarrow> ce_provider c = p \<and> ce_prompt c = slot \<and> ce_test c = t \<and> ch = Some (ce_fallbacks c) \<and> ce_repeat c < n"
  by (cases c; cases ch) (auto simp: image_iff)

lemma plan_members:
  "c \<in> set (plan_cells flt ids by_id providers prompts tests n) \<longleftrightarrow>
     ce_provider c \<in> set providers \<and> ce_prompt c \<in> set (prompt_slots prompts) \<and> slot_included flt (ce_prompt c)
   \<and> ce_test c \<in> set tests \<and> chain_for flt ids by_id (ce_provider c) (ce_test c) = Some (ce_fallbacks c) \<and> ce_repeat c < n"
  unfolding plan_cells_def in_concat_map repeats_member by auto

lemma chain_for_Some:
  "chain_for flt ids by_id p t = Some chain \<longleftrightarrow> matches_test flt t \<and> provider_included flt (pv_id p) t
     \<and> chain = (case ids (pv_id p) of None \<Rightarrow> [] | Some is \<Rightarrow> resolve_chain (pv_id p) is by_id t)"
  by (auto simp: chain_for_def)



section \<open>Nothing to run\<close>

lemma flatten_Some [simp]: "List.map_filter id (map Some xs) = xs"
  by (induction xs) (simp_all add: List.map_filter_simps)

text \<open>When the plan is empty because of the prompt filter, the report never says so: with prompts in the suite the slots are
  those prompts, so the branch that would name the filter cannot be taken.\<close>

theorem no_prompts_selected_is_unreachable:
  "empty_reason_of cfgs providers opts prompts tests \<noteq> NoPromptsSelected requested available
   \<and> empty_reason_of cfgs (p # ps) (opts\<lparr>fo_prompts := [''x'']\<rparr>) (pr # prs) tests
     = FilteredOut (length tests) \<lparr>fs_tags = fo_tags opts, fs_filters = fo_filters opts, fs_providers = fo_providers opts,
         fs_prompts = [''x'']\<rparr> (examples (List.map_filter ts_id tests))"
  by (auto simp: empty_reason_of_def no_providers_def prompt_slots_def Let_def)

lemma filter_check_sound:
  "check_provider_filter cfgs requested = None \<longleftrightarrow>
     (\<forall>r \<in> set requested. (\<exists>p \<in> set cfgs. pcf_id p = r) \<and> (\<forall>p \<in> set cfgs. pcf_id p = r \<longrightarrow> forms_cells p))"
  by (auto simp: check_provider_filter_def Let_def filter_empty_conv list_ex_iff forms_cells_def)

section \<open>Collecting the cases\<close>

lemma fold_fill:
  "(\<And>i r. (i, r) \<in> set done \<Longrightarrow> i < length s) \<Longrightarrow> distinct (map fst done) \<Longrightarrow>
   fold (\<lambda>(i, r) s. s[i := Some r]) done s = map (\<lambda>i. case map_of done i of Some r \<Rightarrow> Some r | None \<Rightarrow> s ! i) [0..<length s]"
proof (induction "done" arbitrary: s)
  case Nil
  then show ?case by (simp add: map_nth)
next
  case (Cons d ds)
  obtain i r where d: "d = (i, r)" by fastforce
  have none: "map_of ds i = None" using Cons.prems(2) d by (auto simp: map_of_eq_None_iff)
  have "fold (\<lambda>(i, r) s. s[i := Some r]) ds (s[i := Some r])
      = map (\<lambda>j. case map_of ds j of Some r \<Rightarrow> Some r | None \<Rightarrow> s[i := Some r] ! j) [0..<length (s[i := Some r])]"
    using Cons.prems d by (intro Cons.IH) auto
  moreover have "i < length s" using Cons.prems(1) d by auto
  ultimately show ?case using none d by (auto simp: nth_list_update split: option.split)
qed

lemma fill_slots_any_order:
  assumes "mset completed = mset (enumerate 0 cs)"
  shows "fill_slots (length cs) completed = Some cs"
proof -
  have set: "set completed = set (enumerate 0 cs)" using assms by (metis set_mset_mset)
  have mem: "(i, r) \<in> set completed \<longleftrightarrow> i < length cs \<and> r = cs ! i" for i r
    by (auto simp: set in_set_enumerate_eq)
  have "mset (map fst completed) = mset (map fst (enumerate 0 cs))" using assms by (metis mset_map)
  then have dist: "distinct (map fst completed)" by (metis distinct_enumerate map_fst_enumerate distinct_upt mset_eq_imp_distinct_iff)
  have "map_of completed i = Some (cs ! i)" if "i < length cs" for i
    using dist mem that by (simp add: map_of_eq_Some_iff)
  then have "fold (\<lambda>(i, r) s. s[i := Some r]) completed (replicate (length cs) None) = map Some cs"
    using dist mem by (subst fold_fill) (auto intro!: nth_equalityI)
  then show ?thesis using mem by (auto simp: fill_slots_def list_all_iff comp_def)
qed

end
