(* ===== verification/Provenance.thy ===== *)
theory Provenance
  imports Compare
begin

text \<open>
  Where a run came from: its branch, commit, CI job and author (\<open>crates/domarinn-core/src/provenance.rs\<close>). The process
  environment is a partial function, the \<open>git\<close> command a function of its arguments, and what the operating system
  reports of the user and the host are two optional names.
\<close>

section \<open>Model\<close>

datatype ProvenanceMode = Full | Anonymous | Off

definition parse_mode :: "string \<Rightarrow> ProvenanceMode option" where
  "parse_mode v =
     (let s = to_ascii_lowercase (trim v)
      in if s \<in> {''full'', ''on'', ''true'', ''1''} then Some Full
         else if s \<in> {''anonymous'', ''anon''} then Some Anonymous
         else if s \<in> {''off'', ''none'', ''false'', ''0''} then Some Off
         else None)"

definition records_identity :: "ProvenanceMode \<Rightarrow> bool" where
  "records_identity mode = (mode = Full)"

record ProvenanceOptions =
  po_mode :: ProvenanceMode
  po_note :: "string option"

type_synonym process_env = "string \<Rightarrow> string option"

definition ENV_MODE :: string where "ENV_MODE = ''DOMARINN_PROVENANCE''"

definition options_from_env :: "process_env \<Rightarrow> ProvenanceOptions" where
  "options_from_env vars =
     \<lparr>po_mode = (case vars ENV_MODE of
          Some raw \<Rightarrow> if trim raw \<noteq> [] then unwrap_or (parse_mode raw) Full else Full
        | None \<Rightarrow> Full), po_note = None\<rparr>"

text \<open>A set and non-empty variable.\<close>

definition env_get :: "process_env \<Rightarrow> string \<Rightarrow> string option" where
  "env_get vars key = Option.bind (vars key) (\<lambda>v. then_some (v \<noteq> []) v)"

definition ACTOR_ENV :: "string list" where
  "ACTOR_ENV = [''DOMARINN_ACTOR'', ''GITHUB_ACTOR'', ''GITLAB_USER_LOGIN'', ''BUILDKITE_BUILD_CREATOR'', ''BUILD_USER'']"

record machine =
  ma_vars :: process_env
  ma_username :: "string option"
  ma_hostname :: "string option"
  ma_git :: "string list \<Rightarrow> (bool \<times> string) option"
  ma_version :: string

definition actor :: "machine \<Rightarrow> string option" where
  "actor m = or_else (find_map (env_get (ma_vars m)) ACTOR_ENV) (ma_username m)"

definition host :: "machine \<Rightarrow> string option" where
  "host m = or_else (env_get (ma_vars m) ''DOMARINN_HOST'') (ma_hostname m)"

definition BRANCH_ENV :: "string list" where
  "BRANCH_ENV = [''DOMARINN_BRANCH'', ''GITHUB_HEAD_REF'', ''GITHUB_REF'', ''CI_MERGE_REQUEST_SOURCE_BRANCH_NAME'',
     ''CI_COMMIT_BRANCH'', ''BUILDKITE_BRANCH'', ''CIRCLE_BRANCH'', ''TRAVIS_PULL_REQUEST_BRANCH'', ''TRAVIS_BRANCH'',
     ''DRONE_SOURCE_BRANCH'', ''DRONE_BRANCH'', ''BITBUCKET_BRANCH'', ''APPVEYOR_REPO_BRANCH'',
     ''SYSTEM_PULLREQUEST_SOURCEBRANCH'', ''BUILD_SOURCEBRANCH'', ''BRANCH_NAME'', ''GIT_BRANCH'']"

definition branch_name :: "string \<Rightarrow> string option" where
  "branch_name raw =
     (let t = trim raw;
          n = unwrap_or (or_else (or_else (strip_prefix t ''refs/heads/'') (strip_prefix t ''refs/remotes/origin/''))
                (strip_prefix t ''origin/'')) t
      in if n = [] \<or> n = ''HEAD'' \<or> starts_with n ''refs/'' then None else Some n)"

definition branch_from :: "(string \<Rightarrow> string option) \<Rightarrow> string option" where
  "branch_from get = find_map branch_name (List.map_filter get BRANCH_ENV)"

definition ci_branch :: "process_env \<Rightarrow> string option" where
  "ci_branch vars = branch_from (env_get vars)"

definition git_output :: "machine \<Rightarrow> string list \<Rightarrow> string option" where
  "git_output m args = Option.bind (ma_git m args) (\<lambda>(success, out).
     if \<not> success then None else (let s = trim out in then_some (s \<noteq> []) s))"

definition collect_git :: "machine \<Rightarrow> GitMeta option" where
  "collect_git m =
     (let head = git_output m [''rev-parse'', ''--abbrev-ref'', ''HEAD'']; commit = git_output m [''rev-parse'', ''HEAD'']
      in if head = None \<and> commit = None then None
         else Some \<lparr>gm_branch = or_else (ci_branch (ma_vars m)) (Option.bind head branch_name), gm_commit = commit,
                gm_dirty = (case git_output m [''status'', ''--porcelain''] of Some s \<Rightarrow> s \<noteq> [] | None \<Rightarrow> False)\<rparr>)"

definition actions_run :: "(string \<Rightarrow> string option) \<Rightarrow> string option \<Rightarrow> string \<Rightarrow> string option" where
  "actions_run get run query = (case (get ''GITHUB_SERVER_URL'', get ''GITHUB_REPOSITORY'', run) of
       (Some server, Some repo, Some run) \<Rightarrow> Some (trim_end_slashes server @ ''/'' @ repo @ ''/actions/runs/'' @ run @ query)
     | _ \<Rightarrow> None)"

definition CI_MARKERS :: "(string \<times> string \<times> string) list" where
  "CI_MARKERS = [(''GITLAB_CI'', ''gitlab'', ''CI_JOB_URL''), (''BUILDKITE'', ''buildkite'', ''BUILDKITE_BUILD_URL''),
     (''CIRCLECI'', ''circleci'', ''CIRCLE_BUILD_URL''), (''TRAVIS'', ''travis'', ''TRAVIS_BUILD_WEB_URL'')]"

definition ci_found :: "string \<Rightarrow> string option \<Rightarrow> CiMeta option" where
  "ci_found provider run_url = Some \<lparr>ci_provider = Some provider, ci_run_url = run_url\<rparr>"

definition ci_from :: "(string \<Rightarrow> string option) \<Rightarrow> CiMeta option" where
  "ci_from get =
     (if get ''FORGEJO_ACTIONS'' \<noteq> None then ci_found ''forgejo'' (actions_run get (get ''GITHUB_RUN_NUMBER'') [])
      else if get ''GITEA_ACTIONS'' \<noteq> None then ci_found ''gitea'' (actions_run get (get ''GITHUB_RUN_NUMBER'') ''?by_index=1'')
      else if get ''GITHUB_ACTIONS'' \<noteq> None then ci_found ''github'' (actions_run get (get ''GITHUB_RUN_ID'') [])
      else (case find (\<lambda>(marker, _). get marker \<noteq> None) CI_MARKERS of
              Some (_, provider, url) \<Rightarrow> ci_found provider (get url)
            | None \<Rightarrow>
                if get ''CI'' = Some ''woodpecker'' then ci_found ''woodpecker'' (get ''CI_PIPELINE_URL'')
                else if get ''DRONE'' \<noteq> None then ci_found ''drone'' (get ''DRONE_BUILD_LINK'')
                else if get ''JENKINS_URL'' \<noteq> None then ci_found ''jenkins'' (get ''BUILD_URL'')
                else if get ''CI'' \<noteq> None then ci_found ''ci'' None
                else None))"

definition collect_ci :: "process_env \<Rightarrow> CiMeta option" where
  "collect_ci vars = ci_from (env_get vars)"

record Collected =
  col_git :: "GitMeta option"
  col_ci :: "CiMeta option"
  col_origin :: "RunOrigin option"

definition collect :: "machine \<Rightarrow> ProvenanceOptions \<Rightarrow> Collected" where
  "collect m opts =
     (if po_mode opts = Off then \<lparr>col_git = None, col_ci = None, col_origin = None\<rparr>
      else let identity = records_identity (po_mode opts)
           in \<lparr>col_git = collect_git m, col_ci = collect_ci (ma_vars m),
               col_origin = Some \<lparr>ro_actor = (if identity then actor m else None), ro_host = (if identity then host m else None),
                  ro_version = Some (ma_version m), ro_note = po_note opts, ro_redacted = then_some (\<not> identity) True\<rparr>\<rparr>)"

section \<open>Properties\<close>

text \<open>A branch is a branch: what is recorded is never empty, a detached head or a reference that is not a branch, and it
  comes from the first variable of the list that names one.\<close>

lemma branch_name_Some: "branch_name raw = Some b \<Longrightarrow> b \<noteq> [] \<and> b \<noteq> ''HEAD'' \<and> \<not> starts_with b ''refs/''"
  by (auto simp: branch_name_def Let_def split: if_splits)

lemma branch_from_Some:
  "branch_from get = Some b \<Longrightarrow> b \<noteq> [] \<and> b \<noteq> ''HEAD'' \<and> (\<exists>key \<in> set BRANCH_ENV. Option.bind (get key) branch_name = Some b)"
proof -
  assume "branch_from get = Some b"
  then obtain key raw where key: "key \<in> set BRANCH_ENV" "get key = Some raw" "branch_name raw = Some b"
    by (auto simp: branch_from_def List.map_filter_def dest!: find_map_SomeD)
  then have "Option.bind (get key) branch_name = Some b" by simp
  then show ?thesis using key(1) branch_name_Some [OF key(3)] by blast
qed

definition identity_vars :: "string set" where
  "identity_vars = set ACTOR_ENV \<union> {''DOMARINN_HOST''}"

lemma env_get_same: "vars k = vars' k \<Longrightarrow> env_get vars k = env_get vars' k"
  by (simp add: env_get_def)

lemma same_ci:
  assumes "\<And>k. k \<notin> identity_vars \<Longrightarrow> vars k = vars' k"
  shows "ci_branch vars = ci_branch vars'" and "collect_ci vars = collect_ci vars'"
proof -
  have get: "env_get vars k = env_get vars' k" if "k \<notin> identity_vars" for k by (rule env_get_same) (rule assms [OF that])
  have "\<forall>k \<in> set BRANCH_ENV. k \<notin> identity_vars" by (simp add: BRANCH_ENV_def identity_vars_def ACTOR_ENV_def)
  then have "List.map_filter (env_get vars) BRANCH_ENV = List.map_filter (env_get vars') BRANCH_ENV"
    using get by (simp add: List.map_filter_def cong: map_cong filter_cong)
  then show "ci_branch vars = ci_branch vars'" by (simp add: ci_branch_def branch_from_def)
  show "collect_ci vars = collect_ci vars'"
    by (simp add: collect_ci_def ci_from_def actions_run_def CI_MARKERS_def get identity_vars_def ACTOR_ENV_def)
qed

text \<open>An anonymous run says nothing of who ran it, nor a run with provenance off: two machines that differ only in the user,
  the host and the variables that name them record the same; and with provenance off nothing is recorded at all.\<close>

theorem anonymous_runs_are_anonymous:
  assumes "po_mode opts \<noteq> Full" and "ma_git m = ma_git m'" and "ma_version m = ma_version m'"
    and "\<And>k. k \<notin> identity_vars \<Longrightarrow> ma_vars m k = ma_vars m' k"
  shows "collect m opts = collect m' opts
    \<and> (po_mode opts = Off \<longrightarrow> col_origin (collect m opts) = None \<and> col_git (collect m opts) = None \<and> col_ci (collect m opts) = None)
    \<and> (\<forall>origin. col_origin (collect m opts) = Some origin \<longrightarrow> ro_actor origin = None \<and> ro_host origin = None \<and> ro_redacted origin = Some True)"
  using assms(1-3) same_ci [OF assms(4)]
  by (auto simp: collect_def Let_def records_identity_def collect_git_def git_output_def)

theorem anonymous_runs_are_anonymous_witness:
  "let m = \<lparr>ma_vars = [''GITHUB_ACTOR'' \<mapsto> ''ann''], ma_username = Some ''ann'', ma_hostname = Some ''h'', ma_git = \<lambda>_. None, ma_version = ''0.5''\<rparr>
   in collect m \<lparr>po_mode = Anonymous, po_note = None\<rparr>
      = collect (m\<lparr>ma_vars := Map.empty, ma_username := None, ma_hostname := None\<rparr>) \<lparr>po_mode = Anonymous, po_note = None\<rparr>"
proof -
  let ?m = "\<lparr>ma_vars = [''GITHUB_ACTOR'' \<mapsto> ''ann''], ma_username = Some ''ann'', ma_hostname = Some ''h'', ma_git = \<lambda>_. None, ma_version = ''0.5''\<rparr>"
  let ?m' = "?m\<lparr>ma_vars := Map.empty, ma_username := None, ma_hostname := None\<rparr>"
  have "ma_vars ?m k = ma_vars ?m' k" if "k \<notin> identity_vars" for k using that by (auto simp: identity_vars_def ACTOR_ENV_def)
  from anonymous_runs_are_anonymous [of "\<lparr>po_mode = Anonymous, po_note = None\<rparr>" ?m ?m', OF _ _ _ this]
  show ?thesis by simp
qed

end
