(* ===== verification/RunDriver.thy ===== *)
theory RunDriver
  imports Preflight Planning Provenance
begin

text \<open>
  A whole run (\<open>run_with_progress\<close> in \<open>crates/domarinn-core/src/runner.rs\<close>) with the suite's digests
  (\<open>config_digests\<close> in \<open>digests.rs\<close>): preparation with every refusal, the pool that runs the cells concurrently, and the
  assembly of the result.

  The pool is a step relation. A cell waits, is in flight, or is done; what is in flight finishes in any order, and a cell
  acts on the shared world when it finishes. Interleavings inside two cells in flight are not modelled, nor progress events.
  What the libraries and the operating system supply is the record \<open>kit\<close>.
\<close>

section \<open>Model\<close>

subsection \<open>Suite and options (\<open>config.rs\<close>, \<open>runner.rs\<close>)\<close>

record Runner =
  ru_concurrency :: "nat option"
  ru_retries :: "RetriesCfg option"
  ru_rate_limit :: "f64 option"
  ru_timeout_ms :: "u64 option"
  ru_short_circuit :: "bool option"
  ru_skip_on_empty_reason :: "string list"
  ru_refusal_patterns :: "string list"
  ru_fallback_on_empty_reason :: "string list option"

record CacheCfg =
  ccf_grader :: "bool option"
  ccf_store_empty_outputs :: "StoreEmptyOutputs option"

record Suite =
  su_project :: "string option"
  su_suite :: "string option"
  su_description :: "string option"
  su_providers :: "ProviderCfg list"
  su_prompts :: "Prompt list"
  su_tools :: "ToolDef list"
  su_tests :: "TestSource list"
  su_defaults :: "Defaults option"
  su_grader :: "Grader option"
  su_runner :: "Runner option"
  su_cache :: "CacheCfg option"

record RunOptions =
  op_filter :: FilterOpts
  op_repeat :: u32
  op_cache_mode :: CacheMode
  op_concurrency :: "nat option"
  op_retries :: "u32 option"
  op_include_raw :: bool
  op_provenance :: ProvenanceOptions
  op_grader_cache :: bool
  op_cache_migration :: bool
  op_allow_empty :: bool
  op_store_empty_outputs :: "StoreEmptyOutputs option"
  op_fallback :: bool
  op_fallback_on_empty_reason :: "string list option"

definition default_options :: RunOptions where
  "default_options = \<lparr>op_filter = \<lparr>fo_tags = [], fo_filters = [], fo_providers = [], fo_prompts = []\<rparr>, op_repeat = 1,
     op_cache_mode = ReadWrite, op_concurrency = None, op_retries = None, op_include_raw = True,
     op_provenance = \<lparr>po_mode = Full, po_note = None\<rparr>, op_grader_cache = True, op_cache_migration = True, op_allow_empty = False,
     op_store_empty_outputs = None, op_fallback = True, op_fallback_on_empty_reason = None\<rparr>"

datatype FactoryError = Unsupported string string | DigestSalt string ResolveError | BadRequestBlock string RequestError

datatype RunError =
    Factory FactoryError
  | ResolveFailed ResolveError
  | GenerateFailed GenerateError
  | NothingToRun EmptyRun
  | Credentials "CredentialIssue list"

definition is_config_error :: "RunError \<Rightarrow> bool" where
  "is_config_error e = (case e of
       Factory _ \<Rightarrow> True | ResolveFailed _ \<Rightarrow> True | NothingToRun _ \<Rightarrow> True | Credentials _ \<Rightarrow> True
     | GenerateFailed (BadTests _ _) \<Rightarrow> True | GenerateFailed _ \<Rightarrow> False)"

subsection \<open>Digests of the suite (\<open>digests.rs\<close>)\<close>

text \<open>The encodings \<open>serde\<close> derives for the blocks of a suite; \<open>None\<close> when serialisation fails.\<close>

record encodings =
  enc_prompts :: "Prompt list \<Rightarrow> json option"
  enc_providers :: "ProviderCfg list \<Rightarrow> json option"
  enc_grader :: "Grader option \<Rightarrow> json option"
  enc_test :: "TestCase \<Rightarrow> json option"
  enc_suite :: "Suite \<Rightarrow> json option"

definition to_value :: "json option \<Rightarrow> json" where
  "to_value v = unwrap_or v JNull"

text \<open>\<open>Map::remove\<close> of an insertion-ordered map: the last member takes the place of the removed one.\<close>

fun swap_remove :: "string \<Rightarrow> (string \<times> json) list \<Rightarrow> (string \<times> json) list" where
  "swap_remove k [] = []"
| "swap_remove k ((k', v) # ms) = (if k' = k then (if ms = [] then [] else last ms # butlast ms) else (k', v) # swap_remove k ms)"

definition json_remove :: "string \<Rightarrow> json \<Rightarrow> json \<times> json option" where
  "json_remove k v = (case v of JObject ms \<Rightarrow> (JObject (swap_remove k ms), map_of ms k) | _ \<Rightarrow> (v, None))"

definition split_test :: "encodings \<Rightarrow> TestCase \<Rightarrow> (string \<times> json) \<times> (string \<times> json)" where
  "split_test enc test =
     (let key = unwrap_or (ts_id test) [];
          body = fst (json_remove ''expect_fail'' (to_value (enc_test enc test)));
          (body, assert) = json_remove ''assert'' body;
          assert = unwrap_or assert JNull;
          assert = (if expect_fail_enabled test then JObject [(''assert'', assert), (''expect_fail'', JBool True)] else assert)
      in ((key, body), (key, assert)))"

definition digest_rows :: "(string \<times> json) list \<Rightarrow> json" where
  "digest_rows rows = JArray (map (\<lambda>(key, body). JObject [(''id'', JString key), (''body'', body)]) (sort_key fst rows))"

definition split_tests :: "encodings \<Rightarrow> TestCase list \<Rightarrow> json \<times> json" where
  "split_tests enc tests =
     (digest_rows (map (\<lambda>t. fst (split_test enc t)) tests), digest_rows (map (\<lambda>t. snd (split_test enc t)) tests))"

definition config_digests :: "'w env \<Rightarrow> encodings \<Rightarrow> Suite \<Rightarrow> TestCase list \<Rightarrow> ConfigDigests" where
  "config_digests env enc suite tests =
     (let (bodies, asserts) = split_tests enc tests
      in \<lparr>cd_prompts = Some (digest env (to_value (enc_prompts enc (su_prompts suite)))),
          cd_providers = Some (digest env (to_value (enc_providers enc (su_providers suite)))),
          cd_tests = Some (digest env bodies), cd_asserts = Some (digest env asserts),
          cd_grader = Some (digest env (to_value (enc_grader enc (su_grader suite))))\<rparr>)"

subsection \<open>Preparing a run\<close>

record ('c, 'w) kit =
  ki_env :: "'w env"
  ki_loader :: loader
  ki_libs :: libs
  ki_to_value :: "AssertKind \<Rightarrow> json option"
  ki_f64_json :: "f64 \<Rightarrow> json"
  ki_regex :: "string \<Rightarrow> string + (string \<Rightarrow> bool)"
  ki_glob :: "string \<Rightarrow> string + (string \<Rightarrow> bool)"
  ki_build :: "ProviderCfg \<Rightarrow> u64 option \<Rightarrow> FactoryError + 'w Provider"
  ki_generator :: "'w generator"
  ki_encodings :: encodings
  ki_machine :: machine
  ki_cache :: "'c CacheBackend"
  ki_grader :: "('c, 'w) AssertGrader option"
  ki_fresh_id :: "'w \<Rightarrow> string"
  ki_now :: "'w \<Rightarrow> int"

record ('c, 'w) Prepared =
  pp_cells :: "'w Cell list"
  pp_ctx :: "('c, 'w) CellCtx"
  pp_tests :: "TestCase list"
  pp_concurrency :: nat
  pp_limiter :: "RateLimiter option"

definition runner_opt :: "Suite \<Rightarrow> (Runner \<Rightarrow> 'a option) \<Rightarrow> 'a option" where
  "runner_opt suite f = Option.bind (su_runner suite) f"

definition run_empty_policy :: "('c, 'w) kit \<Rightarrow> Suite \<Rightarrow> RunOptions \<Rightarrow> EmptyPolicy" where
  "run_empty_policy kit suite opts =
     (let store = unwrap_or (or_else (op_store_empty_outputs opts) (Option.bind (su_cache suite) ccf_store_empty_outputs)) Reproducible;
          patterns = unwrap_or (map_option ru_refusal_patterns (su_runner suite)) []
      in case policy_from_suite (ki_regex kit) (Some store) patterns of
           Inr policy \<Rightarrow> policy | Inl _ \<Rightarrow> \<lparr>ep_store = store, ep_refusal = []\<rparr>)"

text \<open>The first provider whose id an earlier one has.\<close>

fun find_duplicate :: "string set \<Rightarrow> ProviderCfg list \<Rightarrow> ProviderCfg option" where
  "find_duplicate seen [] = None"
| "find_duplicate seen (p # ps) = (if pcf_id p \<in> seen then Some p else find_duplicate (insert (pcf_id p) seen) ps)"

definition parse_problem :: "string \<Rightarrow> string \<Rightarrow> RunError" where
  "parse_problem place msg = ResolveFailed (ParseProblem place msg)"

definition filter_of :: "('c, 'w) kit \<Rightarrow> RunOptions \<Rightarrow> RunError + Filter" where
  "filter_of kit opts = map_sum (\<lambda>(pattern, e). parse_problem ''<filter>'' (''bad --filter glob '' @ tick pattern @ '': '' @ e)) id
     (filter_build (ki_glob kit) (op_filter opts))"

definition check_duplicates :: "Suite \<Rightarrow> RunError + unit" where
  "check_duplicates suite = (case find_duplicate {} (su_providers suite) of
       Some dup \<Rightarrow> Inl (parse_problem ''providers'' (''duplicate provider id '' @ tick (pcf_id dup) @ ''; ids must be unique''))
     | None \<Rightarrow> Inr ())"

definition check_timeout :: "Suite \<Rightarrow> RunError + unit" where
  "check_timeout suite = (if runner_opt suite ru_timeout_ms = Some 0
     then Inl (parse_problem ''runner.timeout_ms'' ''must be greater than 0'') else Inr ())"

definition limiter_of :: "(f64 \<Rightarrow> string) \<Rightarrow> Suite \<Rightarrow> RunError + RateLimiter option" where
  "limiter_of show_rps suite = (case runner_opt suite ru_rate_limit of
       None \<Rightarrow> Inr None
     | Some rps \<Rightarrow> (case per_second rps of
          None \<Rightarrow> Inl (parse_problem ''runner.rate_limit.rps'' (''must be a positive, finite number; got '' @ show_rps rps))
        | Some lm \<Rightarrow> Inr (Some lm)))"

definition selected_cfgs :: "Suite \<Rightarrow> RunOptions \<Rightarrow> ProviderCfg list" where
  "selected_cfgs suite opts =
     filter (\<lambda>p. forms_cells p \<and> (fo_providers (op_filter opts) = [] \<or> pcf_id p \<in> set (fo_providers (op_filter opts)))) (su_providers suite)"

definition build_selected :: "('c, 'w) kit \<Rightarrow> Suite \<Rightarrow> ProviderCfg list \<Rightarrow> RunError + 'w Provider list" where
  "build_selected kit suite cfgs =
     map_sum Factory id (collect_results (map (\<lambda>p. ki_build kit p (runner_opt suite ru_timeout_ms)) cfgs))"

text \<open>The links that are not selected themselves; one that cannot be built is left out.\<close>

definition fallback_pool :: "('c, 'w) kit \<Rightarrow> Suite \<Rightarrow> ProviderCfg list \<Rightarrow> 'w Provider list" where
  "fallback_pool kit suite chosen =
     (let wanted = filter (\<lambda>i. i \<notin> pcf_id ` set chosen) (concat (map pcf_fallback chosen))
      in List.map_filter (\<lambda>p. case ki_build kit p (runner_opt suite ru_timeout_ms) of Inr built \<Rightarrow> Some built | Inl _ \<Rightarrow> None)
           (filter (\<lambda>p. \<not> is_embeddings (pcf_kind p)) (filter (\<lambda>p. pcf_id p \<in> set wanted) (su_providers suite))))"

text \<open>A map collected from an iterator: a later entry replaces an earlier one.\<close>

definition index_by :: "('a \<Rightarrow> string) \<Rightarrow> ('a \<Rightarrow> 'b) \<Rightarrow> 'a list \<Rightarrow> string \<rightharpoonup> 'b" where
  "index_by key val xs = map_of (map (\<lambda>x. (key x, val x)) (rev xs))"

definition generated_tests ::
  "('c, 'w) kit \<Rightarrow> path \<Rightarrow> Suite \<Rightarrow> GeneratorSpec list \<Rightarrow> 'w \<Rightarrow> (RunError + TestCase list) \<times> 'w" where
  "generated_tests kit base suite generators w =
     (let (r, w) = resolve_generators (ki_loader kit) (ki_generator kit) generators [] w
      in (bind_sum (map_sum GenerateFailed id r) (\<lambda>cases.
            map_sum ResolveFailed id (resolve_references (ki_loader kit) base
              (case su_defaults suite of None \<Rightarrow> cases | Some d \<Rightarrow> apply_defaults d cases))), w))"

definition no_tests_reason :: "Suite \<Rightarrow> Expanded \<Rightarrow> EmptyRun" where
  "no_tests_reason suite out =
     (if su_tests suite = [] then NoTestSources
      else SourcesProducedNothing (map gl_spec (filter (\<lambda>g. gl_cases g = 0) (ex_globs out))) (map gn_command (ex_deferred_generators out)))"

definition cell_ctx :: "('c, 'w) kit \<Rightarrow> path \<Rightarrow> Suite \<Rightarrow> RunOptions \<Rightarrow> ('c, 'w) CellCtx" where
  "cell_ctx kit base suite opts =
     (let retry = from_suite (runner_opt suite ru_retries)
      in \<lparr>cl_env = ki_env kit, cl_files = ld_files (ki_loader kit), cl_engine = ld_engine (ki_loader kit), cl_libs = ki_libs kit,
          cl_to_value = ki_to_value kit, cl_f64_json = ki_f64_json kit, cl_cache = ki_cache kit, cl_grader = ki_grader kit,
          cl_base_dir = base, cl_cache_mode = op_cache_mode opts, cl_include_raw = op_include_raw opts,
          cl_retry_cfg = (case op_retries opts of Some n \<Rightarrow> retry\<lparr>rp_max := n\<rparr> | None \<Rightarrow> retry),
          cl_grader_cache = (op_grader_cache opts \<and> unwrap_or (Option.bind (su_cache suite) ccf_grader) True),
          cl_skip_on_empty_reason = unwrap_or (map_option ru_skip_on_empty_reason (su_runner suite)) [],
          cl_tools = su_tools suite, cl_policy = run_empty_policy kit suite opts,
          cl_fallback = fallback_resolve (runner_opt suite ru_fallback_on_empty_reason) (op_fallback opts) (op_fallback_on_empty_reason opts),
          cl_short_circuit = unwrap_or (runner_opt suite ru_short_circuit) True\<rparr>)"

definition concurrency_of :: "Suite \<Rightarrow> RunOptions \<Rightarrow> nat" where
  "concurrency_of suite opts = max (unwrap_or (or_else (op_concurrency opts) (runner_opt suite ru_concurrency)) 1) 1"

text \<open>The cells of the prepared providers and tests, or why there is nothing to run, or which credentials are missing.\<close>

definition plan_run ::
  "('c, 'w) kit \<Rightarrow> path \<Rightarrow> Suite \<Rightarrow> RunOptions \<Rightarrow> Filter \<Rightarrow> RateLimiter option \<Rightarrow> 'w Provider list \<Rightarrow> 'w Provider list \<Rightarrow> TestCase list
   \<Rightarrow> RunError + ('c, 'w) Prepared" where
  "plan_run kit base suite opts flt limiter providers pool tests =
     (let cells = plan_cells flt (index_by pcf_id pcf_fallback (su_providers suite)) (index_by pv_id id (providers @ pool)) providers
            (su_prompts suite) tests (max (op_repeat opts) 1);
          issues = preflight_check (su_providers suite) (su_grader suite) (map pv_id providers) (filter (matches_test flt) tests)
            (env_var (ld_engine (ki_loader kit)))
      in if cells = [] \<and> \<not> op_allow_empty opts
         then Inl (NothingToRun (empty_reason_of (su_providers suite) providers (op_filter opts) (su_prompts suite) tests))
         else if cells \<noteq> [] \<and> op_cache_mode opts \<noteq> ReadOnlyStrict \<and> issues \<noteq> [] then Inl (Credentials issues)
         else Inr \<lparr>pp_cells = cells, pp_ctx = cell_ctx kit base suite opts, pp_tests = tests,
                pp_concurrency = concurrency_of suite opts, pp_limiter = limiter\<rparr>)"

definition with_tests ::
  "('c, 'w) kit \<Rightarrow> path \<Rightarrow> Suite \<Rightarrow> RunOptions \<Rightarrow> Filter \<Rightarrow> RateLimiter option \<Rightarrow> 'w Provider list \<Rightarrow> 'w Provider list \<Rightarrow> Expanded \<Rightarrow> 'w
   \<Rightarrow> (RunError + ('c, 'w) Prepared) \<times> 'w" where
  "with_tests kit base suite opts flt limiter providers pool out w =
     (let (r, w) = generated_tests kit base suite (ex_deferred_generators out) w
      in (bind_sum r (\<lambda>generated.
            let tests = ex_tests out @ generated
            in if tests = [] \<and> \<not> op_allow_empty opts then Inl (NothingToRun (no_tests_reason suite out))
               else plan_run kit base suite opts flt limiter providers pool tests), w))"

text \<open>Everything before the generators, which are the first to act on the world.\<close>

definition with_providers ::
  "('c, 'w) kit \<Rightarrow> (f64 \<Rightarrow> string) \<Rightarrow> path \<Rightarrow> Suite \<Rightarrow> RunOptions
   \<Rightarrow> RunError + Filter \<times> RateLimiter option \<times> 'w Provider list \<times> 'w Provider list \<times> Expanded" where
  "with_providers kit show_rps base suite opts =
     bind_sum (filter_of kit opts) (\<lambda>flt.
     bind_sum (check_duplicates suite) (\<lambda>_.
     bind_sum (check_timeout suite) (\<lambda>_.
     bind_sum (limiter_of show_rps suite) (\<lambda>limiter.
     bind_sum (case check_provider_filter (su_providers suite) (fo_providers (op_filter opts)) of
         Some reason \<Rightarrow> Inl (NothingToRun reason) | None \<Rightarrow> Inr ()) (\<lambda>_.
     bind_sum (build_selected kit suite (selected_cfgs suite opts)) (\<lambda>providers.
     bind_sum (map_sum ResolveFailed id (expand_tests (ki_loader kit) base (su_tests suite) (su_defaults suite))) (\<lambda>out.
     Inr (flt, limiter, providers, fallback_pool kit suite (selected_cfgs suite opts), out))))))))"

definition prepare_run ::
  "('c, 'w) kit \<Rightarrow> (f64 \<Rightarrow> string) \<Rightarrow> path \<Rightarrow> Suite \<Rightarrow> RunOptions \<Rightarrow> 'w \<Rightarrow> (RunError + ('c, 'w) Prepared) \<times> 'w" where
  "prepare_run kit show_rps base suite opts w = (case with_providers kit show_rps base suite opts of
       Inl e \<Rightarrow> (Inl e, w)
     | Inr (flt, limiter, providers, pool, out) \<Rightarrow> with_tests kit base suite opts flt limiter providers pool out w)"

subsection \<open>The pool\<close>

record ('c, 'w) Pool =
  pl_waiting :: "(nat \<times> 'w Cell) list"
  pl_flying :: "(nat \<times> 'w Cell) list"
  pl_done :: "(nat \<times> CaseResult) list"
  pl_world :: "('c, 'w) World"

definition run_planned :: "('c, 'w) CellCtx \<Rightarrow> 'w Cell \<Rightarrow> ('c, 'w) World \<Rightarrow> CaseResult option \<times> ('c, 'w) World" where
  "run_planned cl c wd = run_cell cl (ce_provider c) (ce_fallbacks c) (ce_prompt c) (ce_test c) (ce_repeat c) wd"

inductive pool_step :: "('c, 'w) CellCtx \<Rightarrow> nat \<Rightarrow> ('c, 'w) Pool \<Rightarrow> ('c, 'w) Pool \<Rightarrow> bool" for cl n where
  start: "length flying < n \<Longrightarrow>
    pool_step cl n \<lparr>pl_waiting = c # waiting, pl_flying = flying, pl_done = finished, pl_world = wd\<rparr>
      \<lparr>pl_waiting = waiting, pl_flying = flying @ [c], pl_done = finished, pl_world = wd\<rparr>"
| finish: "run_planned cl c wd = (Some r, wd') \<Longrightarrow>
    pool_step cl n \<lparr>pl_waiting = waiting, pl_flying = pre @ (i, c) # post, pl_done = finished, pl_world = wd\<rparr>
      \<lparr>pl_waiting = waiting, pl_flying = pre @ post, pl_done = finished @ [(i, r)], pl_world = wd'\<rparr>"

definition start_pool :: "'w Cell list \<Rightarrow> ('c, 'w) World \<Rightarrow> ('c, 'w) Pool" where
  "start_pool cells wd = \<lparr>pl_waiting = enumerate 0 cells, pl_flying = [], pl_done = [], pl_world = wd\<rparr>"

definition start_world :: "RunOptions \<Rightarrow> RateLimiter option \<Rightarrow> 'c \<Rightarrow> 'w \<Rightarrow> ('c, 'w) World" where
  "start_world opts limiter c w =
     \<lparr>wd_cache = c, wd_state = new_run_state (if op_cache_migration opts then new_probe else disabled_probe), wd_limiter = limiter,
      wd_aborted = None, wd_world = w\<rparr>"

subsection \<open>The result\<close>

definition run_filters :: "RunOptions \<Rightarrow> FilterSpec" where
  "run_filters opts = \<lparr>fs_tags = fo_tags (op_filter opts), fs_filters = fo_filters (op_filter opts),
     fs_providers = fo_providers (op_filter opts), fs_prompts = fo_prompts (op_filter opts)\<rparr>"

definition assemble ::
  "('c, 'w) kit \<Rightarrow> Suite \<Rightarrow> RunOptions \<Rightarrow> int \<Rightarrow> TestCase list \<Rightarrow> CaseResult list \<Rightarrow> 'w \<Rightarrow> RunResult" where
  "assemble kit suite opts started tests cases w =
     (let snapshot = to_value (enc_suite (ki_encodings kit) suite);
          popts = op_provenance opts;
          popts = (if po_note popts = None then popts\<lparr>po_note := su_description suite\<rparr> else popts);
          provenance = collect (ki_machine kit) popts
      in \<lparr>rr_schema_version = RESULT_SCHEMA_VERSION, rr_run_id = ki_fresh_id kit w, rr_project = su_project suite, rr_suite = su_suite suite,
          rr_started_at = started, rr_finished_at = ki_now kit w, rr_config_digest = digest (ki_env kit) snapshot,
          rr_config_snapshot = snapshot, rr_git = col_git provenance, rr_ci = col_ci provenance, rr_origin = col_origin provenance,
          rr_digests = Some (config_digests (ki_env kit) (ki_encodings kit) suite tests), rr_share_url = None, rr_composite = None,
          rr_filters = run_filters opts, rr_cases = cases, rr_summary = summarize cases\<rparr>)"

text \<open>The runs of a suite: an error of the preparation, or the result some schedule of the pool comes to.\<close>

inductive suite_run ::
  "('c, 'w) kit \<Rightarrow> (f64 \<Rightarrow> string) \<Rightarrow> path \<Rightarrow> Suite \<Rightarrow> RunOptions \<Rightarrow> 'c \<Rightarrow> 'w \<Rightarrow> RunError + RunResult \<Rightarrow> 'w \<Rightarrow> bool"
  for kit show_rps base suite opts c w where
  refused: "prepare_run kit show_rps base suite opts w = (Inl e, w') \<Longrightarrow> suite_run kit show_rps base suite opts c w (Inl e) w'"
| finished: "prepare_run kit show_rps base suite opts w = (Inr pr, w') \<Longrightarrow>
    (pool_step (pp_ctx pr) (pp_concurrency pr))\<^sup>*\<^sup>* (start_pool (pp_cells pr) (start_world opts (pp_limiter pr) c w')) pool \<Longrightarrow>
    pl_waiting pool = [] \<Longrightarrow> pl_flying pool = [] \<Longrightarrow> fill_slots (length (pp_cells pr)) (pl_done pool) = Some cases \<Longrightarrow>
    suite_run kit show_rps base suite opts c w
      (Inr (assemble kit suite opts (ki_now kit w) (pp_tests pr) cases (wd_world (pl_world pool)))) (wd_world (pl_world pool))"

section \<open>The pool\<close>

text \<open>What holds of every reachable pool: each planned cell waits, flies or is done, under its number; at most \<open>n\<close> fly; and
  what is done reports the cell it was planned for.\<close>

definition pool_inv :: "'w Cell list \<Rightarrow> nat \<Rightarrow> ('c, 'w) Pool \<Rightarrow> bool" where
  "pool_inv cells n p \<longleftrightarrow>
     mset (map fst (pl_waiting p)) + mset (map fst (pl_flying p)) + mset (map fst (pl_done p)) = mset [0..<length cells]
   \<and> (\<forall>(i, c) \<in> set (pl_waiting p) \<union> set (pl_flying p). c = cells ! i)
   \<and> (\<forall>(i, r) \<in> set (pl_done p). ca_cell r = cell_key (cells ! i))
   \<and> length (pl_flying p) \<le> n"

definition pool_work :: "('c, 'w) Pool \<Rightarrow> nat" where
  "pool_work p = 2 * length (pl_waiting p) + length (pl_flying p)"

inductive_cases pool_stepE: "pool_step cl n p p'"

lemma run_planned_cell: "run_planned cl c wd = (Some r, wd') \<Longrightarrow> ca_cell r = cell_key c"
  using run_cell_reported [of cl "ce_provider c" "ce_fallbacks c" "ce_prompt c" "ce_test c" "ce_repeat c" wd]
  by (auto simp: run_planned_def)

lemma run_planned_total: "\<exists>r wd'. run_planned cl c wd = (Some r, wd')"
  by (simp add: run_planned_def run_cell_total)

lemma start_pool_inv: "pool_inv cells n (start_pool cells wd)"
  by (auto simp: pool_inv_def start_pool_def in_set_enumerate_eq)

lemma pool_step_inv: "pool_step cl n p p' \<Longrightarrow> pool_inv cells n p \<Longrightarrow> pool_inv cells n p'"
  by (induction rule: pool_step.induct) (auto simp: pool_inv_def dest!: run_planned_cell)

lemma pool_step_work: "pool_step cl n p p' \<Longrightarrow> pool_work p = Suc (pool_work p')"
  by (induction rule: pool_step.induct) (auto simp: pool_work_def)

lemma pool_progress:
  assumes "0 < n" and "pool_work p \<noteq> 0"
  shows "\<exists>p'. pool_step cl n p p'"
proof -
  obtain waiting flying finished wd where p: "p = \<lparr>pl_waiting = waiting, pl_flying = flying, pl_done = finished, pl_world = wd\<rparr>"
    by (cases p)
  show ?thesis
  proof (cases flying)
    case Nil
    then obtain c cs where "waiting = c # cs" using assms(2) p by (cases waiting) (auto simp: pool_work_def)
    then show ?thesis using pool_step.start [of flying n cl c cs finished wd] Nil assms(1) p by auto
  next
    case (Cons f fs)
    obtain i c where f: "f = (i, c)" by fastforce
    obtain r wd' where "run_planned cl c wd = (Some r, wd')" using run_planned_total by blast
    from pool_step.finish [OF this, of n waiting "[]" i fs finished] show ?thesis using Cons f p by auto
  qed
qed

lemma pool_steps:
  assumes "(pool_step cl n ^^ k) (start_pool cells wd) p"
  shows "pool_inv cells n p \<and> k + pool_work p = 2 * length cells"
  using assms
proof (induction k arbitrary: p)
  case 0
  then have "p = start_pool cells wd" by simp
  then show ?case using start_pool_inv [of cells n wd] by (simp add: pool_work_def) (simp add: start_pool_def)
next
  case (Suc k)
  then obtain q where q: "(pool_step cl n ^^ k) (start_pool cells wd) q" "pool_step cl n q p" by auto
  from Suc.IH [OF q(1)] show ?case using pool_step_inv [OF q(2)] pool_step_work [OF q(2)] by simp
qed

lemma fill_slots_complete:
  assumes "mset (map fst finished) = mset [0..<n]"
  shows "fill_slots n finished = Some (map (\<lambda>i. the (map_of finished i)) [0..<n])"
proof -
  let ?cs = "map (\<lambda>i. the (map_of finished i)) [0..<n]"
  have dist: "distinct (map fst finished)" using assms by (metis distinct_upt mset_eq_imp_distinct_iff)
  have keys: "fst ` set finished = {0..<n}" using mset_eq_setD [OF assms] by simp
  have "set finished = set (enumerate 0 ?cs)"
  proof (intro set_eqI iffI)
    fix x assume x: "x \<in> set finished"
    then have "map_of finished (fst x) = Some (snd x)" using dist by (simp add: map_of_eq_Some_iff)
    moreover have "fst x < n" using x keys by force
    ultimately show "x \<in> set (enumerate 0 ?cs)" by (cases x) (simp add: in_set_enumerate_eq)
  next
    fix x assume x: "x \<in> set (enumerate 0 ?cs)"
    then have lt: "fst x < n" "snd x = the (map_of finished (fst x))" by (auto simp: in_set_enumerate_eq)
    then have "fst x \<in> fst ` set finished" using keys by simp
    then obtain v where "map_of finished (fst x) = Some v" by (metis map_of_eq_None_iff option.exhaust)
    then show "x \<in> set finished" using lt dist by (cases x) simp
  qed
  moreover have "distinct finished" using dist by (simp add: distinct_map)
  moreover have "distinct (enumerate 0 ?cs)" by (rule distinct_enumerate)
  ultimately have "mset finished = mset (enumerate 0 ?cs)" by (simp add: set_eq_iff_mset_eq_distinct)
  from fill_slots_any_order [OF this] show ?thesis by simp
qed

lemma finished_pool:
  assumes "pool_inv cells n p" and "pl_waiting p = []" and "pl_flying p = []"
  shows "\<exists>cases. fill_slots (length cells) (pl_done p) = Some cases \<and> map ca_cell cases = map cell_key cells"
proof -
  have idx: "mset (map fst (pl_done p)) = mset [0..<length cells]" using assms by (simp add: pool_inv_def)
  have "ca_cell (the (map_of (pl_done p) i)) = cell_key (cells ! i)" if i: "i < length cells" for i
  proof -
    have "i \<in> fst ` set (pl_done p)" using mset_eq_setD [OF idx] i by simp
    then obtain r where "map_of (pl_done p) i = Some r" by (metis map_of_eq_None_iff option.exhaust)
    then show ?thesis using assms(1) by (auto simp: pool_inv_def dest: map_of_SomeD)
  qed
  then have "map ca_cell (map (\<lambda>i. the (map_of (pl_done p) i)) [0..<length cells]) = map cell_key cells"
    by (intro nth_equalityI) auto
  then show ?thesis using fill_slots_complete [OF idx] by blast
qed


lemma full_schedule:
  assumes "0 < n" and "k \<le> 2 * length cells"
  shows "\<exists>p. (pool_step cl n ^^ k) (start_pool cells wd) p"
  using assms(2)
proof (induction k)
  case (Suc k)
  then obtain p where p: "(pool_step cl n ^^ k) (start_pool cells wd) p" by auto
  have "pool_work p \<noteq> 0" using pool_steps [OF p] Suc.prems by simp
  then obtain q where "pool_step cl n p q" using pool_progress [OF assms(1)] by blast
  then show ?case using p by auto
qed simp


section \<open>The run\<close>

lemma prepared_plan:
  assumes "prepare_run kit show_rps base suite opts w = (Inr pr, w')"
  shows "(pp_cells pr = [] \<longrightarrow> op_allow_empty opts) \<and> pp_concurrency pr = concurrency_of suite opts \<and> pp_ctx pr = cell_ctx kit base suite opts
    \<and> (\<exists>flt limiter providers pool out. with_providers kit show_rps base suite opts = Inr (flt, limiter, providers, pool, out)
        \<and> pp_cells pr = plan_cells flt (index_by pcf_id pcf_fallback (su_providers suite)) (index_by pv_id id (providers @ pool)) providers
            (su_prompts suite) (pp_tests pr) (max (op_repeat opts) 1) \<and> pp_limiter pr = limiter
        \<and> (pp_cells pr = [] \<or> op_cache_mode opts = ReadOnlyStrict
           \<or> preflight_check (su_providers suite) (su_grader suite) (map pv_id providers) (filter (matches_test flt) (pp_tests pr))
               (env_var (ld_engine (ki_loader kit))) = []))"
proof -
  obtain flt limiter providers pool out where wp: "with_providers kit show_rps base suite opts = Inr (flt, limiter, providers, pool, out)"
      "with_tests kit base suite opts flt limiter providers pool out w = (Inr pr, w')"
    using assms by (auto simp: prepare_run_def split: sum.splits)
  obtain generated where "plan_run kit base suite opts flt limiter providers pool (ex_tests out @ generated) = Inr pr"
    using wp(2) by (auto simp: with_tests_def Let_def bind_sum_def split: prod.splits sum.splits if_splits)
  then show ?thesis using wp(1) by (auto simp: plan_run_def Let_def split: if_splits)
qed

lemma concurrency_positive: "0 < concurrency_of suite opts"
  by (simp add: concurrency_of_def)

lemma reachable_steps: "(pool_step cl n)\<^sup>*\<^sup>* s p \<longleftrightarrow> (\<exists>k. (pool_step cl n ^^ k) s p)"
  by (auto simp: rtranclp_power)

lemma pool_ends:
  assumes "0 < n"
  shows "\<exists>pool cases. (pool_step cl n)\<^sup>*\<^sup>* (start_pool cells wd) pool \<and> pl_waiting pool = [] \<and> pl_flying pool = []
    \<and> fill_slots (length cells) (pl_done pool) = Some cases"
proof -
  obtain pool where pool: "(pool_step cl n ^^ (2 * length cells)) (start_pool cells wd) pool" using full_schedule [OF assms] by blast
  note steps = pool_steps [OF pool]
  then have ended: "pl_waiting pool = []" "pl_flying pool = []" by (simp_all add: pool_work_def)
  obtain cases where "fill_slots (length cells) (pl_done pool) = Some cases" using finished_pool [OF _ ended] steps by blast
  then show ?thesis using pool ended reachable_steps by blast
qed

lemma run_outcome: "\<exists>out w'. suite_run kit show_rps base suite opts c w out w'"
proof -
  obtain r w' where pr: "prepare_run kit show_rps base suite opts w = (r, w')" by fastforce
  show ?thesis
  proof (cases r)
    case (Inl e)
    from suite_run.refused [OF pr [unfolded Inl]] show ?thesis by blast
  next
    case (Inr p)
    have "0 < pp_concurrency p" using prepared_plan [of kit show_rps base suite opts w p w'] pr Inr by (simp add: concurrency_positive)
    from pool_ends [OF this] obtain pool cases where "(pool_step (pp_ctx p) (pp_concurrency p))\<^sup>*\<^sup>* (start_pool (pp_cells p) (start_world opts (pp_limiter p) c w')) pool"
        "pl_waiting pool = []" "pl_flying pool = []" "fill_slots (length (pp_cells p)) (pl_done pool) = Some cases" by blast
    from suite_run.finished [OF pr [unfolded Inr] this] show ?thesis by blast
  qed
qed


definition demo_kit :: "(Disk, nat) kit" where
  "demo_kit = \<lparr>ki_env = demo_env, ki_loader = demo_loader, ki_libs = quiet_libs, ki_to_value = (\<lambda>_. None), ki_f64_json = (\<lambda>_. JNull),
     ki_regex = (\<lambda>_. Inl []), ki_glob = (\<lambda>_. Inl []), ki_build = (\<lambda>_ _. Inr (demo_provider (Some JNull))),
     ki_generator = (\<lambda>_ w. (Inl [], w)),
     ki_encodings = \<lparr>enc_prompts = \<lambda>_. None, enc_providers = \<lambda>_. None, enc_grader = \<lambda>_. None, enc_test = \<lambda>_. None, enc_suite = \<lambda>_. None\<rparr>,
     ki_machine = \<lparr>ma_vars = Map.empty, ma_username = None, ma_hostname = None, ma_git = \<lambda>_. None, ma_version = ''1''\<rparr>,
     ki_cache = LocalDiskCache (\<lambda>_. 1), ki_grader = None, ki_fresh_id = (\<lambda>_. ''r''), ki_now = int\<rparr>"

definition demo_suite :: Suite where
  "demo_suite = \<lparr>su_project = None, su_suite = None, su_description = None,
     su_providers = [\<lparr>pcf_id = ''p'', pcf_label = None, pcf_fallback = [], pcf_fallback_only = False, pcf_kind = KindExec [''run''] [] None None\<rparr>],
     su_prompts = [], su_tools = [], su_tests = [InlineTest demo_test], su_defaults = None, su_grader = None, su_runner = None, su_cache = None\<rparr>"

lemma demo_prepared:
  "prepare_run demo_kit show_rps base demo_suite (default_options\<lparr>op_cache_mode := mode\<rparr>) w
   = (Inr \<lparr>pp_cells = [\<lparr>ce_provider = demo_provider (Some JNull), ce_fallbacks = [], ce_prompt = None, ce_test = demo_test, ce_repeat = 0\<rparr>],
       pp_ctx = cell_ctx demo_kit base demo_suite (default_options\<lparr>op_cache_mode := mode\<rparr>), pp_tests = [demo_test], pp_concurrency = 1,
       pp_limiter = None\<rparr>, w)"
proof -
  have wp: "with_providers demo_kit show_rps base demo_suite (default_options\<lparr>op_cache_mode := mode\<rparr>)
    = Inr (\<lparr>fi_tags = [], fi_id_globs = None, fi_providers = [], fi_prompts = []\<rparr>, None, [demo_provider (Some JNull)], [],
        \<lparr>ex_tests = [demo_test], ex_deferred_generators = [], ex_globs = []\<rparr>)"
    by (simp add: with_providers_def filter_of_def filter_build_def check_duplicates_def check_timeout_def limiter_of_def runner_opt_def
        demo_suite_def demo_kit_def default_options_def check_provider_filter_def build_selected_def selected_cfgs_def forms_cells_def
        is_embeddings_def fallback_pool_def Let_def expand_tests_def expand_source_def ensure_id_def demo_test_def expand_matrix_def
        resolve_references_def resolve_file_vars_def resolve_assert_file_vals_def resolve_digest_salts_def resolve_assert_kind_def List.map_filter_simps)
  have plan: "plan_cells \<lparr>fi_tags = [], fi_id_globs = None, fi_providers = [], fi_prompts = []\<rparr> [''p'' \<mapsto> []] by_id [demo_provider (Some JNull)] [] [demo_test] 1
      = [\<lparr>ce_provider = demo_provider (Some JNull), ce_fallbacks = [], ce_prompt = None, ce_test = demo_test, ce_repeat = 0\<rparr>]" for by_id
    by (simp add: plan_cells_def prompt_slots_def slot_included_def chain_for_def matches_test_def provider_included_def test_allows_provider_def
        demo_test_def demo_provider_def resolve_chain_def then_some_def List.map_filter_simps)
  have generated: "generated_tests demo_kit base demo_suite [] w = (Inr [], w)"
    by (simp add: generated_tests_def resolve_references_def resolve_file_vars_def resolve_assert_file_vals_def
        resolve_digest_salts_def demo_suite_def)
  have issues: "preflight_check (su_providers demo_suite) (su_grader demo_suite) [''p''] [demo_test] vars = []" for vars
    by (simp add: preflight_check_def provider_credentials_def grader_credentials_def credential_at_def default_env_for_def
        test_credentials_def any_assert_def demo_test_def uses_suite_grader_def assert_credentials_def own_grader_def demo_suite_def)
  have matches: "filter (matches_test \<lparr>fi_tags = [], fi_id_globs = None, fi_providers = [], fi_prompts = []\<rparr>) [demo_test] = [demo_test]"
    by (simp add: matches_test_def)
  have ids: "pv_id (demo_provider (Some JNull)) = ''p''" by (simp add: demo_provider_def)
  have sel: "su_prompts demo_suite = []" "index_by pcf_id pcf_fallback (su_providers demo_suite) = [''p'' \<mapsto> []]"
    "concurrency_of demo_suite (default_options\<lparr>op_cache_mode := mode\<rparr>) = 1" "op_repeat (default_options\<lparr>op_cache_mode := mode\<rparr>) = 1"
    by (simp_all add: demo_suite_def index_by_def concurrency_of_def default_options_def runner_opt_def)
  have "plan_run demo_kit base demo_suite (default_options\<lparr>op_cache_mode := mode\<rparr>)
      \<lparr>fi_tags = [], fi_id_globs = None, fi_providers = [], fi_prompts = []\<rparr> None [demo_provider (Some JNull)] [] [demo_test]
    = Inr \<lparr>pp_cells = [\<lparr>ce_provider = demo_provider (Some JNull), ce_fallbacks = [], ce_prompt = None, ce_test = demo_test, ce_repeat = 0\<rparr>],
       pp_ctx = cell_ctx demo_kit base demo_suite (default_options\<lparr>op_cache_mode := mode\<rparr>), pp_tests = [demo_test], pp_concurrency = 1,
       pp_limiter = None\<rparr>"
    unfolding plan_run_def Let_def sel matches by (simp add: plan [unfolded One_nat_def] ids issues)
  then show ?thesis by (simp add: prepare_run_def wp with_tests_def generated)
qed


section \<open>A strict run is offline\<close>

definition offline_cell :: "'w Cell \<Rightarrow> bool" where
  "offline_cell c \<longleftrightarrow> pv_cacheable (ce_provider c) \<and> (\<forall>req. pv_canonical_request (ce_provider c) req \<noteq> None)"

definition replay_or_error :: "CaseResult \<Rightarrow> bool" where
  "replay_or_error r \<longleftrightarrow> ca_cached r \<or> ca_status r = Error"

lemma pool_strict:
  assumes "cache_backend (cl_cache cl) stored" and "digest_32 (cl_env cl)" and "cl_cache_mode cl = ReadOnlyStrict"
    and "\<And>g. cl_grader cl = Some g \<Longrightarrow> offline_grader g"
    and "pool_step cl n p p'" and "\<forall>(i, c) \<in> set (pl_waiting p) \<union> set (pl_flying p). offline_cell c" and "\<forall>(i, r) \<in> set (pl_done p). replay_or_error r"
  shows "(\<forall>(i, c) \<in> set (pl_waiting p') \<union> set (pl_flying p'). offline_cell c) \<and> (\<forall>(i, r) \<in> set (pl_done p'). replay_or_error r)
    \<and> wd_world (pl_world p') = wd_world (pl_world p)"
  using assms(5-7)
proof (cases rule: pool_step.cases)
  case (start flying c waiting finished wd)
  then show ?thesis using assms(6,7) by auto
next
  case (finish c wd r wd' waiting pre i post finished)
  have "offline_cell c" using assms(6) finish(1) by auto
  then have "wd_world wd' = wd_world wd \<and> (ca_cached r \<or> ca_status r = Error)"
    using strict_cell [OF assms(1-3) _ _ assms(4) finish(3) [unfolded run_planned_def]] by (auto simp: offline_cell_def)
  then show ?thesis using assms(6,7) finish(1,2) by (auto simp: replay_or_error_def)
qed

definition strict_inv :: "('c, 'w) World \<Rightarrow> ('c, 'w) Pool \<Rightarrow> bool" where
  "strict_inv wd p \<longleftrightarrow> (\<forall>(i, c) \<in> set (pl_waiting p) \<union> set (pl_flying p). offline_cell c)
     \<and> (\<forall>(i, r) \<in> set (pl_done p). replay_or_error r) \<and> wd_world (pl_world p) = wd_world wd"

lemma strict_start: "\<forall>c \<in> set cells. offline_cell c \<Longrightarrow> strict_inv wd (start_pool cells wd)"
  by (auto simp: strict_inv_def start_pool_def in_set_enumerate_eq)

lemma strict_reachable:
  assumes "cache_backend (cl_cache cl) stored" and "digest_32 (cl_env cl)" and "cl_cache_mode cl = ReadOnlyStrict"
    and "\<And>g. cl_grader cl = Some g \<Longrightarrow> offline_grader g"
    and "(pool_step cl n)\<^sup>*\<^sup>* s p" and "strict_inv wd s"
  shows "strict_inv wd p"
  using assms(5,6)
proof (induction rule: rtranclp_induct)
  case (step q r)
  note q = step.IH [OF step.prems, unfolded strict_inv_def]
  have "(\<forall>(i, c) \<in> set (pl_waiting r) \<union> set (pl_flying r). offline_cell c) \<and> (\<forall>(i, r) \<in> set (pl_done r). replay_or_error r)
      \<and> wd_world (pl_world r) = wd_world (pl_world q)"
    by (rule pool_strict [OF assms(1-3) _ step.hyps(2) conjunct1 [OF q] conjunct1 [OF conjunct2 [OF q]]]) (rule assms(4))
  then show ?case using q unfolding strict_inv_def by (elim conjE) (intro conjI; simp only:)
qed

lemma fill_slots_sub: "fill_slots n finished = Some cases \<Longrightarrow> r \<in> set cases \<Longrightarrow> \<exists>i. (i, r) \<in> set finished"
proof -
  have filled: "x \<in> (\<lambda>(_, r). Some r) ` set finished \<or> x \<in> set s"
    if "x \<in> set (fold (\<lambda>(i, r) s. s[i := Some r]) finished s)" for x :: "'a option" and s
    using that
  proof (induction finished arbitrary: s)
    case (Cons d ds)
    obtain i r where d: "d = (i, r)" by fastforce
    have "x \<in> (\<lambda>(_, r). Some r) ` set ds \<or> x \<in> set (s[i := Some r])" using Cons.prems d by (intro Cons.IH) simp
    then show ?case using set_update_subset_insert [of s i "Some r"] d by auto
  qed simp
  assume a: "fill_slots n finished = Some cases" and r: "r \<in> set cases"
  let ?slots = "fold (\<lambda>(i, r) s. s[i := Some r]) finished (replicate n None)"
  have "cases = map the ?slots" "list_all (\<lambda>s. s \<noteq> None) ?slots" using a by (auto simp: fill_slots_def Let_def split: if_splits)
  then obtain x where x: "x \<in> set ?slots" "x = Some r" using r by (auto simp: list_all_iff)
  have "x \<notin> set (replicate n None)" using x(2) by auto
  then show "\<exists>i. (i, r) \<in> set finished" using filled [OF x(1)] x(2) by auto
qed

lemma built_providers:
  assumes "with_providers kit show_rps base suite opts = Inr (flt, limiter, providers, pool, out)" and "p \<in> set providers"
  shows "\<exists>cfg t. ki_build kit cfg t = Inr p"
proof -
  have "build_selected kit suite (selected_cfgs suite opts) = Inr providers"
    using assms(1) by (auto simp: with_providers_def bind_sum_def split: sum.splits option.splits)
  then have built: "map (\<lambda>cfg. ki_build kit cfg (runner_opt suite ru_timeout_ms)) (selected_cfgs suite opts) = map Inr providers"
    by (simp add: build_selected_def map_sum_Inr collect_results_Inr)
  have "Inr p \<in> set (map Inr providers)" using assms(2) by simp
  then have "Inr p \<in> set (map (\<lambda>cfg. ki_build kit cfg (runner_opt suite ru_timeout_ms)) (selected_cfgs suite opts))" by (simp only: built)
  then show ?thesis by (auto simp: image_iff) metis
qed

text \<open>C2: A run under \<open>--cache-only\<close> is offline from the first cell to the last: whatever the schedule, the world is left as the
  preparation left it, no provider is called, and each case is a replay or an error. It holds for providers that can name
  their requests and a grader that is offline in strict mode.\<close>

theorem strict_run_is_offline:
  assumes "cache_backend (ki_cache kit) stored" and "digest_32 (ki_env kit)" and "op_cache_mode opts = ReadOnlyStrict"
    and "\<And>g. ki_grader kit = Some g \<Longrightarrow> offline_grader g"
    and "\<And>cfg t p. ki_build kit cfg t = Inr p \<Longrightarrow> pv_cacheable p \<and> (\<forall>req. pv_canonical_request p req \<noteq> None)"
    and "suite_run kit show_rps base suite opts c w (Inr result) w'"
  shows "w' = snd (prepare_run kit show_rps base suite opts w) \<and> (\<forall>r \<in> set (rr_cases result). ca_cached r \<or> ca_status r = Error)"
  using assms(6)
proof (cases rule: suite_run.cases)
  case (finished pr w1 pool cases)
  obtain flt limiter providers others out where plan: "with_providers kit show_rps base suite opts = Inr (flt, limiter, providers, others, out)"
      "pp_cells pr = plan_cells flt (index_by pcf_id pcf_fallback (su_providers suite)) (index_by pv_id id (providers @ others)) providers
        (su_prompts suite) (pp_tests pr) (max (op_repeat opts) 1)" "pp_ctx pr = cell_ctx kit base suite opts"
    using prepared_plan [OF finished(3)] by blast
  have "\<forall>cell \<in> set (pp_cells pr). offline_cell cell"
    using built_providers [OF plan(1)] assms(5) by (fastforce simp: plan(2) plan_members offline_cell_def)
  then have "strict_inv (start_world opts (pp_limiter pr) c w1) (start_pool (pp_cells pr) (start_world opts (pp_limiter pr) c w1))"
    by (rule strict_start)
  from strict_reachable [OF _ _ _ _ finished(4) this] have inv: "strict_inv (start_world opts (pp_limiter pr) c w1) pool"
    using assms(1-4) by (simp add: plan(3) cell_ctx_def Let_def)
  then have "replay_or_error r" if "r \<in> set cases" for r
    using fill_slots_sub [OF finished(7) that] by (auto simp: strict_inv_def)
  then show ?thesis using finished(1-3) inv by (auto simp: assemble_def Let_def strict_inv_def start_world_def replay_or_error_def)
qed

theorem strict_run_is_offline_witness:
  "\<exists>out w'. suite_run demo_kit (\<lambda>_. []) [] demo_suite (default_options\<lparr>op_cache_mode := ReadOnlyStrict\<rparr>) empty_disk 0 out w'
    \<and> (\<forall>result. out = Inr result \<longrightarrow> w' = 0 \<and> (\<forall>r \<in> set (rr_cases result). ca_cached r \<or> ca_status r = Error))"
proof -
  obtain out w' where run: "suite_run demo_kit (\<lambda>_. []) [] demo_suite (default_options\<lparr>op_cache_mode := ReadOnlyStrict\<rparr>) empty_disk 0 out w'"
    using run_outcome [of demo_kit "\<lambda>_. []" "[]" demo_suite "default_options\<lparr>op_cache_mode := ReadOnlyStrict\<rparr>" empty_disk 0] by blast
  have be: "cache_backend (ki_cache demo_kit) disk_stored" using disk.cache_backend_axioms by (simp add: demo_kit_def)
  have "w' = 0 \<and> (\<forall>r \<in> set (rr_cases result). ca_cached r \<or> ca_status r = Error)" if "out = Inr result" for result
    using strict_run_is_offline [OF be _ _ _ _ run [unfolded that]] demo_digest demo_prepared [of "\<lambda>_. []" "[]" ReadOnlyStrict 0]
    by (simp add: demo_kit_def demo_provider_def)
  then show ?thesis using run by blast
qed

section \<open>Digests do not see the order of the tests\<close>

lemma digest_rows_perm:
  assumes "mset rows = mset rows'" and "distinct (map fst rows)"
  shows "digest_rows rows = digest_rows rows'"
proof -
  have "sort_key fst rows = sort_key fst rows'"
  proof (rule sort_key_inj_key_eq)
    show "mset rows = mset (sort_key fst rows')" using assms(1) by simp
    show "inj_on fst (set rows)" using assms(2) by (simp add: distinct_map)
  qed simp
  then show ?thesis by (simp add: digest_rows_def)
qed

text \<open>The digests of a suite identify its tests as a set: with distinct ids, listing the tests in another order, or finding
  their files in another order, gives the same five digests, so a run is not reported as changed for it.\<close>

theorem config_digests_order_free:
  assumes "mset tests = mset tests'" and "distinct (map (\<lambda>t. unwrap_or (ts_id t) []) tests)"
  shows "config_digests env enc suite tests = config_digests env enc suite tests'"
proof -
  have keys: "fst (fst (split_test enc t)) = unwrap_or (ts_id t) []" "fst (snd (split_test enc t)) = unwrap_or (ts_id t) []" for t
    by (simp_all add: split_test_def Let_def split: prod.split)
  have "digest_rows (map (\<lambda>t. fst (split_test enc t)) tests) = digest_rows (map (\<lambda>t. fst (split_test enc t)) tests')"
    "digest_rows (map (\<lambda>t. snd (split_test enc t)) tests) = digest_rows (map (\<lambda>t. snd (split_test enc t)) tests')"
    using assms by (intro digest_rows_perm; simp add: keys comp_def)+
  then show ?thesis by (simp add: config_digests_def split_tests_def Let_def)
qed

theorem config_digests_order_free_witness:
  "\<forall>enc. config_digests demo_env enc demo_suite [demo_test, demo_test\<lparr>ts_id := Some ''u''\<rparr>]
   = config_digests demo_env enc demo_suite [demo_test\<lparr>ts_id := Some ''u''\<rparr>, demo_test]"
  by (intro allI, rule config_digests_order_free) (simp_all add: demo_test_def)

end
