(* ===== verification/ChatWire.thy ===== *)
theory ChatWire
  imports Provider
begin

text \<open>
  Rendered chat messages in the wire shapes of Anthropic and OpenAI (\<open>crates/domarinn-core/src/chat_wire.rs\<close>): the plan of
  the turns, which pairs tool results with the calls they answer, and the two encodings of a plan. Objects keep the order
  of their members.
\<close>

section \<open>Model\<close>

datatype Turn =
    Plain ChatMessage
  | Calls ChatMessage "(ToolCall \<times> string) list"
  | Results "(ChatMessage \<times> string) list"

definition synthetic_id :: "nat \<Rightarrow> nat \<Rightarrow> string" where
  "synthetic_id turn call = ''domarinn_call_'' @ show_nat turn @ ''_'' @ show_nat call"

definition is_tool :: "ChatMessage \<Rightarrow> bool" where
  "is_tool m \<longleftrightarrow> cm_role m = Tool"

definition nth_opt :: "'a list \<Rightarrow> nat \<Rightarrow> 'a option" where
  "nth_opt xs n = (if n < length xs then Some (xs ! n) else None)"

text \<open>The id of the \<open>nth\<close> result of a run that starts at message \<open>start\<close>.\<close>

definition result_id :: "nat \<Rightarrow> string list \<Rightarrow> nat \<times> ChatMessage \<Rightarrow> ChatMessage \<times> string" where
  "result_id start open_calls = (\<lambda>(nth, m). (m, unwrap_or (or_else (cm_tool_call_id m) (nth_opt open_calls nth)) (synthetic_id start nth)))"

definition call_id :: "nat \<Rightarrow> nat \<times> ToolCall \<Rightarrow> ToolCall \<times> string" where
  "call_id turn = (\<lambda>(nth, tc). (tc, unwrap_or (tc_id tc) (synthetic_id turn nth)))"

text \<open>The turns from message \<open>i\<close> on, when \<open>open_calls\<close> are the ids of the calls not yet answered.\<close>

function plan_from :: "nat \<Rightarrow> string list \<Rightarrow> ChatMessage list \<Rightarrow> Turn list" where
  "plan_from i open_calls [] = []"
| "plan_from i open_calls (m # ms) =
     (if is_tool m then
        (let run = takeWhile is_tool (m # ms)
         in Results (map (result_id i open_calls) (enumerate 0 run)) # plan_from (i + length run) [] (dropWhile is_tool (m # ms)))
      else if cm_tool_calls m = [] then Plain m # plan_from (i + 1) open_calls ms
      else (let turn_calls = map (call_id i) (enumerate 0 (cm_tool_calls m))
            in Calls m turn_calls # plan_from (i + 1) (map snd turn_calls) ms))"
  by pat_completeness auto
termination by (relation "measure (\<lambda>(_, _, ms). length ms)") (auto simp: le_imp_less_Suc length_dropWhile_le)

definition plan :: "ChatMessage list \<Rightarrow> Turn list" where
  "plan msgs = plan_from 0 [] msgs"

subsection \<open>Anthropic\<close>

definition text_block :: "string \<Rightarrow> json" where
  "text_block t = JObject [(''type'', JString ''text''), (''text'', JString t)]"

definition anthropic_block :: "ContentBlock \<Rightarrow> json" where
  "anthropic_block b = (case b of
       TextBlock t \<Rightarrow> text_block t
     | Thinking t signature \<Rightarrow> JObject ([(''type'', JString ''thinking''), (''thinking'', JString t)]
         @ opt_member ''signature'' (map_option JString signature)))"

definition anthropic_blocks :: "MessageContent \<Rightarrow> json list" where
  "anthropic_blocks content = (case content of
       MText s \<Rightarrow> if trim s = [] then [] else [text_block s]
     | Blocks blocks \<Rightarrow> map anthropic_block blocks)"

definition anthropic_content :: "MessageContent \<Rightarrow> json" where
  "anthropic_content content = (case content of MText s \<Rightarrow> JString s | Blocks _ \<Rightarrow> JArray (anthropic_blocks content))"

definition tool_use_block :: "ToolCall \<times> string \<Rightarrow> json" where
  "tool_use_block = (\<lambda>(tc, i). JObject [(''type'', JString ''tool_use''), (''id'', JString i), (''name'', JString (tc_name tc)),
     (''input'', if tc_arguments tc = JNull then JObject [] else tc_arguments tc)])"

definition tool_result_block :: "ChatMessage \<times> string \<Rightarrow> json" where
  "tool_result_block = (\<lambda>(m, i). JObject [(''type'', JString ''tool_result''), (''tool_use_id'', JString i),
     (''content'', JString (content_text (cm_content m)))])"

definition role_message :: "string \<Rightarrow> json \<Rightarrow> json" where
  "role_message role content = JObject [(''role'', JString role), (''content'', content)]"

definition anthropic_turn :: "Turn \<Rightarrow> json list" where
  "anthropic_turn t = (case t of
       Plain m \<Rightarrow> if cm_role m = System then [] else [role_message (role_as_str (cm_role m)) (anthropic_content (cm_content m))]
     | Calls m turn_calls \<Rightarrow> [role_message ''assistant'' (JArray (anthropic_blocks (cm_content m) @ map tool_use_block turn_calls))]
     | Results results \<Rightarrow> [role_message ''user'' (JArray (map tool_result_block results))])"

definition system_text :: "Turn \<Rightarrow> string option" where
  "system_text t = (case t of Plain m \<Rightarrow> then_some (cm_role m = System) (content_text (cm_content m)) | _ \<Rightarrow> None)"

definition anthropic_messages :: "ChatMessage list \<Rightarrow> string option \<times> json list" where
  "anthropic_messages msgs =
     (let system = List.map_filter system_text (plan msgs)
      in (then_some (system \<noteq> []) (join [CHR 0x0A, CHR 0x0A] system), concat (map anthropic_turn (plan msgs))))"

subsection \<open>OpenAI\<close>

definition openai_content :: "MessageContent \<Rightarrow> json" where
  "openai_content content = JString (content_text content)"

definition arguments_string :: "serde \<Rightarrow> json \<Rightarrow> string" where
  "arguments_string sd args = (if args = JNull then ''{}'' else to_string sd args)"

definition function_call :: "serde \<Rightarrow> ToolCall \<times> string \<Rightarrow> json" where
  "function_call sd = (\<lambda>(tc, i). JObject [(''id'', JString i), (''type'', JString ''function''),
     (''function'', JObject [(''name'', JString (tc_name tc)), (''arguments'', JString (arguments_string sd (tc_arguments tc)))])])"

definition assistant_calls :: "serde \<Rightarrow> ChatMessage \<Rightarrow> (ToolCall \<times> string) list \<Rightarrow> json" where
  "assistant_calls sd m turn_calls =
     (let text = content_text (cm_content m)
      in JObject [(''role'', JString ''assistant''), (''content'', if text = [] then JNull else JString text),
           (''tool_calls'', JArray (map (function_call sd) turn_calls))])"

definition tool_message :: "ChatMessage \<times> string \<Rightarrow> json" where
  "tool_message = (\<lambda>(m, i). JObject [(''role'', JString ''tool''), (''tool_call_id'', JString i),
     (''content'', JString (content_text (cm_content m)))])"

definition openai_turn :: "serde \<Rightarrow> Turn \<Rightarrow> json list" where
  "openai_turn sd t = (case t of
       Plain m \<Rightarrow> [role_message (role_as_str (cm_role m)) (openai_content (cm_content m))]
     | Calls m turn_calls \<Rightarrow> [assistant_calls sd m turn_calls]
     | Results results \<Rightarrow> map tool_message results)"

definition openai_messages :: "serde \<Rightarrow> ChatMessage list \<Rightarrow> json list" where
  "openai_messages sd msgs = concat (map (openai_turn sd) (plan msgs))"

section \<open>The plan\<close>

lemma while_append:
  assumes "rest = [] \<or> \<not> P (hd rest)"
  shows "takeWhile P (xs @ rest) = takeWhile P xs" "dropWhile P (xs @ rest) = dropWhile P xs @ rest"
proof -
  have "takeWhile P rest = []" "dropWhile P rest = rest" using assms by (cases rest; simp)+
  then show "takeWhile P (xs @ rest) = takeWhile P xs" "dropWhile P (xs @ rest) = dropWhile P xs @ rest" by (induction xs) auto
qed

lemma plan_from_split:
  assumes "rest = [] \<or> \<not> is_tool (hd rest)"
  shows "\<exists>before still_open. plan_from i open_calls (pre @ rest) = before @ plan_from (i + length pre) still_open rest"
proof (induction i open_calls pre rule: plan_from.induct)
  case (1 i open_calls)
  show ?case by (rule exI [of _ "[]"]) auto
next
  case (2 i open_calls m ms)
  show ?case
  proof (cases "is_tool m")
    case True
    have run: "takeWhile is_tool (ms @ rest) = takeWhile is_tool ms"
      "dropWhile is_tool (ms @ rest) = dropWhile is_tool ms @ rest"
      by (simp_all add: while_append [where P = is_tool and rest = rest, OF assms])
    have len: "length (takeWhile is_tool ms) + length (dropWhile is_tool ms) = length ms"
      by (metis length_append takeWhile_dropWhile_id)
    from 2(1) [OF True refl] True obtain before still_open where
      "plan_from (i + Suc (length (takeWhile is_tool ms))) [] (dropWhile is_tool ms @ rest)
       = before @ plan_from (i + Suc (length (takeWhile is_tool ms)) + length (dropWhile is_tool ms)) still_open rest"
      by auto
    moreover have "i + Suc (length (takeWhile is_tool ms)) + length (dropWhile is_tool ms) = i + length (m # ms)" using len by simp
    ultimately have "plan_from i open_calls ((m # ms) @ rest)
      = (Results (map (result_id i open_calls) (enumerate 0 (m # takeWhile is_tool ms))) # before) @ plan_from (i + length (m # ms)) still_open rest"
      using True len [symmetric] by (simp add: run Let_def add.assoc)
    then show ?thesis by blast
  next
    case False
    show ?thesis
    proof (cases "cm_tool_calls m = []")
      case True
      from 2(2) [OF False True] obtain before still_open where
        "plan_from (i + 1) open_calls (ms @ rest) = before @ plan_from (i + 1 + length ms) still_open rest" by blast
      then show ?thesis using False True by (intro exI [of _ "Plain m # before"] exI [of _ still_open]) simp
    next
      case calls: False
      from 2(3) [OF False calls refl] obtain before still_open where
        "plan_from (i + 1) (map snd (map (call_id i) (enumerate 0 (cm_tool_calls m)))) (ms @ rest)
         = before @ plan_from (i + 1 + length ms) still_open rest" by blast
      then show ?thesis using False calls
        by (intro exI [of _ "Calls m (map (call_id i) (enumerate 0 (cm_tool_calls m))) # before"] exI [of _ still_open]) (simp add: Let_def)
    qed
  qed
qed

lemma plan_exchange:
  assumes "\<not> is_tool m" and "cm_tool_calls m \<noteq> []" and "results \<noteq> []" and "list_all is_tool results" and "rest = [] \<or> \<not> is_tool (hd rest)"
  shows "\<exists>before after. plan (pre @ m # results @ rest) = before
    @ [Calls m (map (call_id (length pre)) (enumerate 0 (cm_tool_calls m))),
       Results (map (result_id (Suc (length pre)) (map snd (map (call_id (length pre)) (enumerate 0 (cm_tool_calls m))))) (enumerate 0 results))]
    @ after"
proof -
  obtain before still_open where split: "plan (pre @ m # results @ rest) = before @ plan_from (length pre) still_open (m # results @ rest)"
    using plan_from_split [of "m # results @ rest" 0 "[]" pre] assms(1) by (auto simp: plan_def)
  obtain t ts where results: "results = t # ts" using assms(3) by (cases results) auto
  have run: "takeWhile is_tool (results @ rest) = results" "dropWhile is_tool (results @ rest) = rest"
    using while_append [where P = is_tool and rest = rest and xs = results, OF assms(5)] assms(4)
    by (auto simp: list_all_iff takeWhile_eq_all_conv [THEN iffD2] dropWhile_eq_Nil_conv [THEN iffD2])
  have "plan_from (Suc (length pre)) ids (results @ rest)
      = Results (map (result_id (Suc (length pre)) ids) (enumerate 0 results)) # plan_from (Suc (length pre) + length results) [] rest" for ids
    using run assms(4) by (simp add: results Let_def)
  then show ?thesis unfolding split using assms(1,2) by (intro exI [of _ before] exI [of _ "plan_from (Suc (length pre + length results)) [] rest"]) (simp add: Let_def)
qed

section \<open>Synthetic ids\<close>

lemma show_nat_chars: "c \<in> set (show_nat n) \<Longrightarrow> of_char c \<le> (57 :: nat)"
proof (induction n rule: show_nat.induct)
  case (1 n)
  then show ?case by (subst (asm) show_nat.simps) (auto split: if_splits)
qed

definition read_nat :: "string \<Rightarrow> nat" where
  "read_nat s = fold (\<lambda>c n. 10 * n + (of_char c - 48)) s 0"

lemma read_show: "read_nat (show_nat n) = n"
proof (induction n rule: show_nat.induct)
  case (1 n)
  then show ?case by (subst show_nat.simps) (auto simp: read_nat_def)
qed

lemma synthetic_id_inj: "synthetic_id i k = synthetic_id i' k' \<longleftrightarrow> i = i' \<and> k = k'"
proof
  assume "synthetic_id i k = synthetic_id i' k'"
  then have eq: "show_nat i @ CHR ''_'' # show_nat k = show_nat i' @ CHR ''_'' # show_nat k'" by (simp add: synthetic_id_def)
  have plain: "c \<noteq> CHR ''_''" if "c \<in> set (show_nat n)" for c n using show_nat_chars [OF that] by auto
  have "takeWhile (\<lambda>c. c \<noteq> CHR ''_'') (show_nat n @ CHR ''_'' # s) = show_nat n" for n s
    by (subst takeWhile_append2) (auto dest: plain)
  with arg_cong [OF eq, of "takeWhile (\<lambda>c. c \<noteq> CHR ''_'')"] have "show_nat i = show_nat i'" by simp
  with eq have "read_nat (show_nat i) = read_nat (show_nat i')" "read_nat (show_nat k) = read_nat (show_nat k')" by auto
  then show "i = i' \<and> k = k'" by (simp add: read_show)
qed simp

definition ids_of :: "nat \<Rightarrow> ToolCall list \<Rightarrow> string list" where
  "ids_of turn turn_calls = map (\<lambda>(nth, tc). unwrap_or (tc_id tc) (synthetic_id turn nth)) (enumerate 0 turn_calls)"

lemma ids_of_length [simp]: "length (ids_of turn cs) = length cs"
  by (simp add: ids_of_def)

lemma ids_of_nth [simp]: "n < length cs \<Longrightarrow> ids_of turn cs ! n = unwrap_or (tc_id (cs ! n)) (synthetic_id turn n)"
  by (simp add: ids_of_def nth_enumerate_eq)

lemma call_id_zip: "map (call_id turn) (enumerate 0 cs) = zip cs (ids_of turn cs)"
  by (rule nth_equalityI) (simp_all add: call_id_def nth_enumerate_eq)

lemma result_id_zip:
  assumes "length results \<le> length ids" and "list_all (\<lambda>r. cm_tool_call_id r = None) results"
  shows "map (result_id start ids) (enumerate 0 results) = zip results ids"
  using assms by (intro nth_equalityI) (auto simp: result_id_def nth_enumerate_eq nth_opt_def list_all_length)

lemma ids_of_distinct: "list_all (\<lambda>c. tc_id c = None) cs \<Longrightarrow> distinct (ids_of turn cs)"
  by (simp add: distinct_conv_nth list_all_length synthetic_id_inj)

text \<open>C18: Every tool result is sent under the id of the call it answers. Where a message with calls is followed by results that name
  no call, the k-th result carries, on both wires, the id of the k-th call; an id the model gave is kept, and calls without
  one get ids that differ.\<close>

theorem results_answer_their_calls:
  assumes "cm_role m \<noteq> Tool" and "cm_tool_calls m \<noteq> []" and "results \<noteq> []"
    and "list_all (\<lambda>r. cm_role r = Tool \<and> cm_tool_call_id r = None) results" and "length results \<le> length (cm_tool_calls m)"
    and "rest = [] \<or> cm_role (hd rest) \<noteq> Tool"
  shows "\<exists>ids. length ids = length (cm_tool_calls m)
    \<and> (\<forall>k < length ids. \<forall>i. tc_id (cm_tool_calls m ! k) = Some i \<longrightarrow> ids ! k = i)
    \<and> (list_all (\<lambda>c. tc_id c = None) (cm_tool_calls m) \<longrightarrow> distinct ids)
    \<and> (\<exists>before after. openai_messages sd (pre @ m # results @ rest)
        = before @ assistant_calls sd m (zip (cm_tool_calls m) ids) # map tool_message (zip results ids) @ after)
    \<and> (\<exists>before after. snd (anthropic_messages (pre @ m # results @ rest))
        = before @ [role_message ''assistant'' (JArray (anthropic_blocks (cm_content m) @ map tool_use_block (zip (cm_tool_calls m) ids))),
                    role_message ''user'' (JArray (map tool_result_block (zip results ids)))] @ after)"
proof -
  define ids where "ids = ids_of (length pre) (cm_tool_calls m)"
  have all: "list_all is_tool results" "list_all (\<lambda>r. cm_tool_call_id r = None) results"
    using assms(4) by (auto simp: list_all_iff is_tool_def)
  have ids: "map snd (map (call_id (length pre)) (enumerate 0 (cm_tool_calls m))) = ids" by (simp only: call_id_zip) (simp add: ids_def)
  have answered: "map (result_id (Suc (length pre)) ids) (enumerate 0 results) = zip results ids"
    using assms(5) by (intro result_id_zip [OF _ all(2)]) (simp add: ids_def)
  obtain before after where plan: "plan (pre @ m # results @ rest)
      = before @ [Calls m (zip (cm_tool_calls m) ids), Results (zip results ids)] @ after"
    using plan_exchange [of m results rest pre, unfolded ids answered] assms(1,2,3,6) all(1)
    unfolding call_id_zip ids_def [symmetric] is_tool_def by blast
  have "\<exists>before after. openai_messages sd (pre @ m # results @ rest)
        = before @ assistant_calls sd m (zip (cm_tool_calls m) ids) # map tool_message (zip results ids) @ after"
    by (intro exI [of _ "concat (map (openai_turn sd) before)"] exI [of _ "concat (map (openai_turn sd) after)"])
      (simp add: openai_messages_def plan openai_turn_def)
  moreover have "\<exists>before after. snd (anthropic_messages (pre @ m # results @ rest))
        = before @ [role_message ''assistant'' (JArray (anthropic_blocks (cm_content m) @ map tool_use_block (zip (cm_tool_calls m) ids))),
                    role_message ''user'' (JArray (map tool_result_block (zip results ids)))] @ after"
    by (intro exI [of _ "concat (map anthropic_turn before)"] exI [of _ "concat (map anthropic_turn after)"])
      (simp add: anthropic_messages_def plan anthropic_turn_def Let_def)
  ultimately show ?thesis
    by (intro exI [of _ ids] conjI) (auto simp: ids_def ids_of_distinct)
qed

definition demo_caller :: ChatMessage where
  "demo_caller = \<lparr>cm_role = Assistant, cm_content = MText [], cm_tool_calls = [\<lparr>tc_id = Some ''a'', tc_name = ''f'', tc_arguments = JNull\<rparr>,
     \<lparr>tc_id = None, tc_name = ''g'', tc_arguments = JNull\<rparr>], cm_tool_call_id = None\<rparr>"

definition demo_result :: ChatMessage where
  "demo_result = \<lparr>cm_role = Tool, cm_content = MText ''ok'', cm_tool_calls = [], cm_tool_call_id = None\<rparr>"

theorem results_answer_their_calls_witness:
  "\<exists>ids before after. ids ! 0 = ''a'' \<and> snd (anthropic_messages ([] @ demo_caller # [demo_result] @ []))
      = before @ [role_message ''assistant'' (JArray (anthropic_blocks (cm_content demo_caller)
                    @ map tool_use_block (zip (cm_tool_calls demo_caller) ids))),
                  role_message ''user'' (JArray (map tool_result_block (zip [demo_result] ids)))] @ after"
proof -
  have hyps: "cm_role demo_caller \<noteq> Tool" "cm_tool_calls demo_caller \<noteq> []" "[demo_result] \<noteq> []"
    "list_all (\<lambda>r. cm_role r = Tool \<and> cm_tool_call_id r = None) [demo_result]" "length [demo_result] \<le> length (cm_tool_calls demo_caller)"
    "([] :: ChatMessage list) = [] \<or> cm_role (hd []) \<noteq> Tool"
    by (simp_all add: demo_caller_def demo_result_def)
  have "tc_id (cm_tool_calls demo_caller ! 0) = Some ''a''" "0 < length (cm_tool_calls demo_caller)" by (simp_all add: demo_caller_def)
  with results_answer_their_calls [OF hyps, of undefined "[]"] show ?thesis by metis
qed

end
