(* ===== verification/Vendors.thy ===== *)
theory Vendors
  imports ChatWire Requests
begin

text \<open>
  The providers for the Anthropic Messages API and for OpenAI-compatible chat completions
  (\<open>crates/domarinn-core/src/anthropic.rs\<close> and \<open>openai.rs\<close>): the body of a request, the call over HTTP, what of it enters
  the cache key, and the reading of a response. The HTTP client acts on the world; a call that panics is \<open>None\<close>.
\<close>

section \<open>Model\<close>

subsection \<open>The HTTP client\<close>

record HttpRequest =
  hr_url :: string
  hr_headers :: "(string \<times> string) list"
  hr_body :: json

text \<open>A reply with its body read as text (\<open>None\<close> when reading fails) and as JSON.\<close>

record HttpReply =
  hp_status :: nat
  hp_retry_after :: "string option"
  hp_text :: "string option"
  hp_json :: "TransportError + json"

record 'w http =
  ht_send :: "HttpRequest \<Rightarrow> 'w \<Rightarrow> (TransportError + HttpReply) \<times> 'w"
  ht_parse_u64 :: "string \<Rightarrow> u64 option"
  ht_parse_date :: "string \<Rightarrow> int option"
  ht_now :: "'w \<Rightarrow> int"

text \<open>Sending a request and reading its reply, as both calls do.\<close>

definition send_json ::
  "'w http \<Rightarrow> HttpRequest \<Rightarrow> (json \<Rightarrow> ProviderError + ProviderResponse) \<Rightarrow> 'w \<Rightarrow> (ProviderError + ProviderResponse) option \<times> 'w" where
  "send_json ht request parse w =
     (let (sent, w) = ht_send ht request w
      in (case sent of
            Inl e \<Rightarrow> Some (Inl (transport_error e))
          | Inr reply \<Rightarrow>
              if \<not> (200 \<le> hp_status reply \<and> hp_status reply \<le> 299) then
                map_option Inl (status_error (hp_status reply)
                  (parse_retry_after (ht_parse_u64 ht) (ht_parse_date ht) (ht_now ht w) (hp_retry_after reply)) (unwrap_or (hp_text reply) []))
              else (case hp_json reply of Inl e \<Rightarrow> Some (Inl (transport_error e)) | Inr payload \<Rightarrow> Some (parse payload)), w))"

subsection \<open>The provider\<close>

text \<open>\<open>AnthropicProvider\<close> and \<open>OpenAiProvider\<close> have the same fields.\<close>

record VendorProvider =
  vp_id :: string
  vp_model :: string
  vp_base_url :: string
  vp_api_key_env :: EnvNames
  vp_params :: ParamMap
  vp_rate :: "ModelRate option"
  vp_request :: ResolvedRequest
  vp_cache_salt :: "string option"

definition ANTHROPIC_BASE_URL :: string where "ANTHROPIC_BASE_URL = ''https://api.anthropic.com''"
definition ANTHROPIC_PATH :: string where "ANTHROPIC_PATH = ''/v1/messages''"
definition ANTHROPIC_VERSION :: string where "ANTHROPIC_VERSION = ''2023-06-01''"
definition DEFAULT_MAX_TOKENS :: u64 where "DEFAULT_MAX_TOKENS = 4096"
definition OPENAI_BASE_URL :: string where "OPENAI_BASE_URL = ''https://api.openai.com/v1''"
definition OPENAI_PATH :: string where "OPENAI_PATH = ''/chat/completions''"

definition anthropic_new ::
  "RateTable \<Rightarrow> string \<Rightarrow> string \<Rightarrow> string option \<Rightarrow> EnvNames option \<Rightarrow> ParamMap option \<Rightarrow> PricingCfg option \<Rightarrow> VendorProvider" where
  "anthropic_new tbl pid model base_url api_key_env params pricing =
     \<lparr>vp_id = pid, vp_model = model, vp_base_url = unwrap_or base_url ANTHROPIC_BASE_URL,
      vp_api_key_env = unwrap_or api_key_env (One ''ANTHROPIC_API_KEY''), vp_params = unwrap_or params [],
      vp_rate = snd (resolve_rate tbl model pricing), vp_request = vendor_default ANTHROPIC_PATH ApiKey, vp_cache_salt = None\<rparr>"

definition openai_new ::
  "RateTable \<Rightarrow> string \<Rightarrow> string \<Rightarrow> string option \<Rightarrow> EnvNames option \<Rightarrow> ParamMap option \<Rightarrow> PricingCfg option \<Rightarrow> VendorProvider" where
  "openai_new tbl pid model base_url api_key_env params pricing =
     \<lparr>vp_id = pid, vp_model = model, vp_base_url = unwrap_or base_url OPENAI_BASE_URL,
      vp_api_key_env = unwrap_or api_key_env (One ''OPENAI_API_KEY''), vp_params = unwrap_or params [],
      vp_rate = snd (resolve_rate tbl model pricing), vp_request = vendor_default OPENAI_PATH Bearer, vp_cache_salt = None\<rparr>"

definition anthropic_with_request ::
  "hashing \<Rightarrow> (string \<Rightarrow> string) \<Rightarrow> (string \<Rightarrow> string + json) \<Rightarrow> engine \<Rightarrow> RequestCfg option \<Rightarrow> string option \<Rightarrow> VendorProvider
   \<Rightarrow> RequestError + VendorProvider" where
  "anthropic_with_request h blake3 parse en cfg salt p =
     bind_sum (resolve_request h blake3 parse en cfg ANTHROPIC_PATH ApiKey) (\<lambda>r. Inr (p\<lparr>vp_request := r, vp_cache_salt := salt\<rparr>))"

definition openai_with_request ::
  "hashing \<Rightarrow> (string \<Rightarrow> string) \<Rightarrow> (string \<Rightarrow> string + json) \<Rightarrow> engine \<Rightarrow> RequestCfg option \<Rightarrow> string option \<Rightarrow> VendorProvider
   \<Rightarrow> RequestError + VendorProvider" where
  "openai_with_request h blake3 parse en cfg salt p =
     bind_sum (resolve_request h blake3 parse en cfg OPENAI_PATH Bearer) (\<lambda>r. Inr (p\<lparr>vp_request := r, vp_cache_salt := salt\<rparr>))"

definition vendor_endpoint :: "VendorProvider \<Rightarrow> string" where
  "vendor_endpoint p = trim_end_slashes (vp_base_url p) @ rn_path (rr_wire (vp_request p))"

definition redacted_endpoint :: "VendorProvider \<Rightarrow> string" where
  "redacted_endpoint p = trim_end_slashes (vp_base_url p) @ rn_path (rr_keyed (vp_request p))"

definition http_request_preview :: "string \<Rightarrow> string \<Rightarrow> json \<Rightarrow> json" where
  "http_request_preview verb url body =
     JObject [(''transport'', JString ''http''), (''method'', JString verb), (''url'', JString url), (''body'', body)]"

definition vendor_fingerprint :: "string \<Rightarrow> VendorProvider \<Rightarrow> json" where
  "vendor_fingerprint kind p = JObject [(''type'', JString kind), (''model'', JString (vp_model p)), (''base_url'', JString (vp_base_url p)),
     (''params'', JObject (vp_params p))]"

subsection \<open>Bodies\<close>

definition insert_param :: "string \<times> json \<Rightarrow> (string \<times> json) list \<Rightarrow> (string \<times> json) list" where
  "insert_param = (\<lambda>(k, v). members_insert k v)"

definition user_text :: "string \<Rightarrow> json" where
  "user_text text = role_message ''user'' (JString text)"

definition anthropic_to_messages :: "RenderedPrompt \<Rightarrow> string option \<times> json list" where
  "anthropic_to_messages prompt = (case prompt of PromptText text \<Rightarrow> (None, [user_text text]) | PromptMessages msgs \<Rightarrow> anthropic_messages msgs)"

definition openai_to_messages :: "serde \<Rightarrow> RenderedPrompt \<Rightarrow> json list" where
  "openai_to_messages sd prompt = (case prompt of PromptText text \<Rightarrow> [user_text text] | PromptMessages msgs \<Rightarrow> openai_messages sd msgs)"

definition tool_schema :: "ToolDef \<Rightarrow> json" where
  "tool_schema t = unwrap_or (td_input_schema t) (JObject [(''type'', JString ''object'')])"

definition anthropic_tool :: "ToolDef \<Rightarrow> json" where
  "anthropic_tool t = JObject [(''name'', JString (td_name t)), (''description'', JString (unwrap_or (td_description t) [])),
     (''input_schema'', tool_schema t)]"

definition openai_tool :: "ToolDef \<Rightarrow> json" where
  "openai_tool t = JObject [(''type'', JString ''function''), (''function'', JObject [(''name'', JString (td_name t)),
     (''description'', JString (unwrap_or (td_description t) [])), (''parameters'', tool_schema t)])]"

definition anthropic_body :: "VendorProvider \<Rightarrow> RenderedPrompt \<Rightarrow> ToolDef list \<Rightarrow> json" where
  "anthropic_body p prompt tools =
     (let (system, messages) = anthropic_to_messages prompt;
          body = fold insert_param (vp_params p) [];
          body = members_insert ''messages'' (JArray messages) (members_insert ''model'' (JString (vp_model p)) body);
          body = (case system of Some s \<Rightarrow> members_insert ''system'' (JString s) body | None \<Rightarrow> body);
          body = (if map_of body ''max_tokens'' = None then members_insert ''max_tokens'' (JNumber (PosInt DEFAULT_MAX_TOKENS)) body else body);
          body = (if tools \<noteq> [] then members_insert ''tools'' (JArray (map anthropic_tool tools)) body else body)
      in JObject body)"

definition openai_body :: "serde \<Rightarrow> VendorProvider \<Rightarrow> RenderedPrompt \<Rightarrow> ToolDef list \<Rightarrow> json" where
  "openai_body sd p prompt tools =
     (let body = fold insert_param (vp_params p) [];
          body = members_insert ''messages'' (JArray (openai_to_messages sd prompt)) (members_insert ''model'' (JString (vp_model p)) body);
          body = (if tools \<noteq> [] then members_insert ''tools'' (JArray (map openai_tool tools)) body else body)
      in JObject body)"

subsection \<open>Responses\<close>

definition as_u64 :: "json \<Rightarrow> u64 option" where
  "as_u64 v = (case v of JNumber (PosInt n) \<Rightarrow> Some n | _ \<Rightarrow> None)"

definition as_array :: "json \<Rightarrow> json list option" where
  "as_array v = (case v of JArray vs \<Rightarrow> Some vs | _ \<Rightarrow> None)"

abbreviation get_str :: "json \<Rightarrow> string \<Rightarrow> string option" where
  "get_str v k \<equiv> Option.bind (json_get v k) as_str"

abbreviation get_u64 :: "json \<Rightarrow> string \<Rightarrow> u64 option" where
  "get_u64 v k \<equiv> Option.bind (json_get v k) as_u64"

definition is_block :: "string \<Rightarrow> json \<Rightarrow> bool" where
  "is_block kind b \<longleftrightarrow> get_str b ''type'' = Some kind"

definition join_blocks :: "json list \<Rightarrow> string \<Rightarrow> string" where
  "join_blocks blocks kind = concat (List.map_filter (\<lambda>b. get_str b kind) (filter (is_block kind) blocks))"

definition has_block :: "json list \<Rightarrow> string \<Rightarrow> bool" where
  "has_block blocks kind = list_ex (is_block kind) blocks"

definition tool_call_of_block :: "json \<Rightarrow> ToolCall option" where
  "tool_call_of_block b = map_option (\<lambda>name. \<lparr>tc_id = get_str b ''id'', tc_name = name, tc_arguments = unwrap_or (json_get b ''input'') JNull\<rparr>)
     (get_str b ''name'')"

definition tool_calls_from_blocks :: "json list \<Rightarrow> ToolCall list" where
  "tool_calls_from_blocks blocks = List.map_filter tool_call_of_block (filter (is_block ''tool_use'') blocks)"

definition anthropic_usage :: "json \<Rightarrow> TokenUsage option" where
  "anthropic_usage payload = map_option (\<lambda>u.
     \<lparr>input_tokens = unwrap_or (get_u64 u ''input_tokens'') 0, output_tokens = unwrap_or (get_u64 u ''output_tokens'') 0,
      cache_read_tokens = get_u64 u ''cache_read_input_tokens'', cache_write_tokens = get_u64 u ''cache_creation_input_tokens'',
      cache_write_1h_tokens = Option.bind (json_get u ''cache_creation'') (\<lambda>c. get_u64 c ''ephemeral_1h_input_tokens'')\<rparr>)
     (json_get payload ''usage'')"

definition priced :: "ModelRate option \<Rightarrow> TokenUsage option \<Rightarrow> f64 option" where
  "priced rate usage = map_option to_usd (Option.bind rate (\<lambda>r. Option.bind usage (\<lambda>u. cost_of u r)))"

definition not_blank :: "string \<Rightarrow> string option" where
  "not_blank s = then_some (trim s \<noteq> []) s"

definition anthropic_empty_reason :: "json list option \<Rightarrow> string \<Rightarrow> string option \<Rightarrow> bool \<Rightarrow> EmptyReason option" where
  "anthropic_empty_reason blocks text stop_reason thought =
     (if trim text = [] then
        (let candidates = (case Option.bind stop_reason from_stop_reason of Some r \<Rightarrow> [r] | None \<Rightarrow> [])
               @ (case blocks of
                    None \<Rightarrow> [NO_CONTENT_BLOCKS]
                  | Some b \<Rightarrow> if b = [] then [NO_CONTENT_BLOCKS]
                      else (if has_block b ''tool_use'' then [TOOL_USE_ONLY] else []) @ (if thought then [THINKING_ONLY] else []))
               @ [BLANK]
         in empty_most_specific candidates)
      else None)"

definition parse_messages_response :: "ModelRate option \<Rightarrow> json \<Rightarrow> ProviderError + ProviderResponse" where
  "parse_messages_response rate payload =
     (let blocks = Option.bind (json_get payload ''content'') as_array;
          text = (case blocks of Some b \<Rightarrow> join_blocks b ''text'' | None \<Rightarrow> []);
          reasoning = Option.bind blocks (\<lambda>b. not_blank (join_blocks b ''thinking''));
          redacted = (case blocks of Some b \<Rightarrow> has_block b ''redacted_thinking'' | None \<Rightarrow> False);
          stop_reason = get_str payload ''stop_reason'';
          usage = anthropic_usage payload
      in Inr \<lparr>pr_output = Text text, pr_usage = usage, pr_cost_usd = priced rate usage, pr_stop_reason = stop_reason, pr_raw = Some payload,
           pr_tool_calls = (case blocks of Some b \<Rightarrow> tool_calls_from_blocks b | None \<Rightarrow> []), pr_reasoning = reasoning,
           pr_empty_reason = anthropic_empty_reason blocks text stop_reason (reasoning \<noteq> None \<or> redacted),
           pr_model = get_str payload ''model''\<rparr>)"

definition openai_call_of :: "serde \<Rightarrow> json \<Rightarrow> ToolCall option" where
  "openai_call_of sd c = Option.bind (json_get c ''function'') (\<lambda>f.
     let raw = json_get f ''arguments'';
         arguments = (case Option.bind raw as_str of
             Some text \<Rightarrow> unwrap_or (from_str sd text) (JString text)
           | None \<Rightarrow> unwrap_or raw JNull)
     in map_option (\<lambda>name. \<lparr>tc_id = get_str c ''id'', tc_name = name, tc_arguments = arguments\<rparr>) (get_str f ''name''))"

definition tool_calls_from_message :: "serde \<Rightarrow> json \<Rightarrow> ToolCall list" where
  "tool_calls_from_message sd message = (case Option.bind (json_get message ''tool_calls'') as_array of
       None \<Rightarrow> [] | Some cs \<Rightarrow> List.map_filter (openai_call_of sd) cs)"

definition REASONING_FIELDS :: "string list" where
  "REASONING_FIELDS = [''reasoning'', ''reasoning_content'']"

definition openai_usage :: "json \<Rightarrow> TokenUsage option" where
  "openai_usage payload = map_option (\<lambda>u.
     let prompt_tokens = unwrap_or (get_u64 u ''prompt_tokens'') 0;
         cached = Option.bind (json_get u ''prompt_tokens_details'') (\<lambda>d. get_u64 d ''cached_tokens'')
     in \<lparr>input_tokens = prompt_tokens - unwrap_or cached 0, output_tokens = unwrap_or (get_u64 u ''completion_tokens'') 0,
         cache_read_tokens = cached, cache_write_tokens = None, cache_write_1h_tokens = None\<rparr>)
     (json_get payload ''usage'')"

definition first_choice :: "json \<Rightarrow> json option" where
  "first_choice payload = Option.bind (Option.bind (json_get payload ''choices'') as_array) first_opt"

definition openai_empty_reason :: "string \<Rightarrow> string option \<Rightarrow> bool \<Rightarrow> bool \<Rightarrow> EmptyReason option" where
  "openai_empty_reason text finish_reason has_message reasoned =
     (if trim text = [] then empty_most_specific
        ((case Option.bind finish_reason from_stop_reason of Some r \<Rightarrow> [r] | None \<Rightarrow> [])
         @ (if \<not> has_message then [NO_CONTENT_BLOCKS] else if reasoned then [THINKING_ONLY] else []) @ [BLANK])
      else None)"

definition mark_source :: "json \<Rightarrow> json" where
  "mark_source raw = (case raw of JObject ms \<Rightarrow> JObject (members_insert ''domarinn_output_source'' (JString ''reasoning'') ms) | _ \<Rightarrow> raw)"

definition parse_completion_response :: "serde \<Rightarrow> ModelRate option \<Rightarrow> json \<Rightarrow> ProviderError + ProviderResponse" where
  "parse_completion_response sd rate payload =
     (let choice = first_choice payload;
          message = Option.bind choice (\<lambda>c. json_get c ''message'');
          content = Option.bind (Option.bind message (\<lambda>m. get_str m ''content'')) not_blank;
          reasoning = Option.bind message (\<lambda>m. Option.bind (Option.bind (find_map (json_get m) REASONING_FIELDS) as_str) not_blank);
          text = unwrap_or (or_else content reasoning) [];
          finish_reason = Option.bind choice (\<lambda>c. get_str c ''finish_reason'');
          usage = openai_usage payload;
          raw = (if content = None \<and> reasoning \<noteq> None then mark_source payload else payload)
      in Inr \<lparr>pr_output = Text text, pr_usage = usage, pr_cost_usd = priced rate usage, pr_stop_reason = finish_reason, pr_raw = Some raw,
           pr_tool_calls = (case message of Some m \<Rightarrow> tool_calls_from_message sd m | None \<Rightarrow> []), pr_reasoning = reasoning,
           pr_empty_reason = openai_empty_reason text finish_reason (message \<noteq> None) (reasoning \<noteq> None),
           pr_model = get_str payload ''model''\<rparr>)"

subsection \<open>Calls and keys\<close>

definition needs_prompt :: "string \<Rightarrow> ProviderError" where
  "needs_prompt vendor = Fatal (vendor @ '' provider requires a prompt'') PROVIDER_REQUEST None"

definition call_key :: "engine \<Rightarrow> VendorProvider \<Rightarrow> ProviderError + string option" where
  "call_key en p = (if needs_credential (rr_auth (vp_request p)) then map_sum id Some (api_key en (vp_api_key_env p)) else Inr None)"

definition vendor_request :: "VendorProvider \<Rightarrow> (string \<times> string) list \<Rightarrow> string option \<Rightarrow> json \<Rightarrow> HttpRequest" where
  "vendor_request p defaults key body =
     \<lparr>hr_url = vendor_endpoint p, hr_headers = call_headers (vp_request p) defaults key, hr_body = apply_body (vp_request p) body\<rparr>"

definition anthropic_call ::
  "'w http \<Rightarrow> engine \<Rightarrow> VendorProvider \<Rightarrow> ProviderRequest \<Rightarrow> 'w \<Rightarrow> (ProviderError + ProviderResponse) option \<times> 'w" where
  "anthropic_call ht en p req w = (case rq_prompt req of
       None \<Rightarrow> (Some (Inl (needs_prompt ''anthropic'')), w)
     | Some prompt \<Rightarrow> (case call_key en p of
         Inl e \<Rightarrow> (Some (Inl e), w)
       | Inr key \<Rightarrow> send_json ht (vendor_request p [(''anthropic-version'', ANTHROPIC_VERSION)] key (anthropic_body p prompt (rq_tools req)))
           (parse_messages_response (vp_rate p)) w))"

definition openai_call ::
  "'w http \<Rightarrow> serde \<Rightarrow> engine \<Rightarrow> VendorProvider \<Rightarrow> ProviderRequest \<Rightarrow> 'w \<Rightarrow> (ProviderError + ProviderResponse) option \<times> 'w" where
  "openai_call ht sd en p req w = (case rq_prompt req of
       None \<Rightarrow> (Some (Inl (needs_prompt ''openai'')), w)
     | Some prompt \<Rightarrow> (case call_key en p of
         Inl e \<Rightarrow> (Some (Inl e), w)
       | Inr key \<Rightarrow> send_json ht (vendor_request p [] key (openai_body sd p prompt (rq_tools req)))
           (parse_completion_response sd (vp_rate p)) w))"

definition with_digest :: "string option \<Rightarrow> (string \<times> json) list \<Rightarrow> (string \<times> json) list" where
  "with_digest digest members = (case digest of Some d \<Rightarrow> members_insert ''headers_digest'' (JString d) members | None \<Rightarrow> members)"

definition canonical_members :: "VendorProvider \<Rightarrow> json \<Rightarrow> (string \<times> json) list" where
  "canonical_members p body = (case http_canonical_request ''POST'' (rn_path (rr_keyed (vp_request p))) (apply_keyed_body (vp_request p) body) of
       JObject ms \<Rightarrow> ms | _ \<Rightarrow> [])"

definition anthropic_canonical :: "VendorProvider \<Rightarrow> ProviderRequest \<Rightarrow> json option" where
  "anthropic_canonical p req = map_option (\<lambda>prompt. JObject (with_digest (rr_headers_digest (vp_request p))
     (members_insert ''headers'' (JObject [(''anthropic-version'', JString ANTHROPIC_VERSION)])
       (canonical_members p (anthropic_body p prompt (rq_tools req)))))) (rq_prompt req)"

definition openai_canonical :: "serde \<Rightarrow> VendorProvider \<Rightarrow> ProviderRequest \<Rightarrow> json option" where
  "openai_canonical sd p req = map_option (\<lambda>prompt. JObject (with_digest (rr_headers_digest (vp_request p))
     (canonical_members p (openai_body sd p prompt (rq_tools req))))) (rq_prompt req)"

definition legacy_url_shape :: "json option \<Rightarrow> string \<Rightarrow> json list" where
  "legacy_url_shape canonical full_url = (case canonical of
       Some (JObject members) \<Rightarrow> [JObject (members_insert ''url'' (JString full_url) (filter (\<lambda>(k, _). k \<noteq> ''path'') members))]
     | _ \<Rightarrow> [])"

definition anthropic_legacy :: "VendorProvider \<Rightarrow> ProviderRequest \<Rightarrow> json list" where
  "anthropic_legacy p req = legacy_url_shape (anthropic_canonical p req) (redacted_endpoint p)"

definition openai_legacy :: "serde \<Rightarrow> VendorProvider \<Rightarrow> ProviderRequest \<Rightarrow> json list" where
  "openai_legacy sd p req = legacy_url_shape (openai_canonical sd p req) (redacted_endpoint p)"

definition anthropic_preview :: "VendorProvider \<Rightarrow> ProviderRequest \<Rightarrow> json option" where
  "anthropic_preview p req = map_option (\<lambda>prompt. http_request_preview ''POST'' (redacted_endpoint p)
     (apply_keyed_body (vp_request p) (anthropic_body p prompt (rq_tools req)))) (rq_prompt req)"

definition openai_preview :: "serde \<Rightarrow> VendorProvider \<Rightarrow> ProviderRequest \<Rightarrow> json option" where
  "openai_preview sd p req = map_option (\<lambda>prompt. http_request_preview ''POST'' (redacted_endpoint p)
     (apply_keyed_body (vp_request p) (openai_body sd p prompt (rq_tools req)))) (rq_prompt req)"

section \<open>Equal keys, equal requests\<close>

text \<open>Two overlays are alike when they hide the same of what they are laid over.\<close>

definition alike :: "json \<Rightarrow> json \<Rightarrow> bool" where
  "alike k w \<longleftrightarrow> (\<forall>base base'. merge_into k base = merge_into k base' \<longrightarrow> merge_into w base = merge_into w base')"

lemma alikeD: "alike k w \<Longrightarrow> merge_into k base = merge_into k base' \<Longrightarrow> merge_into w base = merge_into w base'"
  unfolding alike_def by blast

lemma merge_null: "merge_into v JNull = v"
  by (cases v) simp_all

text \<open>The merge of two objects, member by member.\<close>

fun lay_one :: "string \<Rightarrow> json \<Rightarrow> (string \<times> json) list \<Rightarrow> (string \<times> json) list" where
  "lay_one k v [] = [(k, v)]"
| "lay_one k v ((k', b) # bs) = (if k = k' then (k', merge_into v b) # bs else (k', b) # lay_one k v bs)"

fun lay :: "(string \<times> json) list \<Rightarrow> (string \<times> json) list \<Rightarrow> (string \<times> json) list" where
  "lay [] bs = bs"
| "lay ((k, v) # ms) bs = lay ms (lay_one k v bs)"

lemma lay_one_merge: "merge_member ((k, v), (k', merge_into v)) bs = lay_one k v bs"
  by (induction bs) (auto simp: merge_member_def split: option.splits)

lemma merge_object: "merge_into (JObject ms) base = (case base of JObject bs \<Rightarrow> JObject (lay ms bs) | _ \<Rightarrow> JObject ms)"
proof -
  have "fold merge_member (zip ms (map (map_prod id merge_into) ms)) bs = lay ms bs" for bs
    by (induction ms arbitrary: bs) (auto simp: lay_one_merge)
  then show ?thesis by (simp split: json.split)
qed

lemma lay_fresh: "k' \<notin> fst ` set ms \<Longrightarrow> lay ms ((k', b) # bs) = (k', b) # lay ms bs"
  by (induction ms bs rule: lay.induct) auto

lemma lay_Cons:
  "distinct (map fst ms) \<Longrightarrow> lay ms ((k', b) # bs)
   = (k', case map_of ms k' of None \<Rightarrow> b | Some v \<Rightarrow> merge_into v b) # lay (filter (\<lambda>(k, _). k \<noteq> k') ms) bs"
proof (induction ms bs arbitrary: b rule: lay.induct)
  case (2 k v ms bs)
  have fresh: "k \<notin> fst ` set ms" using 2(2) by simp
  then have same: "filter (\<lambda>(k', _). k' \<noteq> k) ms = ms" by (force simp: filter_id_conv)
  show ?case
  proof (cases "k = k'")
    case True
    then show ?thesis using fresh same by (simp add: lay_fresh)
  next
    case False
    then show ?thesis using 2 by simp
  qed
qed simp

lemma lay_Nil: "distinct (map fst ms) \<Longrightarrow> lay ms [] = ms"
  by (induction ms) (auto simp: lay_fresh)

lemma lay_alike:
  assumes "map fst ks = map fst ws" and "distinct (map fst ks)" and "list_all2 (\<lambda>(_, k) (_, w). alike k w) ks ws"
    and "lay ks bs = lay ks bs'"
  shows "lay ws bs = lay ws bs'"
  using assms
proof (induction "length bs + length bs'" arbitrary: bs bs' ks ws rule: less_induct)
  case less
  let ?drop = "\<lambda>x. filter (\<lambda>(k, _). k \<noteq> x)"
  have keys: "map_of ks x = None \<longleftrightarrow> map_of ws x = None" for x
    using less.prems(1) by (metis map_of_eq_None_iff set_map)
  have related: "alike k w" if "map_of ks x = Some k" "map_of ws x = Some w" for x k w
    using less.prems(1,2,3) that
  proof (induction ks ws rule: list_induct2')
    case (4 a ks b ws)
    then show ?case by (cases a; cases b) (auto split: if_splits)
  qed auto
  have filtered: "map fst (?drop x ks) = map fst (?drop x ws)" "distinct (map fst (?drop x ks))"
    "list_all2 (\<lambda>(_, k) (_, w). alike k w) (?drop x ks) (?drop x ws)" for x
  proof -
    show "distinct (map fst (?drop x ks))" using less.prems(2) by (rule distinct_map_filter)
    show "map fst (?drop x ks) = map fst (?drop x ws)" "list_all2 (\<lambda>(_, k) (_, w). alike k w) (?drop x ks) (?drop x ws)"
      using less.prems(1,3) by (induction ks ws rule: list_induct2') auto
  qed
  have ws: "distinct (map fst ws)" using less.prems(1,2) by simp
  note cons_k = lay_Cons [OF less.prems(2)] and cons_w = lay_Cons [OF ws]
  have heads: "(case map_of ws x of None \<Rightarrow> b | Some w \<Rightarrow> merge_into w b) = (case map_of ws x of None \<Rightarrow> b' | Some w \<Rightarrow> merge_into w b')"
    if "(case map_of ks x of None \<Rightarrow> b | Some k \<Rightarrow> merge_into k b) = (case map_of ks x of None \<Rightarrow> b' | Some k \<Rightarrow> merge_into k b')" for x b b'
    using that keys [of x] related [of x] by (auto split: option.splits intro: alikeD)
  have one: "lay ws ((x, b) # cs) = ws" if eq: "lay ks ((x, b) # cs) = ks"
    and smaller: "length cs < length bs + length bs'" for x b cs
  proof -
    obtain v ks' where ks: "ks = (x, v) # ks'" using eq unfolding cons_k by (cases ks) auto
    have v: "merge_into v b = v" and rest: "lay (?drop x ks) cs = ks'" using eq unfolding cons_k by (auto simp: ks)
    have ks': "?drop x ks = ks'" using less.prems(2) by (force simp: ks filter_id_conv)
    obtain w ws' where ws: "ws = (x, w) # ws'" using less.prems(1) by (cases ws) (auto simp: ks)
    have ws': "?drop x ws = ws'" using \<open>distinct (map fst ws)\<close> by (force simp: ws filter_id_conv)
    have "lay ws' cs = lay ws' []"
      using less.hyps [of cs "[]" ks' ws'] filtered [of x] rest smaller lay_Nil [of ks'] unfolding ks' ws' by simp
    moreover have "merge_into w b = w" using alikeD [of v w b JNull] related [of x v w] v by (simp add: ks ws merge_null)
    ultimately show ?thesis unfolding cons_w using lay_Nil [of ws'] \<open>distinct (map fst ws)\<close> by (simp add: ws' ) (simp add: ws)
  qed
  show ?case
  proof (cases bs)
    case Nil
    show ?thesis
    proof (cases bs')
      case (Cons c cs)
      obtain x b where c: "c = (x, b)" by fastforce
      show ?thesis using one [of x b cs] less.prems(4) by (simp add: Nil Cons c lay_Nil [OF less.prems(2)] lay_Nil [OF ws])
    qed (simp add: Nil)
  next
    case (Cons c cs)
    obtain x b where c: "c = (x, b)" by fastforce
    show ?thesis
    proof (cases bs')
      case Nil
      show ?thesis using one [of x b cs] less.prems(4) by (simp add: Nil Cons c lay_Nil [OF less.prems(2)] lay_Nil [OF ws])
    next
      case (Cons c' cs')
      obtain x' b' where c': "c' = (x', b')" by fastforce
      have eq: "x = x'" "lay (?drop x ks) cs = lay (?drop x ks) cs'"
        and hd: "(case map_of ks x of None \<Rightarrow> b | Some k \<Rightarrow> merge_into k b) = (case map_of ks x of None \<Rightarrow> b' | Some k \<Rightarrow> merge_into k b')"
        using less.prems(4) unfolding \<open>bs = c # cs\<close> Cons c c' cons_k by auto
      have "lay (?drop x ws) cs = lay (?drop x ws) cs'"
        by (rule less.hyps [OF _ filtered eq(2)]) (simp add: \<open>bs = c # cs\<close> Cons)
      then show ?thesis using heads [OF hd] eq(1) unfolding \<open>bs = c # cs\<close> Cons c c' cons_w by simp
    qed
  qed
qed

text \<open>Objects read from YAML or JSON name each member once, at every level.\<close>

primrec distinct_members :: "json \<Rightarrow> bool" where
  "distinct_members JNull = True"
| "distinct_members (JBool b) = True"
| "distinct_members (JNumber n) = True"
| "distinct_members (JString s) = True"
| "distinct_members (JArray vs) = True"
| "distinct_members (JObject ms) = (distinct (map fst ms) \<and> list_all snd (map (map_prod id distinct_members) ms))"

lemma alike_object:
  assumes "map fst ks = map fst ws" and "distinct (map fst ks)" and "list_all2 (\<lambda>(_, k) (_, w). alike k w) ks ws"
  shows "alike (JObject ks) (JObject ws)"
proof -
  have ws: "distinct (map fst ws)" using assms(1,2) by simp
  have as_members: "merge_into (JObject ms) base = JObject (lay ms (case base of JObject bs \<Rightarrow> bs | _ \<Rightarrow> []))"
    if "distinct (map fst ms)" for ms base
    unfolding merge_object using lay_Nil [OF that] by (simp split: json.split)
  show ?thesis unfolding alike_def as_members [OF assms(2)] as_members [OF ws] using lay_alike [OF assms] by blast
qed

lemma rendered_members:
  assumes "render_json rs ctx (JObject ms) = Inr v"
  shows "\<exists>vs. v = JObject vs \<and> map fst vs = map fst ms \<and> list_all2 (\<lambda>(_, j) (_, v). render_json rs ctx j = Inr v) ms vs"
proof -
  obtain vs where vs: "v = JObject vs"
    and "collect_results (map (\<lambda>(k, r). map_sum id (Pair k) r) (map (map_prod id (render_json rs ctx)) ms)) = Inr vs"
    using assms by (auto simp: map_sum_Inr)
  then have "map (\<lambda>(k, r). map_sum id (Pair k) r) (map (map_prod id (render_json rs ctx)) ms) = map Inr vs"
    by (simp add: collect_results_Inr)
  then have "map fst vs = map fst ms \<and> list_all2 (\<lambda>(_, j) (_, v). render_json rs ctx j = Inr v) ms vs"
    by (induction ms arbitrary: vs) (auto simp: map_sum_Inr Cons_eq_map_conv)
  then show ?thesis using vs by blast
qed

lemma rendered_alike:
  "distinct_members j \<Longrightarrow> render_json rs c j = Inr k \<Longrightarrow> render_json rs c' j = Inr w \<Longrightarrow> alike k w"
proof (induction j arbitrary: k w)
  case (JObject ms)
  obtain ks ws where k: "k = JObject ks" "map fst ks = map fst ms" "list_all2 (\<lambda>(_, j) (_, v). render_json rs c j = Inr v) ms ks"
    and w: "w = JObject ws" "map fst ws = map fst ms" "list_all2 (\<lambda>(_, j) (_, v). render_json rs c' j = Inr v) ms ws"
    using rendered_members [OF JObject.prems(2)] rendered_members [OF JObject.prems(3)] by blast
  have "alike (snd (ks ! n)) (snd (ws ! n))" if "n < length ms" for n
  proof (rule JObject.IH [of "ms ! n" "snd (ms ! n)"])
    show "distinct_members (snd (ms ! n))" using JObject.prems(1) that by (simp add: list_all_length)
    show "render_json rs c (snd (ms ! n)) = Inr (snd (ks ! n))" "render_json rs c' (snd (ms ! n)) = Inr (snd (ws ! n))"
      using k(3) w(3) that by (auto simp: list_all2_conv_all_nth case_prod_beta)
  qed (use that in \<open>auto simp: snds.simps intro: prod.exhaust_sel\<close>)
  moreover have "length ks = length ms" "length ws = length ms" using k(2) w(2) by (metis length_map)+
  ultimately have "list_all2 (\<lambda>(_, k) (_, w). alike k w) ks ws" by (simp add: list_all2_conv_all_nth case_prod_beta)
  then show ?case unfolding k(1) w(1) using k(2) w(2) JObject.prems(1) by (intro alike_object) simp_all
qed (auto simp: alike_def map_sum_Inr)

definition clean_template :: "RequestCfg option \<Rightarrow> bool" where
  "clean_template cfg \<longleftrightarrow> (case Option.bind cfg rf_body of None \<Rightarrow> True | Some body \<Rightarrow> distinct_members body)"

lemma resolved_alike:
  assumes "resolve_request h blake3 parse en cfg default_path auth = Inr r" and "clean_template cfg"
    and "apply_keyed_body r body = apply_keyed_body r body'"
  shows "apply_body r body = apply_body r body'"
proof -
  obtain global where "resolve_with_global h blake3 en cfg default_path auth global = Inr r"
    using assms(1) by (auto simp: resolve_request_def bind_sum_def split: sum.splits)
  then consider "r = vendor_default default_path auth"
    | declared where "render_request en (unwrap_or cfg no_request) declared default_path (env_object en) = Inr (rr_wire r)"
        "render_request en (unwrap_or cfg no_request) declared default_path (env_placeholder_object en) = Inr (rr_keyed r)"
    by (auto simp: resolve_with_global_def Let_def bind_sum_def split: sum.splits if_splits)
  then show ?thesis
  proof cases
    case 1
    then show ?thesis using assms(3) by (simp add: vendor_default_def apply_body_def apply_keyed_body_def Let_def)
  next
    case 2
    show ?thesis
    proof (cases "rf_body (unwrap_or cfg no_request)")
      case None
      then have "rn_body (rr_keyed r) = None" "rn_body (rr_wire r) = None"
        using 2 by (auto simp: render_request_def bind_sum_def Let_def split: sum.splits dest!: sym [of _ "rr_keyed r"] sym [of _ "rr_wire r"])
      then show ?thesis using assms(3) by (simp add: apply_body_def apply_keyed_body_def overlay_body_def)
    next
      case (Some template)
      obtain k w where bodies: "rn_body (rr_keyed r) = Some k" "rn_body (rr_wire r) = Some w"
        and k: "render_json (en_render_str en) (JObject [(''env'', env_placeholder_object en)]) template = Inr k"
        and w: "render_json (en_render_str en) (JObject [(''env'', env_object en)]) template = Inr w"
        using 2 by (auto simp: render_request_def render_val_def Some bind_sum_def map_sum_Inr Let_def split: sum.splits
          dest!: sym [of _ "rr_keyed r"] sym [of _ "rr_wire r"])
      have "distinct_members template" using assms(2) Some by (cases cfg) (auto simp: clean_template_def no_request_def)
      from rendered_alike [OF this k w] have "alike k w" .
      then show ?thesis using assms(3) alikeD [of k w body body']
        by (simp add: bodies apply_body_def apply_keyed_body_def overlay_body_def deep_merge_def)
    qed
  qed
qed

lemma canonical_body:
  "JObject (with_digest d (canonical_members p body)) = JObject (with_digest d (canonical_members p body'))
     \<Longrightarrow> apply_keyed_body (vp_request p) body = apply_keyed_body (vp_request p) body'"
  "JObject (with_digest d (members_insert ''headers'' hs (canonical_members p body)))
     = JObject (with_digest d (members_insert ''headers'' hs (canonical_members p body')))
     \<Longrightarrow> apply_keyed_body (vp_request p) body = apply_keyed_body (vp_request p) body'"
  by (auto simp: with_digest_def canonical_members_def http_canonical_request_def split: option.splits)

lemma anthropic_equal_calls:
  assumes "clean_template cfg" and "anthropic_with_request h blake3 parse en cfg salt p0 = Inr p"
    and eq: "anthropic_canonical p req = anthropic_canonical p req'"
  shows "anthropic_call ht en p req = anthropic_call ht en p req'"
proof (cases "rq_prompt req")
  case None
  then show ?thesis using eq by (auto simp: anthropic_canonical_def anthropic_call_def fun_eq_iff)
next
  case (Some prompt)
  then obtain prompt' where prompt': "rq_prompt req' = Some prompt'" using eq by (cases "rq_prompt req'") (auto simp: anthropic_canonical_def)
  have r: "resolve_request h blake3 parse en cfg ANTHROPIC_PATH ApiKey = Inr (vp_request p)"
    using assms(2) by (auto simp: anthropic_with_request_def bind_sum_def split: sum.splits)
  have "apply_body (vp_request p) (anthropic_body p prompt (rq_tools req)) = apply_body (vp_request p) (anthropic_body p prompt' (rq_tools req'))"
    by (rule resolved_alike [OF r assms(1) canonical_body(2)]) (use eq in \<open>simp add: anthropic_canonical_def Some prompt'\<close>)
  then show ?thesis by (simp add: anthropic_call_def vendor_request_def Some prompt' fun_eq_iff split: sum.split)
qed

lemma openai_equal_calls:
  assumes "clean_template cfg" and "openai_with_request h blake3 parse en cfg salt p0 = Inr p"
    and eq: "openai_canonical sd p req = openai_canonical sd p req'"
  shows "openai_call ht sd en p req = openai_call ht sd en p req'"
proof (cases "rq_prompt req")
  case None
  then show ?thesis using eq by (auto simp: openai_canonical_def openai_call_def fun_eq_iff)
next
  case (Some prompt)
  then obtain prompt' where prompt': "rq_prompt req' = Some prompt'" using eq by (cases "rq_prompt req'") (auto simp: openai_canonical_def)
  have r: "resolve_request h blake3 parse en cfg OPENAI_PATH Bearer = Inr (vp_request p)"
    using assms(2) by (auto simp: openai_with_request_def bind_sum_def split: sum.splits)
  have "apply_body (vp_request p) (openai_body sd p prompt (rq_tools req)) = apply_body (vp_request p) (openai_body sd p prompt' (rq_tools req'))"
    by (rule resolved_alike [OF r assms(1) canonical_body(1)]) (use eq in \<open>simp add: openai_canonical_def Some prompt'\<close>)
  then show ?thesis by (simp add: openai_call_def vendor_request_def Some prompt' fun_eq_iff split: sum.split)
qed


definition bare_engine :: engine where
  "bare_engine = \<lparr>en_render_str = (\<lambda>_ _. Inr []), en_env_vars = [], en_yaml_messages = \<lambda>_. Inr []\<rparr>"

definition bare_request :: ProviderRequest where
  "bare_request = \<lparr>rq_prompt = Some (PromptText ''hi''), rq_vars = [], rq_params = [], rq_test = \<lparr>tm_id = ''t'', tm_tags = []\<rparr>,
     rq_case_salt = None, rq_tools = []\<rparr>"


section \<open>Responses\<close>

lemma most_specific_some: "cs \<noteq> [] \<Longrightarrow> empty_most_specific cs \<noteq> None"
  by (cases cs) (auto simp: empty_most_specific_def or_else_def split: option.split)

text \<open>Every blank answer is explained and no other: the response of either vendor carries a reason exactly when its text is
  blank.\<close>

theorem blank_answers_are_explained:
  "(\<exists>r. parse_messages_response rate payload = Inr r \<and> (pr_empty_reason r = None \<longleftrightarrow> (\<exists>t. pr_output r = Text t \<and> trim t \<noteq> [])))
   \<and> (\<exists>r. parse_completion_response sd rate payload = Inr r \<and> (pr_empty_reason r = None \<longleftrightarrow> (\<exists>t. pr_output r = Text t \<and> trim t \<noteq> [])))"
  by (simp add: parse_messages_response_def parse_completion_response_def anthropic_empty_reason_def openai_empty_reason_def
      most_specific_some Let_def)

text \<open>No token is billed twice: what OpenAI counts as cached is taken out of the input, so input and cached tokens together are
  the prompt tokens, unless more are reported cached than sent.\<close>

theorem cached_tokens_once:
  assumes "json_get payload ''usage'' = Some u" and "get_u64 u ''prompt_tokens'' = Some n"
  shows "\<exists>usage. openai_usage payload = Some usage
    \<and> input_tokens usage + unwrap_or (cache_read_tokens usage) 0 = max n (unwrap_or (cache_read_tokens usage) 0)"
  using assms by (auto simp: openai_usage_def Let_def)

theorem cached_tokens_once_witness:
  "\<exists>usage. openai_usage (JObject [(''usage'', JObject [(''prompt_tokens'', JNumber (PosInt 9)),
        (''prompt_tokens_details'', JObject [(''cached_tokens'', JNumber (PosInt 4))])])]) = Some usage
    \<and> input_tokens usage + unwrap_or (cache_read_tokens usage) 0 = max 9 (unwrap_or (cache_read_tokens usage) 0)"
  by (rule cached_tokens_once [where u = "JObject [(''prompt_tokens'', JNumber (PosInt 9)),
      (''prompt_tokens_details'', JObject [(''cached_tokens'', JNumber (PosInt 4))])]"]) (simp_all add: json_get_def as_u64_def)

definition sent_arguments :: "json \<Rightarrow> json" where
  "sent_arguments v = (if v = JNull then JObject [] else v)"

lemma map_filter_all: "(\<And>x. x \<in> set xs \<Longrightarrow> f x = Some (g x)) \<Longrightarrow> List.map_filter f xs = map g xs"
  by (induction xs) (auto simp: List.map_filter_simps)

text \<open>C31: Tool calls survive the trip back: the calls a response made, sent again in a later turn's history, read back as the
  same calls with their ids; only absent arguments become empty ones. For OpenAI, whose arguments travel as text, this
  rests on the reader inverting the printer.\<close>

theorem tool_calls_round_trip:
  assumes "list_all (\<lambda>(tc, _). from_str sd (to_string sd (tc_arguments tc)) = Some (tc_arguments tc)) made"
    and "from_str sd ''{}'' = Some (JObject [])"
  shows "tool_calls_from_message sd (assistant_calls sd m made)
      = map (\<lambda>(tc, i). \<lparr>tc_id = Some i, tc_name = tc_name tc, tc_arguments = sent_arguments (tc_arguments tc)\<rparr>) made
    \<and> tool_calls_from_blocks (anthropic_blocks (cm_content m) @ map tool_use_block made)
      = map (\<lambda>(tc, i). \<lparr>tc_id = Some i, tc_name = tc_name tc, tc_arguments = sent_arguments (tc_arguments tc)\<rparr>) made"
proof
  have "openai_call_of sd (function_call sd (tc, i)) = Some \<lparr>tc_id = Some i, tc_name = tc_name tc, tc_arguments = sent_arguments (tc_arguments tc)\<rparr>"
    if "from_str sd (to_string sd (tc_arguments tc)) = Some (tc_arguments tc)" for tc i
    using that assms(2) by (simp add: openai_call_of_def function_call_def json_get_def as_str_def arguments_string_def sent_arguments_def)
  then have "List.map_filter (openai_call_of sd) (map (function_call sd) made)
      = map (\<lambda>(tc, i). \<lparr>tc_id = Some i, tc_name = tc_name tc, tc_arguments = sent_arguments (tc_arguments tc)\<rparr>) made"
    using assms(1) by (induction made) (auto simp: List.map_filter_simps)
  then show "tool_calls_from_message sd (assistant_calls sd m made)
      = map (\<lambda>(tc, i). \<lparr>tc_id = Some i, tc_name = tc_name tc, tc_arguments = sent_arguments (tc_arguments tc)\<rparr>) made"
    by (simp add: tool_calls_from_message_def assistant_calls_def json_get_def as_array_def Let_def)
  have "tool_call_of_block (tool_use_block c)
      = Some (case c of (tc, i) \<Rightarrow> \<lparr>tc_id = Some i, tc_name = tc_name tc, tc_arguments = sent_arguments (tc_arguments tc)\<rparr>)"
    and "is_block ''tool_use'' (tool_use_block c)" for c
    by (cases c; simp add: tool_call_of_block_def tool_use_block_def is_block_def json_get_def as_str_def sent_arguments_def)+
  then have calls_read: "tool_calls_from_blocks (map tool_use_block made)
      = map (\<lambda>(tc, i). \<lparr>tc_id = Some i, tc_name = tc_name tc, tc_arguments = sent_arguments (tc_arguments tc)\<rparr>) made"
    by (induction made) (simp_all add: tool_calls_from_blocks_def List.map_filter_simps)
  have "\<not> is_block ''tool_use'' (anthropic_block b)" for b
    by (cases b) (auto simp: anthropic_block_def text_block_def is_block_def json_get_def as_str_def opt_member_def split: option.splits)
  then have "filter (is_block ''tool_use'') (anthropic_blocks (cm_content m)) = []"
    by (auto simp: anthropic_blocks_def filter_empty_conv text_block_def is_block_def json_get_def as_str_def split: MessageContent.splits)
  then show "tool_calls_from_blocks (anthropic_blocks (cm_content m) @ map tool_use_block made)
      = map (\<lambda>(tc, i). \<lparr>tc_id = Some i, tc_name = tc_name tc, tc_arguments = sent_arguments (tc_arguments tc)\<rparr>) made"
    using calls_read by (simp add: tool_calls_from_blocks_def)
qed

theorem tool_calls_round_trip_witness:
  "tool_calls_from_message (\<lparr>to_string = \<lambda>_. ''true'', from_str = \<lambda>s. if s = ''{}'' then Some (JObject []) else Some (JBool True), to_vec_len = \<lambda>_. None\<rparr>)
     (assistant_calls (\<lparr>to_string = \<lambda>_. ''true'', from_str = \<lambda>s. if s = ''{}'' then Some (JObject []) else Some (JBool True), to_vec_len = \<lambda>_. None\<rparr>)
       demo_caller [(\<lparr>tc_id = None, tc_name = ''f'', tc_arguments = JBool True\<rparr>, ''a'')])
   = [\<lparr>tc_id = Some ''a'', tc_name = ''f'', tc_arguments = JBool True\<rparr>]"
  by (subst tool_calls_round_trip [THEN conjunct1]) (simp_all add: sent_arguments_def)

end
