(* ===== verification/HttpProvider.thy ===== *)
theory HttpProvider
  imports Vendors
begin

text \<open>
  The generic \<open>http\<close> provider (\<open>crates/domarinn-core/src/http_provider.rs\<close>): a request rendered from templates, once with the
  values of the environment for the wire and once with placeholders for the key. The HTTP client acts on the world; a call
  that panics is \<open>None\<close>.
\<close>

section \<open>Model\<close>

record GenericProvider =
  hp_id :: string
  hp_url :: string
  hp_method :: HttpMethod
  hp_headers :: "(string \<times> string) list"
  hp_body :: "json option"
  hp_output_expr :: "string option"
  hp_headers_digest :: "string option"

definition method_text :: "HttpMethod \<Rightarrow> string" where
  "method_text m = (case m of HttpMethod.Get \<Rightarrow> ''GET'' | Post \<Rightarrow> ''POST'' | HttpMethod.Put \<Rightarrow> ''PUT'' | Patch \<Rightarrow> ''PATCH'' | Delete \<Rightarrow> ''DELETE'' | Head \<Rightarrow> ''HEAD'')"

definition http_new ::
  "hashing \<Rightarrow> (string \<Rightarrow> string) \<Rightarrow> string \<Rightarrow> string \<Rightarrow> HttpMethod option \<Rightarrow> (string \<times> string) list \<Rightarrow> json option \<Rightarrow> string option
   \<Rightarrow> GenericProvider" where
  "http_new h blake3 pid url verb headers body output_expr =
     \<lparr>hp_id = pid, hp_url = url, hp_method = unwrap_or verb Post, hp_headers = headers, hp_body = body, hp_output_expr = output_expr,
      hp_headers_digest = headers_digest h blake3 headers\<rparr>"

definition with_global_headers ::
  "hashing \<Rightarrow> (string \<Rightarrow> string) \<Rightarrow> (string \<Rightarrow> string + json) \<Rightarrow> engine \<Rightarrow> GenericProvider \<Rightarrow> RequestError + GenericProvider" where
  "with_global_headers h blake3 parse en p = bind_sum (global_headers parse en) (\<lambda>global.
     if global = [] then Inr p
     else let headers = fold (\<lambda>(k, v) m. btree_insert k v m) (hp_headers p) global
          in Inr (p\<lparr>hp_headers_digest := headers_digest h blake3 headers, hp_headers := headers\<rparr>))"

definition prompt_text :: "RenderedPrompt \<Rightarrow> string" where
  "prompt_text prompt = (case prompt of
       PromptText t \<Rightarrow> t
     | PromptMessages msgs \<Rightarrow> join [CHR 0x0A] (map (\<lambda>m. role_as_str (cm_role m) @ '': '' @ content_text (cm_content m)) msgs))"

definition prompt_messages :: "RenderedPrompt \<Rightarrow> json" where
  "prompt_messages prompt = (case prompt of
       PromptText t \<Rightarrow> JArray [role_message ''user'' (JString t)]
     | PromptMessages msgs \<Rightarrow> JArray (map message_json msgs))"

definition render_context :: "ProviderRequest \<Rightarrow> json \<Rightarrow> json" where
  "render_context req env =
     (let obj = members_insert ''env'' env (rq_vars req)
      in JObject (case rq_prompt req of
           None \<Rightarrow> obj
         | Some prompt \<Rightarrow>
             (let obj = members_insert ''prompt'' (JString (prompt_text prompt)) obj
              in if map_of obj ''messages'' = None then members_insert ''messages'' (prompt_messages prompt) obj else obj)))"

record BuiltHttpRequest =
  bh_url :: string
  bh_method :: string
  bh_headers :: "(string \<times> string) list"
  bh_body :: "json option"

definition render_failed :: "string \<Rightarrow> string \<Rightarrow> ProviderError" where
  "render_failed what e = Fatal (''rendering '' @ what @ '': '' @ e) RENDER_FAILED None"

definition build_request :: "engine \<Rightarrow> GenericProvider \<Rightarrow> ProviderRequest \<Rightarrow> json \<Rightarrow> ProviderError + BuiltHttpRequest" where
  "build_request en p req env =
     (let ctx = render_context req env
      in bind_sum (map_sum (render_failed ''url'') id (en_render_str en (hp_url p) ctx)) (\<lambda>url.
         bind_sum (collect_results (map (\<lambda>(name, template).
            map_sum (render_failed (''header '' @ name)) (Pair name) (en_render_str en template ctx)) (hp_headers p))) (\<lambda>headers.
         bind_sum (case hp_body p of
             Some body \<Rightarrow> map_sum (render_failed ''body'') Some (render_val (en_render_str en) (Tpl body) ctx)
           | None \<Rightarrow> Inr None) (\<lambda>body.
         Inr \<lparr>bh_url = url, bh_method = method_text (hp_method p), bh_headers = headers, bh_body = body\<rparr>))))"

text \<open>A reply: its status, the \<open>Retry-After\<close> header, all headers with the text of those that are text, and the body.\<close>

record GenericReply =
  gp_status :: nat
  gp_retry_after :: "string option"
  gp_headers :: "(string \<times> string option) list"
  gp_text :: "TransportError + string"

record 'w client =
  cl_send :: "BuiltHttpRequest \<Rightarrow> 'w \<Rightarrow> (TransportError + GenericReply) \<times> 'w"
  cl_parse_u64 :: "string \<Rightarrow> u64 option"
  cl_parse_date :: "string \<Rightarrow> int option"
  cl_now :: "'w \<Rightarrow> int"
  cl_from_str :: "string \<Rightarrow> json option"
  cl_eval_value :: "string \<Rightarrow> json \<Rightarrow> string + json"

definition header_members :: "(string \<times> string option) list \<Rightarrow> (string \<times> json) list" where
  "header_members headers = fold (\<lambda>(name, v) m. case v of Some s \<Rightarrow> members_insert name (JString s) m | None \<Rightarrow> m) headers []"

definition response_context :: "nat \<Rightarrow> string \<Rightarrow> json option \<Rightarrow> (string \<times> string option) list \<Rightarrow> json" where
  "response_context status text body headers = JObject [(''response'', JObject [(''status'', JNumber (PosInt status)), (''text'', JString text),
     (''json'', unwrap_or body JNull), (''headers'', JObject (header_members headers))])]"

definition generic_output ::
  "(string \<Rightarrow> json \<Rightarrow> string + json) \<Rightarrow> string option \<Rightarrow> string \<Rightarrow> json \<Rightarrow> ProviderError + Output" where
  "generic_output eval expr text ctx = (case expr of
       None \<Rightarrow> Inr (Text text)
     | Some e \<Rightarrow> map_sum (\<lambda>err. Fatal (''output_expr `'' @ e @ ''`: '' @ err) PROVIDER_PROTOCOL None)
         (\<lambda>v. case v of JString s \<Rightarrow> Text s | other \<Rightarrow> Json other) (eval e ctx))"

definition generic_response :: "Output \<Rightarrow> json option \<Rightarrow> ProviderResponse" where
  "generic_response out raw = \<lparr>pr_output = out, pr_usage = None, pr_cost_usd = None, pr_stop_reason = None, pr_raw = raw, pr_tool_calls = [],
     pr_reasoning = None, pr_empty_reason = None, pr_model = None\<rparr>"

definition generic_call ::
  "'w client \<Rightarrow> engine \<Rightarrow> GenericProvider \<Rightarrow> ProviderRequest \<Rightarrow> 'w \<Rightarrow> (ProviderError + ProviderResponse) option \<times> 'w" where
  "generic_call cl en p req w = (case build_request en p req (env_object en) of
       Inl e \<Rightarrow> (Some (Inl e), w)
     | Inr built \<Rightarrow>
         (let (sent, w) = cl_send cl built w
          in (case sent of
                Inl e \<Rightarrow> Some (Inl (transport_error e))
              | Inr reply \<Rightarrow> (case gp_text reply of
                  Inl e \<Rightarrow> Some (Inl (transport_error e))
                | Inr text \<Rightarrow>
                    if \<not> (200 \<le> gp_status reply \<and> gp_status reply \<le> 299) then
                      map_option Inl (status_error (gp_status reply)
                        (parse_retry_after (cl_parse_u64 cl) (cl_parse_date cl) (cl_now cl w) (gp_retry_after reply)) text)
                    else Some (map_sum id (\<lambda>out. generic_response out (cl_from_str cl text))
                      (generic_output (cl_eval_value cl) (hp_output_expr p) text
                        (response_context (gp_status reply) text (cl_from_str cl text) (gp_headers reply))))), w)))"

definition generic_fingerprint :: "GenericProvider \<Rightarrow> json" where
  "generic_fingerprint p =
     (let fp = [(''type'', JString ''http''), (''url'', JString (hp_url p)), (''method'', JString (method_text (hp_method p))),
            (''body'', unwrap_or (hp_body p) JNull), (''output_expr'', case hp_output_expr p of None \<Rightarrow> JNull | Some e \<Rightarrow> JString e)]
      in JObject (case hp_headers_digest p of Some d \<Rightarrow> members_insert ''headers'' (JString d) fp | None \<Rightarrow> fp))"

definition generic_preview :: "engine \<Rightarrow> GenericProvider \<Rightarrow> ProviderRequest \<Rightarrow> json option" where
  "generic_preview en p req = (case build_request en p req (env_placeholder_object en) of
       Inl _ \<Rightarrow> None
     | Inr built \<Rightarrow> Some (http_request_preview (bh_method built) (bh_url built) (unwrap_or (bh_body built) JNull)))"

definition generic_canonical ::
  "hashing \<Rightarrow> (string \<Rightarrow> string) \<Rightarrow> engine \<Rightarrow> GenericProvider \<Rightarrow> ProviderRequest \<Rightarrow> json option" where
  "generic_canonical h blake3 en p req = (case build_request en p req (env_placeholder_object en) of
       Inl _ \<Rightarrow> None
     | Inr built \<Rightarrow>
         (let members = [(''transport'', JString ''http''), (''method'', JString (bh_method built)), (''url'', JString (bh_url built))];
              members = (case bh_body built of Some body \<Rightarrow> members_insert ''body'' body members | None \<Rightarrow> members);
              members = with_digest (headers_digest h blake3 (bh_headers built)) members;
              members = (case hp_output_expr p of Some e \<Rightarrow> members_insert ''output_expr'' (JString e) members | None \<Rightarrow> members)
          in Some (JObject members)))"

section \<open>What the key and a stored entry may show\<close>



end
