(* ===== verification/Judge.thy ===== *)
theory Judge
  imports GraderCache Vendors
begin

text \<open>
  The judge behind \<open>llm-rubric\<close>: its message, built from the grader's template (\<open>crates/domarinn-core/src/grader.rs\<close>), the
  request for either vendor, the reading of a verdict and the call (\<open>grader_llm.rs\<close>). The HTTP client acts on the world.
  Ellipses are written as three dots.
\<close>

section \<open>Model\<close>

subsection \<open>The message (\<open>grader.rs\<close>)\<close>

definition SYSTEM_PROMPT :: string where
  "SYSTEM_PROMPT = ''You are a strict evaluator. Grade the ASSISTANT OUTPUT against the RUBRIC. Return a boolean `pass`, a `score` in [0,1], and brief `reasoning`. Judge only what the rubric asks; do not reward effort.''"

definition DEFAULT_GRADER_MAX_TOKENS :: u64 where "DEFAULT_GRADER_MAX_TOKENS = 4096"

definition TOOL_CALLS_PLACEHOLDER :: string where "TOOL_CALLS_PLACEHOLDER = ''{{tool_calls}}''"

text \<open>The pretty printer gives \<open>None\<close> when it fails.\<close>

definition format_tool_calls :: "(json \<Rightarrow> string option) \<Rightarrow> ToolCall list \<Rightarrow> string" where
  "format_tool_calls pretty made = unwrap_or (pretty (JArray (map (\<lambda>c. JObject [(''name'', JString (tc_name c)), (''arguments'', tc_arguments c)]) made))) ''[]''"

text \<open>\<open>str::find\<close> and \<open>min_by_key\<close>, which keeps the first of equal elements.\<close>

fun find_sub :: "string \<Rightarrow> string \<Rightarrow> nat option" where
  "find_sub key [] = then_some (key = []) 0"
| "find_sub key (c # cs) = (if starts_with (c # cs) key then Some 0 else map_option Suc (find_sub key cs))"

fun min_by_key :: "('a \<Rightarrow> nat) \<Rightarrow> 'a list \<Rightarrow> 'a option" where
  "min_by_key f [] = None"
| "min_by_key f (x # xs) = (case min_by_key f xs of None \<Rightarrow> Some x | Some y \<Rightarrow> if f x \<le> f y then Some x else Some y)"

definition next_match :: "(string \<times> string) list \<Rightarrow> string \<Rightarrow> (nat \<times> string \<times> string) option" where
  "next_match replacements rest =
     min_by_key fst (List.map_filter (\<lambda>(key, v). map_option (\<lambda>pos. (pos, key, v)) (find_sub key rest)) replacements)"

text \<open>The loop would not end for an empty key, which no caller passes.\<close>

partial_function (option) substitute_once :: "(string \<times> string) list \<Rightarrow> string \<Rightarrow> string option" where
  "substitute_once replacements rest = (case next_match replacements rest of
       None \<Rightarrow> Some rest
     | Some (pos, key, v) \<Rightarrow> Option.bind (substitute_once replacements (drop (pos + length key) rest)) (\<lambda>out. Some (take pos rest @ v @ out)))"

definition sandbox_text :: "SandboxError \<Rightarrow> string" where
  "sandbox_text e = tick (sb_spec e) @ '' refuses to read outside the suite directory (base: '' @ sb_base e @ '')''"

definition read_grader_template :: "files \<Rightarrow> string \<Rightarrow> path option \<Rightarrow> GraderError + string" where
  "read_grader_template fs spec base_dir = (case strip_prefix spec ''file://'' of
       None \<Rightarrow> Inl (Misconfigured (''grader.template must be a `file://` reference, got '' @ backtick spec))
     | Some rel \<Rightarrow> bind_sum (case base_dir of
           Some dir \<Rightarrow> map_sum (\<lambda>e. Misconfigured (sandbox_text e)) id (resolve_within fs dir rel)
         | None \<Rightarrow> Inr (path_components rel)) (\<lambda>p.
         map_sum (\<lambda>e. Misconfigured (''reading grader.template '' @ backtick rel @ '': '' @ e)) id (read_to_string fs p)))"

definition grader_replacements :: "string \<Rightarrow> string \<Rightarrow> string option \<Rightarrow> (string \<times> string) list" where
  "grader_replacements rubric out tool_calls = [(''{{rubric}}'', rubric), (''{{output}}'', out)]
     @ (case tool_calls of Some made \<Rightarrow> [(TOOL_CALLS_PLACEHOLDER, made)] | None \<Rightarrow> [])"

definition render_grader_template ::
  "files \<Rightarrow> string \<Rightarrow> path option \<Rightarrow> string \<Rightarrow> string \<Rightarrow> string option \<Rightarrow> (GraderError + string) option" where
  "render_grader_template fs spec base_dir rubric out tool_calls = (case read_grader_template fs spec base_dir of
       Inl e \<Rightarrow> Some (Inl e)
     | Inr text \<Rightarrow>
         if tool_calls = None \<and> str_contains text TOOL_CALLS_PLACEHOLDER then Some (Inl (Misconfigured
           (''grader.template uses '' @ backtick TOOL_CALLS_PLACEHOLDER @ '' but grader.include_tool_calls is not set'')))
         else if tool_calls \<noteq> None \<and> \<not> str_contains text TOOL_CALLS_PLACEHOLDER then Some (Inl (Misconfigured
           (''grader.include_tool_calls is set but grader.template has no '' @ backtick TOOL_CALLS_PLACEHOLDER @ '' to put them in'')))
         else map_option Inr (substitute_once (grader_replacements rubric out tool_calls) text))"

definition NL :: string where "NL = [CHR 0x0A]"

definition grading_user_message ::
  "files \<Rightarrow> (json \<Rightarrow> string option) \<Rightarrow> Grader \<Rightarrow> path option \<Rightarrow> string \<Rightarrow> string \<Rightarrow> ToolCall list \<Rightarrow> (GraderError + string) option" where
  "grading_user_message fs pretty grader working_dir rubric out made =
     (let shown = then_some (unwrap_or (gd_include_tool_calls grader) False) (format_tool_calls pretty made)
      in case gd_template grader of
           Some spec \<Rightarrow> render_grader_template fs spec working_dir rubric out shown
         | None \<Rightarrow> Some (Inr (''RUBRIC:'' @ NL @ rubric @ NL @ NL @ ''ASSISTANT OUTPUT:'' @ NL @ out
             @ (case shown of
                  Some text \<Rightarrow> NL @ NL @ ''TOOL CALLS (the tool calls the assistant made, in order, as JSON):'' @ NL @ text
                | None \<Rightarrow> []))))"

definition sum_counts :: "u64 option \<Rightarrow> u64 option \<Rightarrow> u64 option" where
  "sum_counts a b = (if a = None \<and> b = None then None else Some (saturating_add (unwrap_or a 0) (unwrap_or b 0)))"

definition no_usage :: TokenUsage where
  "no_usage = \<lparr>input_tokens = 0, output_tokens = 0, cache_read_tokens = None, cache_write_tokens = None, cache_write_1h_tokens = None\<rparr>"

definition sum_usage :: "TokenUsage option \<Rightarrow> TokenUsage option \<Rightarrow> TokenUsage option" where
  "sum_usage a b =
     (if a = None \<and> b = None then None
      else let a = unwrap_or a no_usage; b = unwrap_or b no_usage
           in Some \<lparr>input_tokens = saturating_add (input_tokens a) (input_tokens b),
                output_tokens = saturating_add (output_tokens a) (output_tokens b),
                cache_read_tokens = sum_counts (cache_read_tokens a) (cache_read_tokens b),
                cache_write_tokens = sum_counts (cache_write_tokens a) (cache_write_tokens b),
                cache_write_1h_tokens = sum_counts (cache_write_1h_tokens a) (cache_write_1h_tokens b)\<rparr>)"

definition merge_params :: "ParamMap option \<Rightarrow> ParamMap option \<Rightarrow> ParamMap option" where
  "merge_params provider assert = (case (provider, assert) of
       (None, None) \<Rightarrow> None
     | (Some p, None) \<Rightarrow> Some p
     | (None, Some a) \<Rightarrow> Some a
     | (Some p, Some a) \<Rightarrow> Some (fold insert_param a p))"

subsection \<open>The request (\<open>grader_llm.rs\<close>)\<close>

datatype Judge = JudgeAnthropic | JudgeOpenai

definition VERDICT_TOOL :: string where "VERDICT_TOOL = ''submit_verdict''"

definition VERDICT_SNIPPET :: nat where "VERDICT_SNIPPET = 300"

definition typed :: "string \<Rightarrow> json" where
  "typed t = JObject [(''type'', JString t)]"

definition verdict_schema :: json where
  "verdict_schema = JObject [(''type'', JString ''object''), (''additionalProperties'', JBool False),
     (''properties'', JObject [(''reasoning'', typed ''string''), (''pass'', typed ''boolean''), (''score'', typed ''number'')]),
     (''required'', JArray (map JString [''reasoning'', ''pass'', ''score'']))]"

definition verdict_tool :: json where
  "verdict_tool = JObject [(''name'', JString VERDICT_TOOL), (''description'', JString ''Submit the grading verdict.''),
     (''input_schema'', verdict_schema)]"

definition judge_defaults :: "Judge \<Rightarrow> string \<times> AuthMode" where
  "judge_defaults j = (case j of JudgeAnthropic \<Rightarrow> (''/v1/messages'', ApiKey) | JudgeOpenai \<Rightarrow> (''/chat/completions'', Bearer))"

definition judge_headers :: "Judge \<Rightarrow> (string \<times> string) list" where
  "judge_headers j = (case j of JudgeAnthropic \<Rightarrow> [(''anthropic-version'', ANTHROPIC_VERSION)] | JudgeOpenai \<Rightarrow> [])"

definition default_key_env :: "Judge \<Rightarrow> EnvNames" where
  "default_key_env j = (case j of JudgeAnthropic \<Rightarrow> One ''ANTHROPIC_API_KEY'' | JudgeOpenai \<Rightarrow> One ''OPENAI_API_KEY'')"

definition judge_request ::
  "Judge \<Rightarrow> string \<Rightarrow> string option \<Rightarrow> ParamMap option \<Rightarrow> string \<Rightarrow> ResolvedRequest \<Rightarrow> VendorCall" where
  "judge_request j model base_url params user resolved =
     (let body = (case params of Some p \<Rightarrow> fold insert_param p [] | None \<Rightarrow> []);
          body = members_insert ''model'' (JString model) body
      in case j of
           JudgeAnthropic \<Rightarrow>
             (let body = members_insert ''system'' (JString SYSTEM_PROMPT) body;
                  body = members_insert ''messages'' (JArray [user_text user]) body;
                  body = (if map_of body ''max_tokens'' = None
                    then members_insert ''max_tokens'' (JNumber (PosInt DEFAULT_GRADER_MAX_TOKENS)) body else body);
                  body = members_insert ''tools'' (JArray [verdict_tool]) body;
                  body = members_insert ''tool_choice'' (JObject [(''type'', JString ''tool''), (''name'', JString VERDICT_TOOL)]) body
              in vendor_call (trim_end_slashes (unwrap_or base_url ANTHROPIC_BASE_URL)) resolved (JObject body))
         | JudgeOpenai \<Rightarrow>
             (let body = members_insert ''messages'' (JArray [role_message ''system'' (JString SYSTEM_PROMPT), user_text user]) body;
                  body = members_insert ''response_format'' (JObject [(''type'', JString ''json_schema''),
                    (''json_schema'', JObject [(''name'', JString ''verdict''), (''strict'', JBool True), (''schema'', verdict_schema)])]) body
              in vendor_call (trim_end_slashes (unwrap_or base_url OPENAI_BASE_URL)) resolved (JObject body)))"

definition reject_thinking :: "ParamMap option \<Rightarrow> GraderError + unit" where
  "reject_thinking params = (case params of
       Some p \<Rightarrow> if map_of p ''thinking'' \<noteq> None \<or> map_of p ''reasoning'' \<noteq> None
         then Inl (Misconfigured ''grader params must not enable extended thinking: forced tool use is rejected when thinking is on. Remove `thinking`/`reasoning`.'')
         else Inr ()
     | None \<Rightarrow> Inr ())"

subsection \<open>Reading a verdict (\<open>grader_llm.rs\<close>)\<close>

record JudgeVerdict =
  jv_reasoning :: string
  jv_pass :: bool
  jv_score :: f64
  jv_usage :: "TokenUsage option"
  jv_cost_usd :: "f64 option"
  jv_model :: "string option"

text \<open>What reading needs of \<open>serde_json\<close>: a number as a float, the compact printer, the parser with its error.\<close>

record reader =
  rd_f64 :: "number \<Rightarrow> f64"
  rd_to_string :: "json \<Rightarrow> string"
  rd_parse :: "string \<Rightarrow> string + json"
  rd_from_str :: "string \<Rightarrow> json option"

primrec redacted_verdict :: "json \<Rightarrow> json" where
  "redacted_verdict JNull = JNull"
| "redacted_verdict (JBool b) = JBool b"
| "redacted_verdict (JNumber n) = JNumber n"
| "redacted_verdict (JString s) = JString (''<redacted '' @ show_nat (length s) @ '' chars>'')"
| "redacted_verdict (JArray vs) = JArray (map redacted_verdict vs)"
| "redacted_verdict (JObject ms) = JObject (map (map_prod id redacted_verdict) ms)"

definition saw_kind :: "json option \<Rightarrow> string" where
  "saw_kind v = (case v of None \<Rightarrow> ''absent'' | Some j \<Rightarrow> (case j of JNull \<Rightarrow> ''null'' | JBool _ \<Rightarrow> ''a boolean'' | JNumber _ \<Rightarrow> ''a number''
     | JString _ \<Rightarrow> ''a string'' | JArray _ \<Rightarrow> ''an array'' | JObject _ \<Rightarrow> ''an object''))"

definition bad_field :: "(json \<Rightarrow> string) \<Rightarrow> json \<Rightarrow> string \<Rightarrow> string \<Rightarrow> GraderError" where
  "bad_field print v field want =
     (let rendered = print (redacted_verdict v);
          snippet = (if length rendered > VERDICT_SNIPPET then take VERDICT_SNIPPET rendered @ ''...'' else rendered)
      in InvalidVerdict (''verdict field '' @ backtick field @ '' should be '' @ want @ '' but was '' @ saw_kind (json_get v field)
           @ ''; judge returned '' @ snippet))"

definition clamp_unit :: "f64 \<Rightarrow> f64" where
  "clamp_unit x = (if x < 0 then 0 else if x > 1 then 1 else x)"

definition as_bool :: "json \<Rightarrow> bool option" where
  "as_bool v = (case v of JBool b \<Rightarrow> Some b | _ \<Rightarrow> None)"

definition as_number :: "json \<Rightarrow> number option" where
  "as_number v = (case v of JNumber n \<Rightarrow> Some n | _ \<Rightarrow> None)"

definition verdict_from_json :: "reader \<Rightarrow> json \<Rightarrow> GraderError + JudgeVerdict" where
  "verdict_from_json rd v = (case Option.bind (json_get v ''pass'') as_bool of
       None \<Rightarrow> Inl (bad_field (rd_to_string rd) v ''pass'' ''a boolean'')
     | Some pass \<Rightarrow> (case Option.bind (json_get v ''score'') as_number of
         None \<Rightarrow> Inl (bad_field (rd_to_string rd) v ''score'' ''a number'')
       | Some n \<Rightarrow> Inr \<lparr>jv_reasoning = unwrap_or (get_str v ''reasoning'') [], jv_pass = pass, jv_score = clamp_unit (rd_f64 rd n),
           jv_usage = None, jv_cost_usd = None, jv_model = None\<rparr>))"

definition verdict_priced :: "json \<Rightarrow> TokenUsage option \<Rightarrow> ModelRate option \<Rightarrow> JudgeVerdict \<Rightarrow> JudgeVerdict" where
  "verdict_priced payload usage rate v = v\<lparr>jv_cost_usd := priced rate usage, jv_usage := usage, jv_model := get_str payload ''model''\<rparr>"

definition describe_block :: "json \<Rightarrow> string" where
  "describe_block b =
     (let kind = unwrap_or (get_str b ''type'') ''?''
      in case get_str b ''name'' of Some name \<Rightarrow> kind @ ''('' @ name @ '')'' | None \<Rightarrow> kind)"

definition chosen_tool_use :: "json list \<Rightarrow> json option" where
  "chosen_tool_use tool_uses = or_else (find (\<lambda>b. get_str b ''name'' = Some VERDICT_TOOL) tool_uses)
     (case tool_uses of [sole] \<Rightarrow> Some sole | _ \<Rightarrow> None)"

definition anthropic_verdict_input :: "json \<Rightarrow> GraderError + json" where
  "anthropic_verdict_input payload =
     (if get_str payload ''stop_reason'' = Some ''max_tokens'' then Inl (TruncatedVerdict ''stop_reason=max_tokens'')
      else let blocks = Option.bind (json_get payload ''content'') as_array;
               tool_uses = (case blocks of Some bs \<Rightarrow> filter (is_block ''tool_use'') bs | None \<Rightarrow> []);
               saw = (case blocks of Some bs \<Rightarrow> map describe_block bs | None \<Rightarrow> [])
           in (case Option.bind (chosen_tool_use tool_uses) (\<lambda>b. json_get b ''input'') of
                 Some v \<Rightarrow> Inr v
               | None \<Rightarrow> Inl (InvalidVerdict (''no '' @ backtick VERDICT_TOOL @ '' tool_use block in response (content blocks: ''
                   @ (if saw = [] then ''none'' else join '', '' saw) @ '')''))))"

definition openai_verdict_input :: "reader \<Rightarrow> json \<Rightarrow> GraderError + json" where
  "openai_verdict_input rd payload =
     (let choice = first_choice payload
      in if Option.bind choice (\<lambda>c. get_str c ''finish_reason'') = Some ''length'' then Inl (TruncatedVerdict ''finish_reason=length'')
         else (case Option.bind (Option.bind choice (\<lambda>c. json_get c ''message'')) (\<lambda>m. get_str m ''content'') of
                 None \<Rightarrow> Inl (InvalidVerdict ''no content in response'')
               | Some content \<Rightarrow> map_sum (\<lambda>e. InvalidVerdict (''verdict not JSON: '' @ e)) id (rd_parse rd content)))"

definition judge_parse :: "reader \<Rightarrow> Judge \<Rightarrow> ModelRate option \<Rightarrow> json \<Rightarrow> GraderError + JudgeVerdict" where
  "judge_parse rd j rate payload =
     bind_sum (case j of
         JudgeAnthropic \<Rightarrow> map_sum id (\<lambda>v. (v, anthropic_usage payload)) (anthropic_verdict_input payload)
       | JudgeOpenai \<Rightarrow> map_sum id (\<lambda>v. (v, openai_usage payload)) (openai_verdict_input rd payload)) (\<lambda>(v, usage).
     map_sum id (verdict_priced payload usage rate) (verdict_from_json rd v))"

definition provider_error_text :: "ProviderError \<Rightarrow> string" where
  "provider_error_text e = (case e of
       Retriable source _ _ _ \<Rightarrow> ''retriable provider error: '' @ source | Fatal source _ _ \<Rightarrow> ''fatal provider error: '' @ source)"

definition grader_status_error :: "nat \<Rightarrow> string option \<Rightarrow> GraderError" where
  "grader_status_error code body =
     (let text = ''HTTP '' @ show_nat code
      in if code = 401 \<or> code = 403 then AuthRejected code
         else if code = 429 \<or> code \<ge> 500 then Transport (text @ '': '' @ unwrap_or body [])
         else Misconfigured (''grader endpoint rejected the request ('' @ text @ ''): '' @ unwrap_or body []))"

definition post_judge ::
  "'w http \<Rightarrow> engine \<Rightarrow> Judge \<Rightarrow> string \<Rightarrow> json \<Rightarrow> EnvNames option \<Rightarrow> ResolvedRequest \<Rightarrow> 'w \<Rightarrow> (GraderError + json) \<times> 'w" where
  "post_judge ht en j url body key_env resolved w =
     (case (if needs_credential (rr_auth resolved) then map_sum (\<lambda>e. Misconfigured (provider_error_text e)) Some (api_key en (unwrap_or key_env (default_key_env j)))
            else Inr None) of
        Inl e \<Rightarrow> (Inl e, w)
      | Inr key \<Rightarrow>
          (let (sent, w) = ht_send ht \<lparr>hr_url = url, hr_headers = call_headers resolved (judge_headers j) key, hr_body = body\<rparr> w
           in (case sent of
                 Inl e \<Rightarrow> Inl (Transport (xe_text e))
               | Inr reply \<Rightarrow>
                   if \<not> (200 \<le> hp_status reply \<and> hp_status reply \<le> 299) then Inl (grader_status_error (hp_status reply) (hp_text reply))
                   else map_sum (\<lambda>e. InvalidVerdict (''response was not JSON: '' @ xe_text e)) id (hp_json reply), w)))"

section \<open>Values are pasted verbatim\<close>

text \<open>A template cut at its placeholders: literal text and places for the value of the n-th key.\<close>

datatype Piece = Literal string | Place nat

definition fill :: "string list \<Rightarrow> Piece list \<Rightarrow> string" where
  "fill vs pieces = concat (map (\<lambda>p. case p of Literal s \<Rightarrow> s | Place i \<Rightarrow> vs ! i) pieces)"

definition next_place :: "string list \<Rightarrow> string \<Rightarrow> (nat \<times> nat) option" where
  "next_place keys rest = min_by_key fst (List.map_filter (\<lambda>(i, key). map_option (\<lambda>pos. (pos, i)) (find_sub key rest)) (enumerate 0 keys))"

lemma min_by_key_map: "(\<And>x. x \<in> set xs \<Longrightarrow> g (h x) = f x) \<Longrightarrow> min_by_key g (map h xs) = map_option h (min_by_key f xs)"
proof (induction xs)
  case (Cons x xs)
  then have "min_by_key g (map h xs) = map_option h (min_by_key f xs)" by simp
  moreover have "g (h y) = f y" if "min_by_key f xs = Some y" for y
  proof -
    have "y \<in> set xs" using that by (induction xs arbitrary: y) (auto split: option.splits if_splits)
    then show ?thesis using Cons.prems by simp
  qed
  ultimately show ?case using Cons.prems by (auto split: option.split)
qed simp

lemma min_by_key_in: "min_by_key f xs = Some y \<Longrightarrow> y \<in> set xs"
  by (induction xs arbitrary: y) (auto split: option.splits if_splits)

lemma matches_of_places:
  assumes "length vs = length keys"
  shows "List.map_filter (\<lambda>(key, v). map_option (\<lambda>pos. (pos, key, v)) (find_sub key rest)) (zip keys vs)
    = map (\<lambda>(pos, i). (pos, keys ! (i - n), vs ! (i - n)))
        (List.map_filter (\<lambda>(i, key). map_option (\<lambda>pos. (pos, i)) (find_sub key rest)) (enumerate n keys))"
  using assms
proof (induction keys vs arbitrary: n rule: list_induct2')
  case (4 key keys v vs)
  have shift: "map (\<lambda>(pos, i). (pos, keys ! (i - Suc n), vs ! (i - Suc n)))
        (List.map_filter (\<lambda>(i, key). map_option (\<lambda>pos. (pos, i)) (find_sub key rest)) (enumerate (Suc n) keys))
      = map (\<lambda>(pos, i). (pos, (key # keys) ! (i - n), (v # vs) ! (i - n)))
        (List.map_filter (\<lambda>(i, key). map_option (\<lambda>pos. (pos, i)) (find_sub key rest)) (enumerate (Suc n) keys))"
    by (rule map_cong [OF refl]) (auto simp: map_filter_def in_set_enumerate_eq nth_Cons' split: option.splits)
  show ?case using 4 shift by (auto simp: List.map_filter_simps split: option.split)
qed simp_all

lemma next_match_place:
  assumes "length vs = length keys"
  shows "next_match (zip keys vs) rest = map_option (\<lambda>(pos, i). (pos, keys ! i, vs ! i)) (next_place keys rest)"
  unfolding next_match_def next_place_def matches_of_places [OF assms, of rest 0]
  by (subst min_by_key_map [where f = fst]) auto

lemma next_place_bounds:
  assumes "next_place keys rest = Some (pos, i)"
  shows "i < length keys" and "find_sub (keys ! i) rest = Some pos"
  using min_by_key_in [OF assms [unfolded next_place_def]]
  by (auto simp: map_filter_def in_set_enumerate_eq)

lemma find_sub_at: "find_sub key s = Some pos \<Longrightarrow> take (length key) (drop pos s) = key \<and> pos + length key \<le> length s"
proof (induction s arbitrary: pos)
  case (Cons c cs)
  show ?case
  proof (cases "starts_with (c # cs) key")
    case True
    then obtain r where r: "c # cs = key @ r" by (auto simp: starts_with_iff)
    then have "length key \<le> length (c # cs)" by (metis le_add1 length_append)
    moreover have "pos = 0" using Cons.prems True by simp
    ultimately show ?thesis by (simp add: r)
  next
    case False
    then show ?thesis using Cons by auto
  qed
qed (auto simp: then_some_def split: if_splits)

lemma pasted:
  assumes "[] \<notin> set keys"
  shows "\<exists>pieces. fill keys pieces = template
    \<and> (\<forall>vs. length vs = length keys \<longrightarrow> substitute_once (zip keys vs) template = Some (fill vs pieces))"
proof (induction "length template" arbitrary: template rule: less_induct)
  case less
  show ?case
  proof (cases "next_place keys template")
    case None
    then have "substitute_once (zip keys vs) template = Some (fill vs [Literal template])" if "length vs = length keys" for vs
      using that by (subst substitute_once.simps) (simp add: next_match_place fill_def)
    moreover have "fill keys [Literal template] = template" by (simp add: fill_def)
    ultimately show ?thesis by blast
  next
    case (Some place)
    obtain pos i where place: "next_place keys template = Some (pos, i)" using Some by (cases place) auto
    let ?rest = "drop (pos + length (keys ! i)) template"
    have i: "i < length keys" and found: "find_sub (keys ! i) template = Some pos" using next_place_bounds [OF place] by auto
    have "0 < length (keys ! i)" using assms i by (metis length_greater_0_conv nth_mem)
    moreover note there = find_sub_at [OF found]
    ultimately have "length ?rest < length template" unfolding length_drop by linarith
    from less [OF this] obtain pieces where pieces: "fill keys pieces = ?rest"
      "\<And>vs. length vs = length keys \<Longrightarrow> substitute_once (zip keys vs) ?rest = Some (fill vs pieces)" by blast
    have "template = take pos template @ keys ! i @ ?rest"
      using there by (metis append_take_drop_id drop_drop add.commute)
    then have "fill keys (Literal (take pos template) # Place i # pieces) = template" using pieces(1) by (simp add: fill_def)
    moreover have "substitute_once (zip keys vs) template = Some (fill vs (Literal (take pos template) # Place i # pieces))"
      if "length vs = length keys" for vs
      using that pieces(2) [OF that] by (subst substitute_once.simps) (simp add: next_match_place place fill_def)
    ultimately show ?thesis by blast
  qed
qed

text \<open>C17: A judge reads its template as its author wrote it: the template alone decides where the rubric, the output and the tool
  calls go, and each is pasted there verbatim. An output that contains a placeholder, or anything else, cannot change
  the rest of the message or put the rubric somewhere else; and the substitution always ends.\<close>

theorem judge_message_verbatim:
  assumes "read_grader_template fs spec dir = Inr text"
  shows "(\<exists>pieces. fill [''{{rubric}}'', ''{{output}}''] pieces = text
      \<and> (\<forall>rubric out. \<not> str_contains text TOOL_CALLS_PLACEHOLDER \<longrightarrow>
            render_grader_template fs spec dir rubric out None = Some (Inr (fill [rubric, out] pieces))))
    \<and> (\<exists>pieces. fill [''{{rubric}}'', ''{{output}}'', TOOL_CALLS_PLACEHOLDER] pieces = text
      \<and> (\<forall>rubric out made. str_contains text TOOL_CALLS_PLACEHOLDER \<longrightarrow>
            render_grader_template fs spec dir rubric out (Some made) = Some (Inr (fill [rubric, out, made] pieces))))"
proof
  obtain pieces where p: "fill [''{{rubric}}'', ''{{output}}''] pieces = text"
      "\<forall>vs. length vs = length [''{{rubric}}'', ''{{output}}''] \<longrightarrow> substitute_once (zip [''{{rubric}}'', ''{{output}}''] vs) text = Some (fill vs pieces)"
    using pasted [of "[''{{rubric}}'', ''{{output}}'']" "text"] by auto
  have "render_grader_template fs spec dir rubric out None = Some (Inr (fill [rubric, out] pieces))"
    if "\<not> str_contains text TOOL_CALLS_PLACEHOLDER" for rubric out
    using that p(2) [THEN spec [of _ "[rubric, out]"]] by (simp add: render_grader_template_def assms grader_replacements_def)
  then show "\<exists>pieces. fill [''{{rubric}}'', ''{{output}}''] pieces = text
      \<and> (\<forall>rubric out. \<not> str_contains text TOOL_CALLS_PLACEHOLDER \<longrightarrow>
            render_grader_template fs spec dir rubric out None = Some (Inr (fill [rubric, out] pieces)))" using p(1) by blast
next
  obtain pieces where p: "fill [''{{rubric}}'', ''{{output}}'', TOOL_CALLS_PLACEHOLDER] pieces = text"
      "\<forall>vs. length vs = length [''{{rubric}}'', ''{{output}}'', TOOL_CALLS_PLACEHOLDER]
        \<longrightarrow> substitute_once (zip [''{{rubric}}'', ''{{output}}'', TOOL_CALLS_PLACEHOLDER] vs) text = Some (fill vs pieces)"
    using pasted [of "[''{{rubric}}'', ''{{output}}'', TOOL_CALLS_PLACEHOLDER]" "text"] by (auto simp: TOOL_CALLS_PLACEHOLDER_def)
  have "render_grader_template fs spec dir rubric out (Some made) = Some (Inr (fill [rubric, out, made] pieces))"
    if "str_contains text TOOL_CALLS_PLACEHOLDER" for rubric out made
    using that p(2) [THEN spec [of _ "[rubric, out, made]"]] by (simp add: render_grader_template_def assms grader_replacements_def)
  then show "\<exists>pieces. fill [''{{rubric}}'', ''{{output}}'', TOOL_CALLS_PLACEHOLDER] pieces = text
      \<and> (\<forall>rubric out made. str_contains text TOOL_CALLS_PLACEHOLDER \<longrightarrow>
            render_grader_template fs spec dir rubric out (Some made) = Some (Inr (fill [rubric, out, made] pieces)))" using p(1) by blast
qed

theorem judge_message_verbatim_witness:
  "\<exists>pieces. fill [''{{rubric}}'', ''{{output}}''] pieces = ''Q: {{rubric}} A: {{output}}''
    \<and> render_grader_template \<lparr>fs_canonicalize = Some, fs_content = \<lambda>_. Inr ''Q: {{rubric}} A: {{output}}''\<rparr> ''file://t'' None ''r'' ''{{rubric}}'' None
      = Some (Inr (fill [''r'', ''{{rubric}}''] pieces))"
proof -
  have read: "read_grader_template \<lparr>fs_canonicalize = Some, fs_content = \<lambda>_. Inr ''Q: {{rubric}} A: {{output}}''\<rparr> ''file://t'' None
      = Inr ''Q: {{rubric}} A: {{output}}''"
    by (simp add: read_grader_template_def read_to_string_def)
  have "\<not> str_contains ''Q: {{rubric}} A: {{output}}'' TOOL_CALLS_PLACEHOLDER" by (simp add: TOOL_CALLS_PLACEHOLDER_def)
  with judge_message_verbatim [OF read] show ?thesis by blast
qed

section \<open>Verdicts\<close>

lemma verdict_score: "verdict_from_json rd v = Inr verdict \<Longrightarrow> 0 \<le> jv_score verdict \<and> jv_score verdict \<le> 1"
  by (auto simp: verdict_from_json_def clamp_unit_def split: option.splits)

lemma verdict_priced_parts [simp]: "jv_score (verdict_priced payload usage rate v) = jv_score v"
  "jv_pass (verdict_priced payload usage rate v) = jv_pass v" "jv_reasoning (verdict_priced payload usage rate v) = jv_reasoning v"
  by (simp_all add: verdict_priced_def)

text \<open>C32: A rubric's score is a share: whatever number a judge reports, the score that is kept lies between 0 and 1; and a reply
  that was cut off is never taken for a verdict.\<close>

theorem verdicts_are_shares:
  assumes "judge_parse rd j rate payload = Inr verdict"
  shows "0 \<le> jv_score verdict \<and> jv_score verdict \<le> 1
    \<and> (j = JudgeAnthropic \<longrightarrow> get_str payload ''stop_reason'' \<noteq> Some ''max_tokens'')
    \<and> (j = JudgeOpenai \<longrightarrow> Option.bind (first_choice payload) (\<lambda>c. get_str c ''finish_reason'') \<noteq> Some ''length'')"
proof -
  obtain v usage inner where inner: "verdict_from_json rd v = Inr inner" "verdict = verdict_priced payload usage rate inner"
    using assms by (auto simp: judge_parse_def bind_sum_def map_sum_Inr split: sum.splits)
  have "j = JudgeAnthropic \<longrightarrow> get_str payload ''stop_reason'' \<noteq> Some ''max_tokens''"
    "j = JudgeOpenai \<longrightarrow> Option.bind (first_choice payload) (\<lambda>c. get_str c ''finish_reason'') \<noteq> Some ''length''"
    using assms by (auto simp: judge_parse_def anthropic_verdict_input_def openai_verdict_input_def Let_def)
  then show ?thesis using verdict_score [OF inner(1)] inner(2) by simp
qed

theorem verdicts_are_shares_witness:
  "\<exists>verdict. judge_parse \<lparr>rd_f64 = \<lambda>n. 7, rd_to_string = \<lambda>_. [], rd_parse = \<lambda>_. Inr (JObject [(''pass'', JBool True), (''score'', JNumber (PosInt 7))]),
      rd_from_str = \<lambda>_. None\<rparr> JudgeOpenai None (JObject [(''choices'', JArray [JObject [(''message'', JObject [(''content'', JString ''x'')])]])])
    = Inr verdict \<and> 0 \<le> jv_score verdict \<and> jv_score verdict \<le> 1"
proof -
  let ?rd = "\<lparr>rd_f64 = \<lambda>n. 7, rd_to_string = \<lambda>_. [], rd_parse = \<lambda>_. Inr (JObject [(''pass'', JBool True), (''score'', JNumber (PosInt 7))]),
    rd_from_str = \<lambda>_. None\<rparr>"
  let ?payload = "JObject [(''choices'', JArray [JObject [(''message'', JObject [(''content'', JString ''x'')])]])]"
  obtain verdict where "judge_parse ?rd JudgeOpenai None ?payload = Inr verdict"
    by (simp add: judge_parse_def openai_verdict_input_def first_choice_def json_get_def as_array_def as_str_def first_opt_def
        verdict_from_json_def as_bool_def as_number_def)
  from verdicts_are_shares [OF this] this show ?thesis by blast
qed

end
