(* ===== verification/Exec.thy ===== *)
theory Exec
  imports Requests
begin

text \<open>
  Child processes: the runner of a command (\<open>crates/domarinn-core/src/exec.rs\<close>), the messages of the exec protocol
  (\<open>crates/domarinn-protocol\<close>), the digests of a program that older keys were made of (\<open>cache_migrate.rs\<close>) and the
  \<open>exec\<close> provider (\<open>exec_provider.rs\<close>). The operating system, the decoders that \<open>serde\<close> derives and BLAKE3 are
  parameters.
\<close>

section \<open>Model\<close>

subsection \<open>Running a command (\<open>exec.rs\<close>)\<close>

datatype ExecError =
    Spawn "string list" string
  | Timeout "string list" nat
  | NonZero "string list" "int option" string
  | BadJson "string list" string
  | ExecIo "string list" string

record ExecJob =
  ej_command :: "string list"
  ej_env :: "(string \<times> string) list"
  ej_cwd :: "path option"

text \<open>What a started child comes to: its standard input breaks, collecting its output fails, it outlives its timeout, or it
  exits, with the texts of its streams.\<close>

datatype ChildEnd =
    StdinBroken string
  | CollectFailed string
  | Outlived
  | Exited bool "int option" string string

record 'w host =
  ho_spawn :: "ExecJob \<Rightarrow> 'w \<Rightarrow> (string + nat) \<times> 'w"
  ho_finish :: "nat \<Rightarrow> json \<Rightarrow> duration \<Rightarrow> 'w \<Rightarrow> ChildEnd \<times> 'w"
  ho_parse_json :: "string \<Rightarrow> string + json"
  ho_debug :: "string list \<Rightarrow> string"

definition exec_error_text :: "(string list \<Rightarrow> string) \<Rightarrow> ExecError \<Rightarrow> string" where
  "exec_error_text dbg e = (case e of
       Spawn c source \<Rightarrow> ''spawning '' @ dbg c @ '': '' @ source
     | Timeout c ms \<Rightarrow> dbg c @ '' timed out after '' @ show_nat ms @ '' ms''
     | NonZero c code err \<Rightarrow> dbg c @ '' exited with '' @ (case code of None \<Rightarrow> ''None''
          | Some n \<Rightarrow> ''Some('' @ (if n < 0 then ''-'' else []) @ show_nat (nat \<bar>n\<bar>) @ '')'') @ '': '' @ err
     | BadJson c message \<Rightarrow> dbg c @ '' produced invalid JSON on stdout: '' @ message
     | ExecIo c source \<Rightarrow> ''i/o error running '' @ dbg c @ '': '' @ source)"

definition exec_is_retriable :: "ExecError \<Rightarrow> bool" where
  "exec_is_retriable e = (case e of Timeout _ _ \<Rightarrow> True | Spawn _ _ \<Rightarrow> True | _ \<Rightarrow> False)"

definition PROTOCOL_VERSION :: u32 where "PROTOCOL_VERSION = 1"

definition PROTOCOL_ENV :: string where "PROTOCOL_ENV = ''DOMARINN_PROTOCOL''"

text \<open>A request is a JSON value, so writing it out does not fail.\<close>

definition run_exec_raw ::
  "'w host \<Rightarrow> string list \<Rightarrow> (string \<times> string) list \<Rightarrow> path option \<Rightarrow> duration \<Rightarrow> json \<Rightarrow> 'w \<Rightarrow> (ExecError + string) \<times> 'w" where
  "run_exec_raw ho command env cwd timeout request w =
     (if command = [] then (Inl (Spawn command ''empty command''), w)
      else let (child, w) = ho_spawn ho \<lparr>ej_command = command, ej_env = (PROTOCOL_ENV, show_nat PROTOCOL_VERSION) # env, ej_cwd = cwd\<rparr> w
           in case child of
                Inl source \<Rightarrow> (Inl (Spawn command source), w)
              | Inr pid \<Rightarrow> (let (finished, w) = ho_finish ho pid request timeout w
                  in (case finished of
                        StdinBroken source \<Rightarrow> Inl (ExecIo command source)
                      | CollectFailed source \<Rightarrow> Inl (ExecIo command source)
                      | Outlived \<Rightarrow> Inl (Timeout command (timeout div 1000000))
                      | Exited success code out err \<Rightarrow> if success then Inr out else Inl (NonZero command code (trim err)), w)))"

definition run_exec_json ::
  "'w host \<Rightarrow> string list \<Rightarrow> (string \<times> string) list \<Rightarrow> path option \<Rightarrow> duration \<Rightarrow> json \<Rightarrow> 'w \<Rightarrow> (ExecError + json) \<times> 'w" where
  "run_exec_json ho command env cwd timeout request w =
     (let (out, w) = run_exec_raw ho command env cwd timeout request w
      in (bind_sum out (\<lambda>text. map_sum (BadJson command) id (ho_parse_json ho (trim text))), w))"

subsection \<open>Programs and their digests (\<open>exec.rs\<close>, \<open>cache_migrate.rs\<close>)\<close>

record FileMeta =
  fm_is_file :: bool
  fm_len :: nat
  fm_mtime :: "(nat \<times> nat) option"

text \<open>The file system as the digests see it: metadata, the bytes read and whether the reading reached the end, and the
  directories of \<open>PATH\<close>.\<close>

record programs =
  pg_meta :: "path \<Rightarrow> FileMeta option"
  pg_read :: "path \<Rightarrow> nat list \<times> bool"
  pg_search_path :: "path list option"
  pg_blake3 :: "nat list \<Rightarrow> string"

definition MAX_HASHED_BYTES :: nat where "MAX_HASHED_BYTES = 268435456"

definition path_lookup :: "programs \<Rightarrow> string \<Rightarrow> path option" where
  "path_lookup pg name = Option.bind (pg_search_path pg) (\<lambda>dirs.
     find (\<lambda>p. case pg_meta pg p of Some meta \<Rightarrow> fm_is_file meta | None \<Rightarrow> False)
       (map (\<lambda>dir. path_join dir (path_components name)) dirs))"

definition resolve_program_arg :: "programs \<Rightarrow> string \<Rightarrow> bool \<Rightarrow> path option \<Rightarrow> path option" where
  "resolve_program_arg pg arg is_program base_dir =
     (let p = path_components arg
      in if arg = [] then None
         else if is_absolute p then Some p
         else if is_program \<and> length p = 1 then path_lookup pg arg
         else Some (case base_dir of Some dir \<Rightarrow> path_join dir p | None \<Rightarrow> p))"

definition le_bytes :: "u64 \<Rightarrow> nat list" where
  "le_bytes n = map (\<lambda>k. n div 256 ^ k mod 256) [0..<8]"

text \<open>A regular file an argument of a command names.\<close>

definition program_file :: "programs \<Rightarrow> path option \<Rightarrow> nat \<times> string \<Rightarrow> (path \<times> FileMeta) option" where
  "program_file pg base_dir = (\<lambda>(i, arg). Option.bind (resolve_program_arg pg arg (i = 0) base_dir) (\<lambda>p.
     Option.bind (pg_meta pg p) (\<lambda>meta. then_some (fm_is_file meta) (p, meta))))"

definition hashed_bytes :: "programs \<Rightarrow> path option \<Rightarrow> nat \<times> string \<Rightarrow> nat list option" where
  "hashed_bytes pg base_dir arg = map_option (\<lambda>(p, meta).
     le_bytes (fst arg) @ (if fm_len meta > MAX_HASHED_BYTES then le_bytes (fm_len meta)
       else fst (pg_read pg p) @ (if snd (pg_read pg p) then [] else le_bytes (fm_len meta)))) (program_file pg base_dir arg)"

definition program_digest :: "programs \<Rightarrow> string list \<Rightarrow> path option \<Rightarrow> string option" where
  "program_digest pg command base_dir =
     (let found = List.map_filter (hashed_bytes pg base_dir) (enumerate 0 command)
      in then_some (found \<noteq> []) (''blake3:'' @ pg_blake3 pg (concat found)))"

definition opt_json :: "string option \<Rightarrow> json" where
  "opt_json s = (case s of None \<Rightarrow> JNull | Some s \<Rightarrow> JString s)"

definition nat_json :: "nat \<Rightarrow> json" where
  "nat_json n = JNumber (PosInt n)"

definition strings_json :: "string list \<Rightarrow> json" where
  "strings_json ss = JArray (map JString ss)"

definition program_by_stat :: "string \<Rightarrow> FileMeta \<Rightarrow> json" where
  "program_by_stat arg meta = JObject [(''path'', JString arg), (''len'', nat_json (fm_len meta)),
     (''mtime'', case fm_mtime meta of None \<Rightarrow> JNull | Some (secs, _) \<Rightarrow> nat_json secs),
     (''mtime_ns'', case fm_mtime meta of None \<Rightarrow> JNull | Some (_, nanos) \<Rightarrow> nat_json nanos)]"

definition program_by_content :: "programs \<Rightarrow> string \<Rightarrow> path \<times> FileMeta \<Rightarrow> json" where
  "program_by_content pg arg = (\<lambda>(p, meta).
     if fm_len meta \<le> MAX_HASHED_BYTES \<and> snd (pg_read pg p)
     then JObject [(''path'', JString arg), (''content'', JString (''blake3:'' @ pg_blake3 pg (fst (pg_read pg p))))]
     else program_by_stat arg meta)"

definition legacy_programs :: "programs \<Rightarrow> string list \<Rightarrow> path option \<Rightarrow> json \<times> json" where
  "legacy_programs pg command base_dir =
     (let found = List.map_filter (\<lambda>a. map_option (Pair (snd a)) (program_file pg base_dir a)) (enumerate 0 command)
      in (JArray (map (\<lambda>(arg, f). program_by_content pg arg f) found), JArray (map (\<lambda>(arg, f). program_by_stat arg (snd f)) found)))"

definition legacy_exec_shape :: "string list \<Rightarrow> (string \<times> json) list \<Rightarrow> string option \<Rightarrow> json" where
  "legacy_exec_shape command middle salt = JObject ([(''type'', JString ''exec''), (''command'', strings_json command)] @ middle
     @ [(''cache_salt'', opt_json salt)])"

definition legacy_exec_fingerprints :: "programs \<Rightarrow> string list \<Rightarrow> string option \<Rightarrow> string option \<Rightarrow> path option \<Rightarrow> json list" where
  "legacy_exec_fingerprints pg command env_digest salt base_dir =
     (let (by_content, by_stat) = legacy_programs pg command base_dir;
          with_env = map (\<lambda>program. legacy_exec_shape command [(''program'', program), (''env'', opt_json env_digest)] salt) [by_content, by_stat]
      in if env_digest \<noteq> None then with_env
         else with_env @ [legacy_exec_shape command [(''program'', by_stat)] salt, legacy_exec_shape command [] salt])"

subsection \<open>Protocol messages (\<open>domarinn-protocol\<close>)\<close>

datatype Kind = ProviderKind | AssertKind | GenerateTests

definition kind_text :: "Kind \<Rightarrow> string" where
  "kind_text k = (case k of ProviderKind \<Rightarrow> ''provider'' | AssertKind \<Rightarrow> ''assert'' | GenerateTests \<Rightarrow> ''generate_tests'')"

definition envelope_json :: "Kind \<Rightarrow> json" where
  "envelope_json k = JObject [(''protocol'', nat_json PROTOCOL_VERSION), (''kind'', JString (kind_text k))]"

definition test_ref_json :: "string \<Rightarrow> string list \<Rightarrow> json" where
  "test_ref_json i tags = JObject [(''id'', JString i), (''tags'', strings_json tags)]"

definition protocol_tool_json :: "ToolDef \<Rightarrow> json" where
  "protocol_tool_json t = JObject ([(''name'', JString (td_name t))]
     @ opt_member ''description'' (map_option JString (td_description t))
     @ [(''input_schema'', unwrap_or (td_input_schema t) JNull)])"

record ExecUsage =
  eu_input_tokens :: u64
  eu_output_tokens :: u64
  eu_cache_read_tokens :: "u64 option"
  eu_cache_write_tokens :: "u64 option"
  eu_cache_write_1h_tokens :: "u64 option"

record ProtocolError =
  xpe_message :: string
  xpe_retriable :: bool
  xpe_details :: "json option"
  xpe_class :: "string option"
  xpe_retry_after_ms :: "u64 option"

record ProviderResp =
  ps_output :: json
  ps_usage :: "ExecUsage option"
  ps_cost_usd :: "f64 option"
  ps_error :: "ProtocolError option"
  ps_metadata :: "json option"
  ps_stop_reason :: "string option"
  ps_empty_reason :: "string option"
  ps_reasoning :: "string option"
  ps_model :: "string option"
  ps_tool_calls :: "ToolCall list"

subsection \<open>The provider (\<open>exec_provider.rs\<close>)\<close>

record ExecProvider =
  xp_id :: string
  xp_command :: "string list"
  xp_env :: "(string \<times> string) list"
  xp_timeout :: duration
  xp_cache_salt :: "string option"
  xp_env_digest :: "string option"
  xp_program_digest :: "string option"
  xp_legacy :: "json list"

definition DEFAULT_TIMEOUT_MS :: nat where "DEFAULT_TIMEOUT_MS = 60000"

definition env_digest :: "hashing \<Rightarrow> (string \<Rightarrow> string) \<Rightarrow> (string \<times> string) list \<Rightarrow> string option" where
  "env_digest h blake3 env =
     (if env = [] then None
      else Some (''blake3:'' @ blake3 (canonical_json (num_text h) (str_text h) (JObject (map (map_prod id JString) env)))))"

definition exec_new ::
  "hashing \<Rightarrow> (string \<Rightarrow> string) \<Rightarrow> programs \<Rightarrow> string \<Rightarrow> string list \<Rightarrow> (string \<times> string) list \<Rightarrow> u64 option \<Rightarrow> string option \<Rightarrow> path option
   \<Rightarrow> ExecProvider" where
  "exec_new h blake3 pg pid command env timeout_ms salt base_dir =
     (let env_d = env_digest h blake3 env
      in \<lparr>xp_id = pid, xp_command = command, xp_env = env, xp_timeout = unwrap_or timeout_ms DEFAULT_TIMEOUT_MS * 1000000,
          xp_cache_salt = salt, xp_env_digest = env_d, xp_program_digest = program_digest pg command base_dir,
          xp_legacy = legacy_exec_fingerprints pg command env_d salt base_dir\<rparr>)"

definition exec_fingerprint :: "ExecProvider \<Rightarrow> json" where
  "exec_fingerprint p = JObject [(''type'', JString ''exec''), (''command'', strings_json (xp_command p)),
     (''env'', opt_json (xp_env_digest p)), (''cache_salt'', opt_json (xp_cache_salt p))]"

definition exec_legacy_fingerprints :: "ExecProvider \<Rightarrow> json list" where
  "exec_legacy_fingerprints p = exec_fingerprint p # xp_legacy p"

definition rendered_prompt_json :: "RenderedPrompt \<Rightarrow> json" where
  "rendered_prompt_json prompt = (case prompt of
       PromptText t \<Rightarrow> JObject [(''text'', JString t)]
     | PromptMessages msgs \<Rightarrow> JObject [(''messages'', JArray (map message_json msgs))])"

definition protocol_request :: "ProviderRequest \<Rightarrow> (string \<times> json) list" where
  "protocol_request req =
     [(''domarinn'', envelope_json ProviderKind)]
     @ opt_member ''prompt'' (map_option rendered_prompt_json (rq_prompt req))
     @ [(''vars'', JObject (rq_vars req)), (''params'', JObject (rq_params req)),
        (''test'', test_ref_json (tm_id (rq_test req)) (tm_tags (rq_test req)))]
     @ (if rq_tools req = [] then [] else [(''tools'', JArray (map protocol_tool_json (rq_tools req)))])"

text \<open>\<open>Map::remove\<close> puts the last member where the removed one was.\<close>

definition swap_remove :: "string \<Rightarrow> (string \<times> json) list \<Rightarrow> (string \<times> json) list" where
  "swap_remove k ms =
     (if map_of ms k = None then ms
      else if fst (last ms) = k then butlast ms
      else map (\<lambda>m. if fst m = k then last ms else m) (butlast ms))"

definition child_class :: "string option \<Rightarrow> ErrorClass" where
  "child_class cls = (case cls of
       Some c \<Rightarrow> if c = [] \<or> gate_fault c = Suite then EXEC_FAILED else c
     | None \<Rightarrow> EXEC_FAILED)"

definition parse_response :: "(json \<Rightarrow> string + ProviderResp) \<Rightarrow> json \<Rightarrow> ProviderError + ProviderResponse" where
  "parse_response decode v = (case decode v of
       Inl e \<Rightarrow> Inl (Fatal (''bad provider response: '' @ e) EXEC_FAILED None)
     | Inr resp \<Rightarrow> (case ps_error resp of
         Some err \<Rightarrow>
           (let details = or_else (xpe_details err) (ps_metadata resp)
            in Inl (if xpe_retriable err
                    then Retriable (xpe_message err) (map_option (\<lambda>ms. ms * 1000000) (xpe_retry_after_ms err)) (child_class (xpe_class err)) details
                    else Fatal (xpe_message err) (child_class (xpe_class err)) details))
       | None \<Rightarrow>
           (let out = (case ps_output resp of JString s \<Rightarrow> Text s | other \<Rightarrow> Json other);
                given = Option.bind (ps_empty_reason resp) (\<lambda>r. then_some (r \<noteq> []) r)
            in Inr \<lparr>pr_output = out,
                 pr_usage = map_option (\<lambda>u. \<lparr>input_tokens = eu_input_tokens u, output_tokens = eu_output_tokens u,
                   cache_read_tokens = eu_cache_read_tokens u, cache_write_tokens = eu_cache_write_tokens u,
                   cache_write_1h_tokens = eu_cache_write_1h_tokens u\<rparr>) (ps_usage resp),
                 pr_cost_usd = ps_cost_usd resp, pr_stop_reason = ps_stop_reason resp, pr_raw = ps_metadata resp,
                 pr_tool_calls = ps_tool_calls resp, pr_reasoning = ps_reasoning resp,
                 pr_empty_reason = or_else given (Option.bind (classify_blank out) (\<lambda>_. Option.bind (ps_stop_reason resp) from_stop_reason)),
                 pr_model = ps_model resp\<rparr>)))"

definition exec_failure :: "'w host \<Rightarrow> ExecError \<Rightarrow> ProviderError" where
  "exec_failure ho e =
     (let text = exec_error_text (ho_debug ho) e
      in case e of
           Timeout _ _ \<Rightarrow> Retriable text None PROVIDER_TIMEOUT None
         | _ \<Rightarrow> if exec_is_retriable e then Retriable text None EXEC_FAILED None else Fatal text EXEC_FAILED None)"

definition exec_call ::
  "'w host \<Rightarrow> (json \<Rightarrow> string + ProviderResp) \<Rightarrow> path option \<Rightarrow> ExecProvider \<Rightarrow> ProviderRequest \<Rightarrow> 'w
   \<Rightarrow> (ProviderError + ProviderResponse) \<times> 'w" where
  "exec_call ho decode cwd p req w =
     (let (answer, w) = run_exec_json ho (xp_command p) (xp_env p) cwd (xp_timeout p) (JObject (protocol_request req)) w
      in (bind_sum (map_sum (exec_failure ho) id answer) (parse_response decode), w))"

definition exec_preview :: "ExecProvider \<Rightarrow> ProviderRequest \<Rightarrow> json option" where
  "exec_preview p req = (case xp_command p of [] \<Rightarrow> None
     | command # args \<Rightarrow> Some (exec_request_preview command args (JObject (protocol_request req))))"

definition exec_canonical :: "ExecProvider \<Rightarrow> ProviderRequest \<Rightarrow> json option" where
  "exec_canonical p req = (case xp_command p of [] \<Rightarrow> None
     | command # args \<Rightarrow> Some (case exec_request_preview command args (JObject (swap_remove ''test'' (protocol_request req))) of
         JObject members \<Rightarrow> JObject (case xp_env_digest p of Some d \<Rightarrow> members_insert ''env_digest'' (JString d) members | None \<Rightarrow> members)
       | other \<Rightarrow> other))"

section \<open>What the key of a child process sees\<close>

lemma without_test:
  "swap_remove ''test'' (protocol_request req) =
     (let front = [(''domarinn'', envelope_json ProviderKind)] @ opt_member ''prompt'' (map_option rendered_prompt_json (rq_prompt req))
            @ [(''vars'', JObject (rq_vars req)), (''params'', JObject (rq_params req))]
      in if rq_tools req = [] then front else front @ [(''tools'', JArray (map protocol_tool_json (rq_tools req)))])"
  by (simp add: swap_remove_def protocol_request_def opt_member_def Let_def split: option.split)

lemma canonical_without_test:
  assumes "xp_command p \<noteq> []"
  shows "exec_canonical p req = exec_canonical p req'
    \<longleftrightarrow> swap_remove ''test'' (protocol_request req) = swap_remove ''test'' (protocol_request req')"
  using assms by (auto simp: exec_canonical_def exec_request_preview_def split: list.split option.split)

text \<open>C19: The key of an exec provider sees all the child can see but the test: two requests have the same canonical form exactly
  when they agree on the prompt, the variables, the parameters and the tools, as the child would read them; the id and
  the tags of the test make no difference.\<close>

theorem exec_key_sees_all_but_test:
  assumes "xp_command p \<noteq> []"
  shows "exec_canonical p req = exec_canonical p req' \<longleftrightarrow>
      map_option rendered_prompt_json (rq_prompt req) = map_option rendered_prompt_json (rq_prompt req')
    \<and> rq_vars req = rq_vars req' \<and> rq_params req = rq_params req'
    \<and> map protocol_tool_json (rq_tools req) = map protocol_tool_json (rq_tools req')"
  unfolding canonical_without_test [OF assms] without_test
  by (cases "rq_prompt req"; cases "rq_prompt req'") (auto simp: opt_member_def Let_def)

definition bare_exec :: ExecProvider where
  "bare_exec = \<lparr>xp_id = ''p'', xp_command = [''run''], xp_env = [], xp_timeout = 1, xp_cache_salt = None, xp_env_digest = Some ''d'',
     xp_program_digest = None, xp_legacy = []\<rparr>"

definition exec_request :: ProviderRequest where
  "exec_request = \<lparr>rq_prompt = None, rq_vars = [], rq_params = [], rq_test = \<lparr>tm_id = ''t'', tm_tags = []\<rparr>, rq_case_salt = None, rq_tools = []\<rparr>"

theorem exec_key_sees_all_but_test_witness:
  "exec_canonical bare_exec exec_request = exec_canonical bare_exec (exec_request\<lparr>rq_test := \<lparr>tm_id = ''u'', tm_tags = [''slow'']\<rparr>\<rparr>)"
  by (subst exec_key_sees_all_but_test) (simp_all add: bare_exec_def)

section \<open>Whose fault a failing child is\<close>

lemma child_class_harness: "gate_fault (child_class cls) = Harness"
  by (auto simp: child_class_def gate_fault_def error_class_defs split: option.splits)

lemma exec_failure_harness: "gate_fault (error_class (exec_failure ho e)) = Harness"
  by (cases e) (simp_all add: exec_failure_def exec_is_retriable_def error_class_def gate_fault_def error_class_defs Let_def)

lemma parse_response_harness: "parse_response decode v = Inl e \<Longrightarrow> gate_fault (error_class e) = Harness"
proof -
  have failed: "gate_fault EXEC_FAILED = Harness" using child_class_harness [of None] by (simp add: child_class_def)
  show "parse_response decode v = Inl e \<Longrightarrow> gate_fault (error_class e) = Harness"
    using failed child_class_harness
    by (auto simp: parse_response_def error_class_def Let_def split: sum.splits option.splits if_splits)
qed

text \<open>C29: A child cannot blame the suite: whatever its process does and whatever class of error it claims, a failing call is filed
  as a fault of the harness, so it never counts as a failure of the case under test.\<close>

theorem child_never_blames_suite:
  assumes "exec_call ho decode cwd p req w = (Inl e, w')"
  shows "gate_fault (error_class e) = Harness"
proof -
  obtain answer where "run_exec_json ho (xp_command p) (xp_env p) cwd (xp_timeout p) (JObject (protocol_request req)) w = (answer, w')"
    and "bind_sum (map_sum (exec_failure ho) id answer) (parse_response decode) = Inl e"
    using assms by (auto simp: exec_call_def Let_def split: prod.splits)
  then show ?thesis using exec_failure_harness [of ho] parse_response_harness [of decode] by (cases answer) auto
qed

definition failing_host :: "nat host" where
  "failing_host = \<lparr>ho_spawn = \<lambda>_ w. (Inl ''not found'', w), ho_finish = \<lambda>_ _ _ w. (Outlived, w), ho_parse_json = \<lambda>_. Inl [], ho_debug = \<lambda>_. []\<rparr>"

theorem child_never_blames_suite_witness:
  "\<exists>e. exec_call failing_host (\<lambda>_. Inl []) None bare_exec exec_request 0 = (Inl e, 0) \<and> gate_fault (error_class e) = Harness"
proof -
  have "exec_call failing_host (\<lambda>_. Inl []) None bare_exec exec_request 0 = (Inl (exec_failure failing_host (Spawn [''run''] ''not found'')), 0)"
    by (simp add: exec_call_def run_exec_json_def run_exec_raw_def failing_host_def bare_exec_def)
  from child_never_blames_suite [OF this] this show ?thesis by blast
qed

end
