(* ===== verification/Graders.thy ===== *)
theory Graders
  imports RunnerAsserts Judge Exec
begin

text \<open>
  The default grader (\<open>crates/domarinn-core/src/grader.rs\<close>) with its three kinds of assertion, the embeddings provider behind
  \<open>similar\<close> (\<open>embeddings.rs\<close>) and the identities older verdicts were filed under (\<open>cache_migrate.rs\<close>). Everything outside
  the repository is gathered in a record; the memo of the judge's rates, which only saves lookups, is not modelled. The two
  embeddings of a \<open>similar\<close> assertion run concurrently; they are modelled one after the other.
\<close>

section \<open>Model\<close>

record AssertResp =
  asr_pass :: bool
  asr_score :: "f64 option"
  asr_reason :: "string option"
  asr_details :: "json option"

record 'w judging =
  jk_env :: "'w env"
  jk_http :: "'w http"
  jk_host :: "'w host"
  jk_engine :: engine
  jk_files :: files
  jk_rates :: RateTable
  jk_reader :: reader
  jk_pretty :: "json \<Rightarrow> string option"
  jk_parse_headers :: "string \<Rightarrow> string + json"
  jk_assert_resp :: "json \<Rightarrow> string + AssertResp"
  jk_debug_kind :: "ProviderKind \<Rightarrow> string"

subsection \<open>Embeddings (\<open>embeddings.rs\<close>)\<close>

definition EMBEDDINGS_PATH :: string where "EMBEDDINGS_PATH = ''/embeddings''"

record Embedded =
  ed_vector :: "f64 list"
  ed_usage :: "TokenUsage option"
  ed_cost :: "MicroUsd option"

record EmbeddingsProvider =
  eb_model :: string
  eb_base_url :: string
  eb_api_key_env :: EnvNames
  eb_params :: ParamMap
  eb_rate :: "ModelRate option"
  eb_request :: ResolvedRequest
  eb_cache_salt :: "string option"

definition embeddings_new ::
  "RateTable \<Rightarrow> string \<Rightarrow> string option \<Rightarrow> EnvNames option \<Rightarrow> ParamMap option \<Rightarrow> PricingCfg option \<Rightarrow> EmbeddingsProvider" where
  "embeddings_new tbl model base_url api_key_env params pricing =
     \<lparr>eb_model = model, eb_base_url = unwrap_or base_url OPENAI_BASE_URL, eb_api_key_env = unwrap_or api_key_env (One ''OPENAI_API_KEY''),
      eb_params = unwrap_or params [], eb_rate = snd (resolve_embedding_rate tbl model pricing),
      eb_request = vendor_default EMBEDDINGS_PATH Bearer, eb_cache_salt = None\<rparr>"

definition embeddings_with_request ::
  "hashing \<Rightarrow> (string \<Rightarrow> string) \<Rightarrow> (string \<Rightarrow> string + json) \<Rightarrow> engine \<Rightarrow> RequestCfg option \<Rightarrow> string option \<Rightarrow> EmbeddingsProvider
   \<Rightarrow> RequestError + EmbeddingsProvider" where
  "embeddings_with_request h blake3 parse en cfg salt p =
     bind_sum (resolve_request h blake3 parse en cfg EMBEDDINGS_PATH Bearer) (\<lambda>r. Inr (p\<lparr>eb_request := r, eb_cache_salt := salt\<rparr>))"

definition embeddings_request :: "EmbeddingsProvider \<Rightarrow> string \<Rightarrow> VendorCall" where
  "embeddings_request p text =
     vendor_call (trim_end_slashes (eb_base_url p)) (eb_request p)
       (JObject (members_insert ''input'' (JString text) (members_insert ''model'' (JString (eb_model p)) (fold insert_param (eb_params p) []))))"

definition call_canonical :: "VendorCall \<Rightarrow> json" where
  "call_canonical c = http_canonical_request ''POST'' (vc_path c) (vc_keyed_body c)"

definition call_legacy :: "VendorCall \<Rightarrow> json list" where
  "call_legacy c = legacy_url_shape (Some (call_canonical c)) (vc_url c)"

definition embeddings_post :: "'w http \<Rightarrow> engine \<Rightarrow> EmbeddingsProvider \<Rightarrow> string \<Rightarrow> json \<Rightarrow> 'w \<Rightarrow> (string + json) \<times> 'w" where
  "embeddings_post ht en p url body w =
     (case (if needs_credential (rr_auth (eb_request p)) then map_sum provider_error_text Some (api_key en (eb_api_key_env p)) else Inr None) of
        Inl e \<Rightarrow> (Inl e, w)
      | Inr key \<Rightarrow>
          (let (sent, w) = ht_send ht \<lparr>hr_url = url, hr_headers = call_headers (eb_request p) [] key, hr_body = body\<rparr> w
           in (case sent of
                 Inl e \<Rightarrow> Inl (xe_text e)
               | Inr reply \<Rightarrow>
                   if \<not> (200 \<le> hp_status reply \<and> hp_status reply \<le> 299)
                   then Inl (''HTTP '' @ show_nat (hp_status reply) @ '': '' @ unwrap_or (hp_text reply) [])
                   else map_sum xe_text id (hp_json reply), w)))"

definition embeddings_usage :: "json \<Rightarrow> TokenUsage option" where
  "embeddings_usage payload = map_option (\<lambda>n. \<lparr>input_tokens = n, output_tokens = 0, cache_read_tokens = None, cache_write_tokens = None,
     cache_write_1h_tokens = None\<rparr>) (Option.bind (json_get payload ''usage'') (\<lambda>u. get_u64 u ''prompt_tokens''))"

definition embeddings_parse :: "(number \<Rightarrow> f64) \<Rightarrow> EmbeddingsProvider \<Rightarrow> json \<Rightarrow> string + Embedded" where
  "embeddings_parse f64 p payload =
     (let first = Option.bind (Option.bind (json_get payload ''data'') as_array) first_opt;
          vector = map_option (\<lambda>arr. map f64 (List.map_filter as_number arr)) (Option.bind (Option.bind first (\<lambda>e. json_get e ''embedding'')) as_array);
          usage = embeddings_usage payload
      in case Option.bind vector (\<lambda>v. then_some (v \<noteq> []) v) of
           None \<Rightarrow> Inl ''embeddings response missing data[0].embedding''
         | Some v \<Rightarrow> Inr \<lparr>ed_vector = v, ed_usage = usage,
             ed_cost = Option.bind (eb_rate p) (\<lambda>rate. Option.bind usage (\<lambda>u. cost_of u rate))\<rparr>)"

definition cosine :: "f64 list \<Rightarrow> f64 list \<Rightarrow> f64" where
  "cosine a b =
     (if length a \<noteq> length b \<or> a = [] then 0
      else let (dot, na, nb) = fold (\<lambda>(x, y) (dot, na, nb). (dot + x * y, na + x * x, nb + y * y)) (zip a b) (0, 0, 0)
           in if na = 0 \<or> nb = 0 then 0 else dot / (sqrt na * sqrt nb))"

subsection \<open>Older identities (\<open>cache_migrate.rs\<close>)\<close>

definition params_json :: "ParamMap option \<Rightarrow> json" where
  "params_json p = (case p of None \<Rightarrow> JNull | Some ms \<Rightarrow> JObject ms)"

definition vendor_identity :: "string \<Rightarrow> VendorCfg \<Rightarrow> json" where
  "vendor_identity kind v = JObject [(''type'', JString kind), (''model'', JString (ve_model v)), (''base_url'', opt_json (ve_base_url v)),
     (''params'', params_json (ve_params v))]"

definition provider_identity :: "ProviderKind \<Rightarrow> json option" where
  "provider_identity k = (case k of
       KindAnthropic v \<Rightarrow> Some (vendor_identity ''anthropic'' v)
     | KindOpenai v \<Rightarrow> Some (vendor_identity ''openai'' v)
     | KindEmbeddings v \<Rightarrow> Some (vendor_identity ''embeddings'' v)
     | _ \<Rightarrow> None)"

definition verdict_mode_json :: "VerdictMode option \<Rightarrow> json" where
  "verdict_mode_json m = JString (case unwrap_or m Forced of Forced \<Rightarrow> ''forced'' | Auto \<Rightarrow> ''auto'')"

definition legacy_template_digest :: "files \<Rightarrow> (string \<Rightarrow> string) \<Rightarrow> string option \<Rightarrow> path option \<Rightarrow> json" where
  "legacy_template_digest fs blake3 spec base_dir = (case Option.bind spec (\<lambda>s. strip_prefix s ''file://'') of
       None \<Rightarrow> JNull
     | Some rel \<Rightarrow> (case (case base_dir of Some dir \<Rightarrow> resolve_within fs dir rel | None \<Rightarrow> Inr (path_components rel)) of
         Inl _ \<Rightarrow> JNull
       | Inr p \<Rightarrow> (case read_to_string fs p of Inr text \<Rightarrow> JString (''blake3:'' @ blake3 text) | Inl _ \<Rightarrow> JNull)))"

definition legacy_grading_fingerprint ::
  "files \<Rightarrow> (string \<Rightarrow> string) \<Rightarrow> Assert \<Rightarrow> Grader option \<Rightarrow> string \<Rightarrow> path option \<Rightarrow> json option" where
  "legacy_grading_fingerprint fs blake3 a default_grader system_prompt base_dir = (case as_kind a of
       LlmRubric _ grader _ params \<Rightarrow> Option.bind (or_else grader default_grader) (\<lambda>g.
         map_option (\<lambda>provider. JObject [(''assert'', JString ''llm-rubric''), (''provider'', provider), (''template'', opt_json (gd_template g)),
           (''template_digest'', legacy_template_digest fs blake3 (gd_template g) base_dir),
           (''verdict_mode'', verdict_mode_json (gd_verdict_mode g)), (''assert_params'', params_json params),
           (''system_prompt'', JString (blake3 system_prompt))]) (provider_identity (gd_provider g)))
     | Exec command _ salt \<Rightarrow> Some (JObject [(''assert'', JString ''exec''), (''command'', strings_json command), (''cache_salt'', opt_json salt)])
     | _ \<Rightarrow> None)"

definition legacy_graded_payload :: "serde \<Rightarrow> Assert \<Rightarrow> Output \<Rightarrow> string \<Rightarrow> 'c GradeCtx \<Rightarrow> json option" where
  "legacy_graded_payload sd a out rubric gc =
     (let output = unwrap_or (as_json sd out) (JString (as_text sd out))
      in case as_kind a of
           LlmRubric _ _ _ _ \<Rightarrow> Some (JObject [(''assert'', JString ''llm-rubric''), (''rubric'', JString rubric), (''output'', output)])
         | Exec _ config _ \<Rightarrow> Some (JObject [(''assert'', JString ''exec''), (''config'', unwrap_or config JNull), (''output'', output),
             (''vars'', gc_vars gc), (''test'', test_ref_json (gc_test_id gc) (gc_test_tags gc)),
             (''provider'', JObject [(''id'', JString (gc_provider_id gc))])])
         | _ \<Rightarrow> None)"

abbreviation working_path :: "'c GradeCtx \<Rightarrow> path option" where
  "working_path gc \<equiv> map_option path_components (gc_working_dir gc)"

definition legacy_verdict :: "'w judging \<Rightarrow> Grader option \<Rightarrow> Assert \<Rightarrow> Output \<Rightarrow> string \<Rightarrow> 'c GradeCtx \<Rightarrow> LegacyVerdict option" where
  "legacy_verdict jk default_grader a out rubric gc =
     Option.bind (legacy_grading_fingerprint (jk_files jk) (nv_blake3 (jk_env jk)) a default_grader SYSTEM_PROMPT (working_path gc)) (\<lambda>fingerprint.
     map_option (\<lambda>graded. \<lparr>lv_fingerprint = fingerprint, lv_graded = graded\<rparr>) (legacy_graded_payload (nv_serde (jk_env jk)) a out rubric gc))"

subsection \<open>The grader (\<open>grader.rs\<close>)\<close>

definition GRADER_TIMEOUT :: duration where "GRADER_TIMEOUT = 120000000000"

record DefaultGrader =
  dg_default :: "Grader option"
  dg_embeddings :: "EmbeddingsProvider option"
  dg_timeout :: duration

definition default_grader_new :: "Grader option \<Rightarrow> DefaultGrader" where
  "default_grader_new g = \<lparr>dg_default = g, dg_embeddings = None,
     dg_timeout = unwrap_or (map_option (\<lambda>ms. ms * 1000000) (Option.bind g gd_timeout_ms)) GRADER_TIMEOUT\<rparr>"

definition with_embeddings :: "EmbeddingsProvider \<Rightarrow> DefaultGrader \<Rightarrow> DefaultGrader" where
  "with_embeddings e dg = dg\<lparr>dg_embeddings := Some e\<rparr>"

definition output_to_json :: "Output \<Rightarrow> json" where
  "output_to_json out = (case out of Text s \<Rightarrow> JString s | Json v \<Rightarrow> v)"

definition assert_request :: "json option \<Rightarrow> Output \<Rightarrow> 'c GradeCtx \<Rightarrow> (string \<times> json) list" where
  "assert_request config out gc =
     [(''domarinn'', envelope_json Kind.AssertKind), (''output'', output_to_json out),
      (''test'', test_ref_json (gc_test_id gc) (gc_test_tags gc)), (''provider'', JObject [(''id'', JString (gc_provider_id gc))]),
      (''config'', unwrap_or config JNull), (''vars'', gc_vars gc)]
     @ (if gc_tool_calls gc = [] then [] else [(''tool_calls'', JArray (map tool_call_json (gc_tool_calls gc)))])"

definition exec_assert_canonical :: "string list \<Rightarrow> (string \<times> json) list \<Rightarrow> json" where
  "exec_assert_canonical command request =
     (let members = map (\<lambda>(k, v). (k, case v of JObject ms \<Rightarrow> if k = ''vars'' then JObject (swap_remove ''env'' ms) else v | _ \<Rightarrow> v))
            (swap_remove ''test'' request);
          (program, args) = (case command of p # a \<Rightarrow> (p, a) | [] \<Rightarrow> ([], []))
      in exec_request_preview program args (JObject members))"

definition exec_verdict :: "(json \<Rightarrow> string + AssertResp) \<Rightarrow> json \<Rightarrow> GraderError + GradedVerdict" where
  "exec_verdict decode payload = (case decode payload of
       Inl e \<Rightarrow> Inl (ExecFailed (''bad assert response: '' @ e))
     | Inr resp \<Rightarrow> Inr (ExecVerdict (asr_pass resp) (unwrap_or (asr_score resp) (if asr_pass resp then 1 else 0))
         (unwrap_or (asr_reason resp) []) (asr_details resp)))"

text \<open>An exchange does not panic (\<open>exchange_returns\<close> below), so its result is there.\<close>

definition grade_exec ::
  "'w judging \<Rightarrow> DefaultGrader \<Rightarrow> Assert \<Rightarrow> Output \<Rightarrow> 'c GradeCtx \<Rightarrow> ('c, 'w) World \<Rightarrow> (GraderError + Graded) \<times> ('c, 'w) World" where
  "grade_exec jk dg a out gc wd = (case as_kind a of
       Exec command config salt \<Rightarrow>
         (let request = assert_request config out gc;
              x = \<lparr>xg_canonical = exec_assert_canonical command request, xg_kind = EXEC_ASSERT, xg_case_salt = salt, xg_provider_salt = None,
                xg_legacy = (if gc_tool_calls gc = [] then legacy_verdict jk (dg_default dg) a out [] gc else None), xg_legacy_canonical = []\<rparr>;
              (served, wd) = cached_exchange (jk_env jk) (gc_cache gc) x (exec_verdict (jk_assert_resp jk))
                (\<lambda>v. \<lparr>em_output = Text (ao_reason (to_outcome v None)), em_usage = None, em_cost_usd = None, em_model = None\<rparr>)
                (\<lambda>key. CacheMiss (''cache-only: miss for the exec assert '' @ backtick (join '' '' command) @ '' on this case ('' @ show_key key @ '')''))
                0 (\<lambda>w. let (r, w) = run_exec_json (jk_host jk) command [] (working_path gc) (dg_timeout dg) (JObject request) w
                       in (map_sum (\<lambda>e. ExecFailed (exec_error_text (ho_debug (jk_host jk)) e)) id r, w)) wd
          in (map_sum id (\<lambda>s. case s of Verdict graded \<Rightarrow> graded | ParsedPayload p \<Rightarrow> (unpriced (pd_value p))\<lparr>gr_cached := pd_cached p\<rparr>)
                (the served), wd))
     | _ \<Rightarrow> (Inl (Internal ''grade_exec on a non-exec assert''), wd))"

definition embed_cached ::
  "'w judging \<Rightarrow> EmbeddingsProvider \<Rightarrow> string \<Rightarrow> 'c GradeCtx \<Rightarrow> ('c, 'w) World
   \<Rightarrow> (GraderError + Embedded Parsed) \<times> ('c, 'w) World" where
  "embed_cached jk p text gc wd =
     (let call = embeddings_request p text;
          x = \<lparr>xg_canonical = call_canonical call, xg_kind = EMBEDDING, xg_case_salt = None, xg_provider_salt = eb_cache_salt p,
            xg_legacy = None, xg_legacy_canonical = call_legacy call\<rparr>;
          (served, wd) = cached_exchange (jk_env jk) (gc_cache gc) x
            (\<lambda>payload. map_sum InvalidVerdict id (embeddings_parse (rd_f64 (jk_reader jk)) p payload))
            (\<lambda>e. \<lparr>em_output = Json (JObject [(''dims'', JNumber (PosInt (length (ed_vector e))))]), em_usage = ed_usage e,
              em_cost_usd = map_option to_usd (ed_cost e), em_model = None\<rparr>)
            (\<lambda>key. CacheMiss (''cache-only: miss for an embedding ('' @ show_key key @ '')''))
            0 (\<lambda>w. let (r, w) = embeddings_post (jk_http jk) (jk_engine jk) p (vc_url call) (vc_body call) w in (map_sum Transport id r, w)) wd
      in (bind_sum (the served) parsed_only, wd))"

definition similarity_cost :: "Embedded \<Rightarrow> Embedded \<Rightarrow> f64 option" where
  "similarity_cost a b = Option.bind (ed_cost a) (\<lambda>x. map_option (\<lambda>y. to_usd (saturating_add x y)) (ed_cost b))"

definition similarity :: "Embedded Parsed \<Rightarrow> Embedded Parsed \<Rightarrow> Graded" where
  "similarity a b =
     \<lparr>gr_verdict = Similarity (cosine (ed_vector (pd_value a)) (ed_vector (pd_value b))),
      gr_usage = sum_usage (ed_usage (pd_value a)) (ed_usage (pd_value b)), gr_cost_usd = similarity_cost (pd_value a) (pd_value b),
      gr_model = None, gr_cached = (pd_cached a \<and> pd_cached b)\<rparr>"

definition grade_similar ::
  "'w judging \<Rightarrow> DefaultGrader \<Rightarrow> Val \<Rightarrow> Output \<Rightarrow> 'c GradeCtx \<Rightarrow> ('c, 'w) World \<Rightarrow> (GraderError + Graded) \<times> ('c, 'w) World" where
  "grade_similar jk dg reference out gc wd = (case dg_embeddings dg of
       None \<Rightarrow> (Inl (Unconfigured ''similar''), wd)
     | Some p \<Rightarrow> (case render_val (en_render_str (jk_engine jk)) reference (gc_vars gc) of
         Inl e \<Rightarrow> (Inl (Misconfigured (''rendering reference: '' @ e)), wd)
       | Inr rendered \<Rightarrow>
           (let wanted = unwrap_or (as_str rendered) (rd_to_string (jk_reader jk) rendered);
                (a, wd) = embed_cached jk p (as_text (nv_serde (jk_env jk)) out) gc wd
            in case a of
                 Inl e \<Rightarrow> (Inl e, wd)
               | Inr a \<Rightarrow> (let (b, wd) = embed_cached jk p wanted gc wd in (map_sum id (similarity a) b, wd)))))"

text \<open>Which judge a grader's provider makes, with its block.\<close>

definition judge_of :: "(ProviderKind \<Rightarrow> string) \<Rightarrow> ProviderKind \<Rightarrow> GraderError + Judge \<times> VendorCfg" where
  "judge_of debug_kind k = (case k of
       KindAnthropic v \<Rightarrow> Inr (JudgeAnthropic, v)
     | KindOpenai v \<Rightarrow> Inr (JudgeOpenai, v)
     | other \<Rightarrow> Inl (Unsupported (debug_kind other) ''llm-rubric''))"

definition request_error_text :: "RequestError \<Rightarrow> string" where
  "request_error_text e = (case e of
       RequestRender field source \<Rightarrow> ''rendering '' @ backtick (''request.'' @ field) @ '': '' @ source
     | GlobalHeadersJson source \<Rightarrow> backtick GLOBAL_HEADERS_ENV @ '' is not valid JSON: '' @ source
         @ ''. Expected an object of header name to value, e.g. '' @ tick ''{\"x-egress\":\"gw-7\"}''
     | GlobalHeadersShape problem \<Rightarrow> backtick GLOBAL_HEADERS_ENV @ '' must be a JSON object of header name to string value, but '' @ problem)"

definition resolve_judge :: "'w judging \<Rightarrow> Judge \<Rightarrow> VendorCfg \<Rightarrow> ParamMap option \<Rightarrow> GraderError + ResolvedRequest \<times> ParamMap option" where
  "resolve_judge jk j v own_params =
     bind_sum (map_sum (\<lambda>e. Misconfigured (request_error_text e)) id
       (resolve_request (nv_hashing (jk_env jk)) (nv_blake3 (jk_env jk)) (jk_parse_headers jk) (jk_engine jk) (ve_request v)
         (fst (judge_defaults j)) (snd (judge_defaults j)))) (\<lambda>resolved.
     let params = merge_params (ve_params v) own_params
     in bind_sum (if j = JudgeAnthropic then reject_thinking params else Inr ()) (\<lambda>_. Inr (resolved, params)))"

definition rubric_graded :: "JudgeVerdict Served \<Rightarrow> Graded" where
  "rubric_graded s = (case s of
       Verdict graded \<Rightarrow> graded
     | ParsedPayload p \<Rightarrow> (let v = pd_value p
         in \<lparr>gr_verdict = RubricVerdict (jv_score v) (jv_pass v) (jv_reasoning v), gr_usage = jv_usage v,
             gr_cost_usd = or_else (jv_cost_usd v) (pd_stored_cost_usd p), gr_model = jv_model v, gr_cached = pd_cached p\<rparr>))"

definition ask_judge ::
  "'w judging \<Rightarrow> DefaultGrader \<Rightarrow> Grader \<Rightarrow> Judge \<Rightarrow> VendorCfg \<Rightarrow> ResolvedRequest \<Rightarrow> ParamMap option \<Rightarrow> string \<Rightarrow> string
   \<Rightarrow> Assert \<Rightarrow> Output \<Rightarrow> 'c GradeCtx \<Rightarrow> ('c, 'w) World \<Rightarrow> (GraderError + Graded) \<times> ('c, 'w) World" where
  "ask_judge jk dg grader j v resolved params rubric user a out gc wd =
     (let rate = snd (resolve_rate (jk_rates jk) (ve_model v) (ve_pricing v));
          call = judge_request j (ve_model v) (ve_base_url v) params user resolved;
          x = \<lparr>xg_canonical = call_canonical call, xg_kind = JUDGE, xg_case_salt = None, xg_provider_salt = ve_cache_salt v,
            xg_legacy = (if unwrap_or (gd_include_tool_calls grader) False then None else legacy_verdict jk (dg_default dg) a out rubric gc),
            xg_legacy_canonical = call_legacy call\<rparr>;
          (served, wd) = cached_exchange (jk_env jk) (gc_cache gc) x (judge_parse (jk_reader jk) j rate)
            (\<lambda>v. \<lparr>em_output = Text (jv_reasoning v), em_usage = jv_usage v, em_cost_usd = jv_cost_usd v, em_model = jv_model v\<rparr>)
            (\<lambda>key. CacheMiss (''cache-only: miss for the '' @ backtick (ve_model v) @ '' judge on this rubric ('' @ show_key key @ '')''))
            MAX_REASKS (post_judge (jk_http jk) (jk_engine jk) j (vc_url call) (vc_body call) (ve_api_key_env v) resolved) wd
      in (map_sum id rubric_graded (the served), wd))"

text \<open>Building the message ends (\<open>judge_message_verbatim\<close>), so its result is there.\<close>

definition grade_llm_rubric ::
  "'w judging \<Rightarrow> DefaultGrader \<Rightarrow> Assert \<Rightarrow> Output \<Rightarrow> 'c GradeCtx \<Rightarrow> ('c, 'w) World \<Rightarrow> (GraderError + Graded) \<times> ('c, 'w) World" where
  "grade_llm_rubric jk dg a out gc wd = (case as_kind a of
       LlmRubric template own _ own_params \<Rightarrow> (case or_else own (dg_default dg) of
         None \<Rightarrow> (Inl (Unconfigured ''llm-rubric''), wd)
       | Some grader \<Rightarrow> (case en_render_str (jk_engine jk) template (gc_vars gc) of
           Inl e \<Rightarrow> (Inl (Misconfigured (''rendering rubric: '' @ e)), wd)
         | Inr rubric \<Rightarrow> (case the (grading_user_message (jk_files jk) (jk_pretty jk) grader (working_path gc) rubric
               (as_text (nv_serde (jk_env jk)) out) (gc_tool_calls gc)) of
             Inl e \<Rightarrow> (Inl e, wd)
           | Inr user \<Rightarrow> (case judge_of (jk_debug_kind jk) (gd_provider grader) of
               Inl e \<Rightarrow> (Inl e, wd)
             | Inr (j, v) \<Rightarrow> (case resolve_judge jk j v own_params of
                 Inl e \<Rightarrow> (Inl e, wd)
               | Inr (resolved, params) \<Rightarrow> ask_judge jk dg grader j v resolved params rubric user a out gc wd)))))
     | _ \<Rightarrow> (Inl (Internal ''grade_llm_rubric on a non-rubric''), wd))"

definition default_grade :: "'w judging \<Rightarrow> DefaultGrader \<Rightarrow> ('c, 'w) AssertGrader" where
  "default_grade jk dg a out gc wd = (case as_kind a of
       Exec _ _ _ \<Rightarrow> grade_exec jk dg a out gc wd
     | LlmRubric _ _ _ _ \<Rightarrow> grade_llm_rubric jk dg a out gc wd
     | Similar reference _ \<Rightarrow> grade_similar jk dg reference out gc wd
     | _ \<Rightarrow> (Inl (Internal ''local assert routed to grader''), wd))"


section \<open>An exchange returns, and is offline in strict mode\<close>

lemma cache_get_world [simp]: "wd_world (snd (cache_get be k wd)) = wd_world wd"
  using cache_get_parts [of be k wd] by (cases "cache_get be k wd") simp

lemma probe_keys_world [simp]: "wd_world (snd (probe_keys halt be ks wd)) = wd_world wd"
  by (induction ks arbitrary: wd) (auto simp: case_prod_beta Let_def split: sum.split option.split)

lemma adopt_world [simp]:
  "wd_world (snd (grader_adopt_canonical env cache x wd)) = wd_world wd"
  "wd_world (snd (grader_adopt_legacy env cache x wd)) = wd_world wd"
  by (auto simp: grader_adopt_canonical_def grader_adopt_legacy_def Let_def case_prod_beta split: option.split sum.split)

lemma adopted_verdict: "fst (grader_adopt_legacy env cache x wd) = Some e \<Longrightarrow> \<exists>v. ce_verdict e = Some v"
  by (auto simp: grader_adopt_legacy_def Let_def case_prod_beta split: option.splits sum.splits if_splits)

lemma exchange_legacy_returns:
  "fst (exchange_legacy env cache x parse meta strict_miss reasks live key wd) \<noteq> None"
  using adopted_verdict [of env cache x wd]
  by (auto simp: exchange_legacy_def Let_def case_prod_beta split: option.split)

lemma exchange_returns: "\<exists>r. fst (cached_exchange env cache x parse meta strict_miss reasks live wd) = Some r"
  using exchange_legacy_returns
  by (auto simp: cached_exchange_def exchange_adopt_def Let_def case_prod_beta split: option.split)

lemma exchange_legacy_strict:
  assumes "rc_mode cache = ReadOnlyStrict" and "exchange_legacy env cache x parse meta strict_miss reasks live key wd = (r, wd')"
  shows "wd_world wd' = wd_world wd" and "r = Some (Inr s) \<Longrightarrow> served_cached s"
  using assms adopt_world(2) [of env cache x wd] adopted_verdict [of env cache x wd]
  by (auto simp: exchange_legacy_def Let_def case_prod_beta served_cached_def graded_of_def split: option.splits)

lemma exchange_strict:
  assumes "rc_mode cache = ReadOnlyStrict" and "cached_exchange env (Some cache) x parse meta strict_miss reasks live wd = (r, wd')"
  shows "wd_world wd' = wd_world wd" and "r = Some (Inr s) \<Longrightarrow> served_cached s"
proof -
  let ?key = "exchange_key (nv_hashing env) x (rc_repeat cache) (xg_canonical x)"
  obtain found wd1 where get: "cache_get (rc_backend cache) ?key wd = (found, wd1)" by fastforce
  have w1: "wd_world wd1 = wd_world wd" using cache_get_parts [OF get] by simp
  have all: "wd_world wd' = wd_world wd \<and> (\<forall>s. r = Some (Inr s) \<longrightarrow> served_cached s)"
  proof (cases "case found of Inr (Some entry) \<Rightarrow> serve parse entry | _ \<Rightarrow> None")
    case (Some s)
    then show ?thesis using assms(2) w1 get
      by (auto simp: cached_exchange_def Let_def dest: serve_cached split: sum.splits option.splits)
  next
    case None
    obtain adopted wd2 where adopt: "grader_adopt_canonical env cache x wd1 = (adopted, wd2)" by fastforce
    then have w2: "wd_world wd2 = wd_world wd" using adopt_world(1) [of env cache x wd1] w1 by simp
    show ?thesis
    proof (cases "Option.bind adopted (\<lambda>entry. map_option (Pair entry) (serve parse entry))")
      case None2: None
      have "exchange_legacy env cache x parse meta strict_miss reasks live ?key wd2 = (r, wd')"
        using assms(2) None get adopt None2 by (simp add: cached_exchange_def exchange_adopt_def Let_def)
      from exchange_legacy_strict [OF assms(1) this] w2 show ?thesis by simp
    next
      case Some2: (Some es)
      then show ?thesis using assms(2) None get adopt w2
        by (auto simp: cached_exchange_def exchange_adopt_def Let_def bind_eq_Some_conv dest: serve_cached)
    qed
  qed
  then show "wd_world wd' = wd_world wd" and "r = Some (Inr s) \<Longrightarrow> served_cached s" by auto
qed

text \<open>The form the graders use: what the exchange answers, once it is known to be there.\<close>

lemma strict_exchange:
  assumes "cached_exchange env (Some cache) x parse meta strict_miss reasks live wd = (served, wd')" and "rc_mode cache = ReadOnlyStrict"
  shows "wd_world wd' = wd_world wd" and "the served = Inr s \<Longrightarrow> served_cached s"
proof -
  note e = exchange_strict [OF assms(2,1)]
  show "wd_world wd' = wd_world wd" by (rule e(1))
  obtain r where "served = Some r" using exchange_returns [of env "Some cache" x parse meta strict_miss reasks live wd] assms(1) by auto
  then show "the served = Inr s \<Longrightarrow> served_cached s" using e(2) by simp
qed

section \<open>The default grader under \<open>--cache-only\<close>\<close>

text \<open>What a grader owes a run in strict mode: it leaves the world alone and answers from the cache or with an error.\<close>

definition replays :: "'w \<Rightarrow> (GraderError + Graded) \<times> ('c, 'w) World \<Rightarrow> bool" where
  "replays w a \<longleftrightarrow> wd_world (snd a) = w \<and> (\<forall>g. fst a = Inr g \<longrightarrow> gr_cached g)"

lemma replays_error: "replays (wd_world wd) (Inl e, wd)"
  by (simp add: replays_def)

lemma replays_exchange:
  assumes "rc_mode cache = ReadOnlyStrict" and "\<And>s. served_cached s \<Longrightarrow> gr_cached (f s)"
  shows "replays (wd_world wd) (let (served, wd) = cached_exchange env (Some cache) x parse meta strict_miss reasks live wd
     in (map_sum id f (the served), wd))"
proof -
  obtain served wd' where x: "cached_exchange env (Some cache) x parse meta strict_miss reasks live wd = (served, wd')" by fastforce
  note strict_exchange [OF x assms(1)]
  then show ?thesis using assms(2) by (auto simp: x replays_def map_sum_Inr)
qed

lemma grade_exec_replays:
  assumes "gc_cache gc = Some rc" and "rc_mode rc = ReadOnlyStrict"
  shows "replays (wd_world wd) (grade_exec jk dg a out gc wd)"
proof (cases "as_kind a")
  case (Exec command config salt)
  have cached: "gr_cached (case s of Verdict graded \<Rightarrow> graded | ParsedPayload p \<Rightarrow> (unpriced (pd_value p))\<lparr>gr_cached := pd_cached p\<rparr>)"
    if "served_cached s" for s using that by (cases s) (simp_all add: served_cached_def)
  show ?thesis unfolding grade_exec_def Exec AssertKind.case assms(1) Let_def [of "assert_request config out gc"]
    by (subst Let_def, rule replays_exchange [OF assms(2) cached])
qed (simp_all add: grade_exec_def replays_error)

lemma ask_judge_replays:
  assumes "gc_cache gc = Some rc" and "rc_mode rc = ReadOnlyStrict"
  shows "replays (wd_world wd) (ask_judge jk dg grader j v resolved params rubric user a out gc wd)"
proof -
  have cached: "gr_cached (rubric_graded s)" if "served_cached s" for s
    using that by (cases s) (simp_all add: served_cached_def rubric_graded_def Let_def)
  show ?thesis unfolding ask_judge_def assms(1)
    by (subst Let_def, subst Let_def, subst Let_def, rule replays_exchange [OF assms(2) cached])
qed

lemma grade_llm_rubric_replays:
  assumes "gc_cache gc = Some rc" and "rc_mode rc = ReadOnlyStrict"
  shows "replays (wd_world wd) (grade_llm_rubric jk dg a out gc wd)"
  using ask_judge_replays [OF assms]
  by (auto simp: grade_llm_rubric_def replays_error split: AssertKind.split option.split sum.split)

lemma embed_cached_strict:
  assumes "gc_cache gc = Some rc" and "rc_mode rc = ReadOnlyStrict" and "embed_cached jk p text gc wd = (r, wd')"
  shows "wd_world wd' = wd_world wd" and "r = Inr e \<Longrightarrow> pd_cached e"
proof -
  obtain env x parse meta strict_miss live where
    "embed_cached jk p text gc wd = (let (served, wd) = cached_exchange env (Some rc) x parse meta strict_miss 0 live wd in (bind_sum (the served) parsed_only, wd))"
    unfolding embed_cached_def Let_def assms(1) by blast
  moreover obtain served wd1 where x: "cached_exchange env (Some rc) x parse meta strict_miss 0 live wd = (served, wd1)" by fastforce
  ultimately have r: "r = bind_sum (the served) parsed_only" "wd' = wd1" using assms(3) by simp_all
  note strict = strict_exchange [OF x assms(2)]
  show "wd_world wd' = wd_world wd" using strict(1) r by simp
  show "pd_cached e" if "r = Inr e"
    using that r strict(2) by (auto simp: bind_sum_def parsed_only_def served_cached_def split: sum.splits Served.splits)
qed

lemma grade_similar_replays:
  assumes "gc_cache gc = Some rc" and "rc_mode rc = ReadOnlyStrict"
  shows "replays (wd_world wd) (grade_similar jk dg reference out gc wd)"
proof -
  have two: "replays (wd_world wd) (let (a, wd) = embed_cached jk p s gc wd
      in case a of Inl e \<Rightarrow> (Inl e, wd) | Inr a \<Rightarrow> (let (b, wd) = embed_cached jk p t gc wd in (map_sum id (similarity a) b, wd)))" for p s t
  proof -
    obtain a wd1 where a: "embed_cached jk p s gc wd = (a, wd1)" by fastforce
    obtain b wd2 where b: "embed_cached jk p t gc wd1 = (b, wd2)" by fastforce
    note 1 = embed_cached_strict [OF assms a] and 2 = embed_cached_strict [OF assms b]
    show ?thesis using 1 2 by (cases a; cases b) (simp_all add: a b replays_def similarity_def)
  qed
  show ?thesis using two by (auto simp: grade_similar_def replays_error Let_def split: option.split sum.split)
qed

text \<open>C16: The grader every run uses keeps what a strict run asks of its grader: given a cache in strict mode it never starts a
  process and never reaches the network, whatever the assertion, the output, the cache's contents and the state of the
  world, and what it answers comes from the cache or is an error.\<close>

theorem default_grader_is_offline:
  "offline_grader (default_grade jk dg)
   \<and> (\<forall>a out gc rc wd graded wd'. gc_cache gc = Some rc \<and> rc_mode rc = ReadOnlyStrict
        \<and> default_grade jk dg a out gc wd = (Inr graded, wd') \<longrightarrow> gr_cached graded)"
proof -
  have "replays (wd_world wd) (default_grade jk dg a out gc wd)" if "gc_cache gc = Some rc" "rc_mode rc = ReadOnlyStrict" for a out gc rc wd
    using grade_exec_replays [OF that, of wd jk dg a out] grade_llm_rubric_replays [OF that, of wd jk dg a out]
      grade_similar_replays [OF that, where wd = wd and jk = jk and dg = dg and out = out]
    by (simp add: default_grade_def replays_error split: AssertKind.split)
  then show ?thesis unfolding offline_grader_def replays_def by (metis fst_conv snd_conv)
qed

text \<open>A strict cache in which every key holds the same graded entry.\<close>

definition demo_graded :: "unit GradeCtx" where
  "demo_graded = \<lparr>gc_vars = JObject [], gc_working_dir = None, gc_provider_id = ''p'', gc_test_id = ''t'', gc_test_tags = [],
     gc_tool_calls = [], gc_cache = Some \<lparr>rc_backend = \<lparr>be_get = \<lambda>_ c. (Inr (Some (demo_entry\<lparr>ce_verdict := Some (Similarity 1)\<rparr>)), c),
       be_put = \<lambda>_ _ c. (Inr (), c), be_stats = \<lambda>c. (Inl [], c), be_purge = \<lambda>_ c. (Inr 0, c)\<rparr>, rc_mode = ReadOnlyStrict, rc_repeat = 0\<rparr>\<rparr>"

theorem default_grader_is_offline_witness:
  "\<forall>jk dg st ab. \<exists>graded wd'. default_grade jk dg \<lparr>as_weight = 1, as_negate = False, as_kind = Exec [''check''] None None\<rparr> (Text ''y'') demo_graded
      \<lparr>wd_cache = (), wd_state = st, wd_limiter = None, wd_aborted = ab, wd_world = (7 :: nat)\<rparr> = (Inr graded, wd') \<and> gr_cached graded \<and> wd_world wd' = 7"
proof (intro allI)
  fix jk :: "nat judging" and dg st ab
  let ?a = "\<lparr>as_weight = 1, as_negate = False, as_kind = Exec [''check''] None None\<rparr>"
  let ?wd = "\<lparr>wd_cache = (), wd_state = st, wd_limiter = None, wd_aborted = ab, wd_world = 7\<rparr>"
  obtain graded wd' where g: "default_grade jk dg ?a (Text ''y'') demo_graded ?wd = (Inr graded, wd')"
    by (simp add: default_grade_def grade_exec_def demo_graded_def cached_exchange_def cache_get_def serve_def Let_def)
  obtain rc where rc: "gc_cache demo_graded = Some rc" "rc_mode rc = ReadOnlyStrict" by (simp add: demo_graded_def)
  note offline = default_grader_is_offline [of jk dg, unfolded offline_grader_def]
  then have "gr_cached graded" "wd_world wd' = wd_world ?wd" using g rc by blast+
  then show "\<exists>graded wd'. default_grade jk dg ?a (Text ''y'') demo_graded ?wd = (Inr graded, wd') \<and> gr_cached graded \<and> wd_world wd' = 7"
    using g by simp
qed

section \<open>Similarity\<close>

definition dots :: "(f64 \<times> f64) list \<Rightarrow> f64 \<times> f64 \<times> f64 \<Rightarrow> f64 \<times> f64 \<times> f64" where
  "dots = fold (\<lambda>(x, y) (dot, na, nb). (dot + x * y, na + x * x, nb + y * y))"

lemma dots_step:
  fixes d na nb x y :: real
  assumes "d * d \<le> na * nb" and "0 \<le> na" and "0 \<le> nb"
  shows "(d + x * y) * (d + x * y) \<le> (na + x * x) * (nb + y * y)"
proof -
  have "(2 * (d * (x * y)))\<^sup>2 = 4 * (d * d) * (x * y)\<^sup>2" by (simp add: power2_eq_square algebra_simps)
  also have "\<dots> \<le> 4 * (na * nb) * (x * y)\<^sup>2" using assms(1) by (intro mult_right_mono) simp_all
  also have "\<dots> \<le> (na * (y * y) + nb * (x * x))\<^sup>2"
    using zero_le_power2 [of "na * (y * y) - nb * (x * x)"] by (simp add: power2_eq_square algebra_simps)
  finally have "2 * (d * (x * y)) \<le> na * (y * y) + nb * (x * x)"
    by (rule power2_le_imp_le) (use assms(2,3) in simp)
  then show ?thesis using assms(1) by (simp add: algebra_simps)
qed

lemma dots_bound:
  "dots ps (d, na, nb) = (d', na', nb') \<Longrightarrow> d * d \<le> na * nb \<Longrightarrow> 0 \<le> na \<Longrightarrow> 0 \<le> nb
    \<Longrightarrow> d' * d' \<le> na' * nb' \<and> 0 \<le> na' \<and> 0 \<le> nb'"
  by (induction ps arbitrary: d na nb) (auto simp: dots_def dots_step)

lemma dots_swap: "dots (map prod.swap ps) (d, nb, na) = (let (d', na', nb') = dots ps (d, na, nb) in (d', nb', na'))"
  by (induction ps arbitrary: d na nb) (auto simp: dots_def mult.commute)

lemma dots_self: "dots (map (\<lambda>x. (x, x)) xs) (d, d, d) = (let s = d + (\<Sum>x\<leftarrow>xs. x * x) in (s, s, s))"
  by (induction xs arbitrary: d) (auto simp: dots_def Let_def add.assoc)

lemma zip_swap: "zip ys xs = map prod.swap (zip xs ys)"
  by (induction xs ys rule: list_induct2') simp_all

lemma cosine_dots:
  "cosine a b = (if length a \<noteq> length b \<or> a = [] then 0
     else let (dot, na, nb) = dots (zip a b) (0, 0, 0) in if na = 0 \<or> nb = 0 then 0 else dot / (sqrt na * sqrt nb))"
  by (simp add: cosine_def dots_def)

text \<open>The score of a \<open>similar\<close> assertion is a cosine: between -1 and 1 whatever the two embeddings are, the same whichever of
  the two texts is the reference, and 1 for an embedding compared with itself, unless it is empty or zero, which scores 0.
  Vectors of different lengths are not compared. (Over the reals; a NaN or an overflow of the floats is outside the model.)\<close>

theorem similarity_is_a_cosine:
  "\<bar>cosine a b\<bar> \<le> 1 \<and> cosine a b = cosine b a \<and> cosine a a = (if list_all (\<lambda>x. x = 0) a then 0 else 1)"
proof (intro conjI)
  obtain d na nb where z: "dots (zip a b) (0, 0, 0) = (d, na, nb)" by (rule prod_cases3)
  note bound = dots_bound [OF z]
  have "\<bar>d\<bar> \<le> sqrt na * sqrt nb"
    using bound by (simp add: real_sqrt_mult [symmetric] abs_le_square_iff [symmetric] real_le_rsqrt power2_eq_square)
  moreover have "0 \<le> sqrt na * sqrt nb" using bound by simp
  ultimately show "\<bar>cosine a b\<bar> \<le> 1" by (auto simp: cosine_dots z divide_le_eq_1 abs_mult)
  show "cosine a b = cosine b a"
    by (auto simp: cosine_dots zip_swap [of b a] dots_swap z Let_def mult.commute)
  have sq: "(\<Sum>x\<leftarrow>a. x * x) = 0 \<longleftrightarrow> list_all (\<lambda>x. x = 0) a" and "0 \<le> (\<Sum>x\<leftarrow>a. x * x)"
    by (induction a) (auto simp: add_nonneg_eq_0_iff sum_list_nonneg)
  then show "cosine a a = (if list_all (\<lambda>x. x = 0) a then 0 else 1)"
    by (auto simp: cosine_dots zip_same_conv_map dots_self [of a 0, simplified] Let_def)
qed
end
