(* ===== verification/ClientAddr.thy ===== *)
theory ClientAddr
  imports Pricing "HOL-Library.Word"
begin

text \<open>
  Who a request of the server comes from (\<open>crates/domarinn-server/src/clientip.rs\<close>), the bucket a caller of a tool falls into
  (\<open>mcp/ratelimit.rs\<close>) and the check of the origin of requests that a session cookie authenticates (\<open>csrf.rs\<close>). Addresses
  are words; the parsers of addresses and numbers are arguments. Headers are lists of values, \<open>None\<close> for one that is not text.
\<close>

unbundle bit_operations_syntax

section \<open>Model\<close>

subsection \<open>Addresses\<close>

datatype IpAddr = V4 "32 word" | V6 "128 word"

definition to_ipv4_mapped :: "128 word \<Rightarrow> 32 word option" where
  "to_ipv4_mapped v = (if drop_bit 32 v = 0xFFFF then Some (ucast v) else None)"

definition to_canonical :: "IpAddr \<Rightarrow> IpAddr" where
  "to_canonical ip = (case ip of
       V4 v \<Rightarrow> V4 v
     | V6 v \<Rightarrow> (case to_ipv4_mapped v of Some v4 \<Rightarrow> V4 v4 | None \<Rightarrow> V6 v))"

definition octet :: "32 word \<Rightarrow> nat \<Rightarrow> nat" where
  "octet v k = unat (drop_bit (24 - 8 * k) v AND 0xFF)"

definition segment :: "128 word \<Rightarrow> nat \<Rightarrow> nat" where
  "segment v k = unat (drop_bit (112 - 16 * k) v AND 0xFFFF)"

definition hex_char :: "nat \<Rightarrow> char" where
  "hex_char d = (if d < 10 then char_of (48 + d) else char_of (87 + d))"

fun show_hex :: "nat \<Rightarrow> string" where
  "show_hex n = (if n < 16 then [hex_char n] else show_hex (n div 16) @ [hex_char (n mod 16)])"

declare show_hex.simps [simp del]

definition show_v4 :: "32 word \<Rightarrow> string" where
  "show_v4 v = join ''.'' (map (\<lambda>k. show_nat (octet v k)) [0, 1, 2, 3])"

definition client_bucket :: "IpAddr \<Rightarrow> string" where
  "client_bucket ip = (case to_canonical ip of
       V4 v \<Rightarrow> show_v4 v
     | V6 v \<Rightarrow> join '':'' (map (\<lambda>k. show_hex (segment v k)) [0, 1, 2, 3]) @ ''::/64'')"

subsection \<open>Trusted proxies\<close>

record addr_parser =
  ap_ip :: "string \<Rightarrow> IpAddr option"
  ap_socket :: "string \<Rightarrow> IpAddr option"
  ap_u32 :: "string \<Rightarrow> nat option"

datatype Net = NetV4 "32 word" "32 word" | NetV6 "128 word" "128 word"

definition net_contains :: "Net \<Rightarrow> IpAddr \<Rightarrow> bool" where
  "net_contains net ip = (case (net, ip) of
       (NetV4 addr netmask, V4 v) \<Rightarrow> v AND netmask = addr
     | (NetV6 addr netmask, V6 v) \<Rightarrow> v AND netmask = addr
     | _ \<Rightarrow> False)"

definition is_catch_all :: "Net \<Rightarrow> bool" where
  "is_catch_all net = (case net of NetV4 _ netmask \<Rightarrow> netmask = 0 | NetV6 _ netmask \<Rightarrow> netmask = 0)"

text \<open>\<open>MAX.checked_shl(n).unwrap_or(0)\<close>.\<close>

definition shifted_mask :: "nat \<Rightarrow> 'a::len word" where
  "shifted_mask n = (if n < LENGTH('a) then push_bit n (-1) else 0)"

definition net_of :: "IpAddr \<Rightarrow> nat option \<Rightarrow> string + Net" where
  "net_of addr prefix = (case addr of
       V4 v4 \<Rightarrow> (let p = unwrap_or prefix 32
         in if p > 32 then Inl ''prefix longer than /32''
            else Inr (NetV4 (v4 AND shifted_mask (32 - p)) (shifted_mask (32 - p))))
     | V6 v6 \<Rightarrow> (let p = unwrap_or prefix 128
         in if p > 128 then Inl ''prefix longer than /128''
            else Inr (NetV6 (v6 AND shifted_mask (128 - p)) (shifted_mask (128 - p)))))"

definition unmapped :: "IpAddr \<Rightarrow> nat option \<Rightarrow> string + IpAddr \<times> nat option" where
  "unmapped addr prefix = (case addr of
       V4 _ \<Rightarrow> Inr (addr, prefix)
     | V6 v6 \<Rightarrow> (case (to_ipv4_mapped v6, prefix) of
           (Some v4, None) \<Rightarrow> Inr (V4 v4, None)
         | (Some v4, Some p) \<Rightarrow> if 96 \<le> p \<and> p \<le> 128 then Inr (V4 v4, Some (p - 96))
             else if p < 96 then Inl ''an IPv4-mapped prefix must be /96 or longer'' else Inr (addr, prefix)
         | _ \<Rightarrow> Inr (addr, prefix)))"

definition split_prefix :: "addr_parser \<Rightarrow> string \<Rightarrow> string + IpAddr \<times> nat option" where
  "split_prefix ap entry =
     (let addr = (\<lambda>text. case ap_ip ap text of Some ip \<Rightarrow> Inr ip | None \<Rightarrow> Inl ''not an IP address'')
      in case split_once (CHR ''/'') entry of
           Some (text, prefix) \<Rightarrow> bind_sum (addr text) (\<lambda>ip.
             case ap_u32 ap prefix of Some p \<Rightarrow> Inr (ip, Some p) | None \<Rightarrow> Inl ''not a prefix length'')
         | None \<Rightarrow> map_sum id (\<lambda>ip. (ip, None)) (addr entry))"

definition parse_net :: "addr_parser \<Rightarrow> string \<Rightarrow> string + Net" where
  "parse_net ap entry = bind_sum (split_prefix ap entry) (\<lambda>(addr, prefix).
     bind_sum (unmapped addr prefix) (\<lambda>(addr, prefix). net_of addr prefix))"

definition parse_trusted :: "addr_parser \<Rightarrow> string option \<Rightarrow> string + Net list" where
  "parse_trusted ap raw = collect_results (map (\<lambda>entry. map_sum (\<lambda>reason.
       ''invalid DOMARINN_TRUSTED_PROXIES entry '' @ [CHR 0x27] @ entry @ [CHR 0x27] @ '' ('' @ reason
         @ ''); expected an IP address or CIDR such as 10.0.0.0/8 or fd00::/8'') id (parse_net ap entry))
     (filter (\<lambda>entry. entry \<noteq> []) (map trim (case raw of None \<Rightarrow> [] | Some v \<Rightarrow> split_char (CHR '','') [] v))))"

definition trusts :: "Net list \<Rightarrow> IpAddr \<Rightarrow> bool" where
  "trusts nets ip = list_ex (\<lambda>net. net_contains net (to_canonical ip)) nets"

subsection \<open>The client of a request\<close>

definition parse_hop :: "addr_parser \<Rightarrow> string \<Rightarrow> IpAddr option" where
  "parse_hop ap hop = or_else (ap_ip ap hop) (ap_socket ap hop)"

fun walk_hops :: "addr_parser \<Rightarrow> Net list \<Rightarrow> IpAddr \<Rightarrow> string list \<Rightarrow> IpAddr" where
  "walk_hops ap nets peer [] = peer"
| "walk_hops ap nets peer (hop # hops) = (case parse_hop ap (trim hop) of
       None \<Rightarrow> peer
     | Some ip \<Rightarrow> if \<not> trusts nets (to_canonical ip) then to_canonical ip else walk_hops ap nets peer hops)"

definition forwarded_hops :: "string list \<Rightarrow> string list" where
  "forwarded_hops texts = split_char (CHR '','') [] (join '','' texts)"

definition resolve_client :: "addr_parser \<Rightarrow> IpAddr \<Rightarrow> string option list \<Rightarrow> Net list \<Rightarrow> IpAddr" where
  "resolve_client ap peer headers nets =
     (let peer = to_canonical peer
      in if \<not> trusts nets peer then peer
         else if None \<in> set headers \<or> headers = [] then peer
         else walk_hops ap nets peer (rev (forwarded_hops (map the headers))))"

definition is_private_v4 :: "32 word \<Rightarrow> bool" where
  "is_private_v4 v =
     (let a = octet v 0; b = octet v 1
      in a = 127 \<or> a = 10 \<or> (a = 172 \<and> 16 \<le> b \<and> b \<le> 31) \<or> (a = 192 \<and> b = 168) \<or> (a = 169 \<and> b = 254)
         \<or> (a = 100 \<and> 64 \<le> b \<and> b \<le> 127))"

definition is_private_v6 :: "128 word \<Rightarrow> bool" where
  "is_private_v6 v =
     (let first = drop_bit 112 v in v = 1 \<or> first AND 0xFE00 = 0xFC00 \<or> first AND 0xFFC0 = 0xFE80)"

definition warrants_proxy_warning :: "IpAddr \<Rightarrow> bool \<Rightarrow> Net list \<Rightarrow> bool" where
  "warrants_proxy_warning peer has_xff nets =
     (if nets \<noteq> [] \<or> \<not> has_xff then False
      else case to_canonical peer of V4 v \<Rightarrow> is_private_v4 v | V6 v \<Rightarrow> is_private_v6 v)"

definition WARN_EVERY_SECS :: u64 where "WARN_EVERY_SECS = 600"

text \<open>The exchange of the time of the last warning, without a competing thread.\<close>

definition claim_warning :: "u64 \<Rightarrow> u64 \<Rightarrow> bool \<times> u64" where
  "claim_warning prev now_secs =
     (if prev \<noteq> 0 \<and> now_secs < saturating_add prev WARN_EVERY_SECS then (False, prev) else (True, max now_secs 1))"

text \<open>What a request carries on: its client, and whether a proxy seems to be unconfigured.\<close>

definition annotate :: "addr_parser \<Rightarrow> Net list \<Rightarrow> IpAddr option \<Rightarrow> string option list \<Rightarrow> (IpAddr \<times> bool) option" where
  "annotate ap nets peer headers =
     map_option (\<lambda>ip. (resolve_client ap ip headers nets, warrants_proxy_warning ip (headers \<noteq> []) nets)) peer"

subsection \<open>Buckets of tool calls (\<open>mcp/ratelimit.rs\<close>)\<close>

definition bucket_key :: "string option \<Rightarrow> string option \<Rightarrow> IpAddr option \<Rightarrow> string" where
  "bucket_key user_id label client = (case user_id of
       Some u \<Rightarrow> ''user:'' @ u
     | None \<Rightarrow>
         (let base = (case label of Some l \<Rightarrow> ''label:'' @ l | None \<Rightarrow> ''anonymous'')
          in case client of Some ip \<Rightarrow> base @ ''@'' @ client_bucket ip | None \<Rightarrow> base))"

subsection \<open>Origins (\<open>csrf.rs\<close>)\<close>

fun split_once_str :: "string \<Rightarrow> string \<Rightarrow> (string \<times> string) option" where
  "split_once_str sep [] = (case strip_prefix [] sep of Some r \<Rightarrow> Some ([], r) | None \<Rightarrow> None)"
| "split_once_str sep (c # cs) = (case strip_prefix (c # cs) sep of
       Some r \<Rightarrow> Some ([], r)
     | None \<Rightarrow> map_option (\<lambda>(a, b). (c # a, b)) (split_once_str sep cs))"

definition url_host :: "string \<Rightarrow> string option" where
  "url_host url = Option.bind (split_once_str ''://'' url) (\<lambda>(_, rest).
     let host = takeWhile (\<lambda>c. c \<notin> set ''/?#'') rest in then_some (host \<noteq> []) (to_ascii_lowercase host))"

datatype PresentedOrigin = OriginHost string | Unparseable | Absent

definition presented_origin :: "string option option \<Rightarrow> string option option \<Rightarrow> PresentedOrigin" where
  "presented_origin origin referer = (case or_else origin referer of
       None \<Rightarrow> Absent
     | Some v \<Rightarrow> (case Option.bind v url_host of Some host \<Rightarrow> OriginHost host | None \<Rightarrow> Unparseable))"

definition origin_allowed :: "string \<Rightarrow> string option \<Rightarrow> string option option \<Rightarrow> bool" where
  "origin_allowed presented public_url host =
     (Option.bind public_url url_host = Some presented
      \<or> map_option to_ascii_lowercase (Option.bind host id) = Some presented)"

record csrf_request =
  cq_method :: string
  cq_via_cookie :: bool
  cq_origin :: "string option option"
  cq_referer :: "string option option"
  cq_host :: "string option option"

definition csrf_admits :: "string option \<Rightarrow> csrf_request \<Rightarrow> bool" where
  "csrf_admits public_url req =
     (let safe_method = cq_method req \<in> set [''GET'', ''HEAD'', ''OPTIONS'']
      in if \<not> safe_method \<and> cq_via_cookie req
         then (case presented_origin (cq_origin req) (cq_referer req) of
                 OriginHost presented \<Rightarrow> origin_allowed presented public_url (cq_host req)
               | Unparseable \<Rightarrow> False
               | Absent \<Rightarrow> True)
         else True)"

section \<open>Prefixes\<close>

lemma masked_bits: "bit (v AND shifted_mask n) i \<longleftrightarrow> bit v i \<and> n \<le> i" for v :: "'a::len word"
  using bit_imp_le_length [of v i] by (auto simp: shifted_mask_def bit_and_iff bit_push_bit_iff bit_not_iff bit_mask_iff)

lemma high_bits_eq: "drop_bit n v = drop_bit n a \<longleftrightarrow> (\<forall>i \<ge> n. bit v i = bit a i)" for v a :: "'a::len word"
proof
  assume eq: "drop_bit n v = drop_bit n a"
  have "bit v i = bit a i" if "n \<le> i" for i
    using arg_cong [OF eq, of "\<lambda>w. bit w (i - n)"] that by (simp add: bit_drop_bit_eq)
  then show "\<forall>i \<ge> n. bit v i = bit a i" by simp
qed (simp add: bit_eq_iff bit_drop_bit_eq)

lemma masked_eq_iff: "v AND shifted_mask n = a AND shifted_mask n \<longleftrightarrow> drop_bit n v = drop_bit n a" for v a :: "'a::len word"
  unfolding high_bits_eq unfolding bit_eq_iff masked_bits using bit_imp_le_length by auto

text \<open>Both families in one space, the IPv4 addresses at their mapped place.\<close>

definition as_v6 :: "IpAddr \<Rightarrow> 128 word" where
  "as_v6 ip = (case ip of V4 v \<Rightarrow> push_bit 32 (mask 16) OR ucast v | V6 v \<Rightarrow> v)"

definition is_v4 :: "IpAddr \<Rightarrow> bool" where
  "is_v4 ip = (case to_canonical ip of V4 _ \<Rightarrow> True | V6 _ \<Rightarrow> False)"

lemma bit_as_v4: "bit (as_v6 (V4 v)) i \<longleftrightarrow> (if i < 32 then bit v i else i < 48)"
  using bit_imp_le_length [of v i] by (auto simp: as_v6_def bit_or_iff bit_push_bit_iff bit_ucast_iff bit_mask_iff)

lemma mapped_iff: "to_ipv4_mapped w = Some v \<longleftrightarrow> w = as_v6 (V4 v)"
proof -
  have ones: "(0xFFFF :: 128 word) = mask 16" by (simp add: mask_eq_exp_minus_1)
  have "drop_bit 32 w = mask 16 \<and> ucast w = v \<longleftrightarrow> w = as_v6 (V4 v)"
  proof
    assume w: "drop_bit 32 w = mask 16 \<and> ucast w = v"
    show "w = as_v6 (V4 v)"
    proof (rule bit_word_eqI)
      fix i :: nat assume "i < LENGTH(128)"
      then show "bit w i \<longleftrightarrow> bit (as_v6 (V4 v)) i"
        using arg_cong [OF conjunct1 [OF w], of "\<lambda>x. bit x (i - 32)"] conjunct2 [OF w]
        by (auto simp: bit_as_v4 bit_ucast_iff bit_drop_bit_eq bit_mask_iff)
    qed
  next
    assume w: "w = as_v6 (V4 v)"
    have "drop_bit 32 w = mask 16" by (rule bit_word_eqI) (auto simp: bit_drop_bit_eq w bit_as_v4 bit_mask_iff)
    moreover have "ucast w = v" by (rule bit_word_eqI) (simp add: w bit_ucast_iff bit_as_v4)
    ultimately show "drop_bit 32 w = mask 16 \<and> ucast w = v" ..
  qed
  then show ?thesis unfolding to_ipv4_mapped_def ones by auto
qed

lemma as_v6_canonical [simp]: "as_v6 (to_canonical ip) = as_v6 ip"
  by (cases ip) (auto simp: to_canonical_def as_v6_def [of "V6 _"] mapped_iff split: option.split)

lemma canonical_idem [simp]: "to_canonical (to_canonical ip) = to_canonical ip"
  by (cases ip) (auto simp: to_canonical_def split: option.split)

lemma canonical_cases:
  obtains (v4) v where "to_canonical ip = V4 v" "as_v6 ip = as_v6 (V4 v)" "is_v4 ip"
  | (v6) v where "to_canonical ip = V6 v" "as_v6 ip = v" "\<not> is_v4 ip" "\<And>x. v \<noteq> as_v6 (V4 x)"
proof (cases "to_canonical ip")
  case (V4 v)
  then show ?thesis using v4 [of v] as_v6_canonical [of ip] by (simp add: is_v4_def)
next
  case (V6 v)
  then have "to_ipv4_mapped v = None" by (auto simp: to_canonical_def split: IpAddr.splits option.splits)
  then have "v \<noteq> as_v6 (V4 x)" for x using mapped_iff [of v x] by auto
  then show ?thesis using v6 [of v] V6 as_v6_canonical [of ip] by (simp add: is_v4_def as_v6_def)
qed

lemma high_bits_v4: "drop_bit n (as_v6 (V4 v)) = drop_bit n (as_v6 (V4 a)) \<longleftrightarrow> drop_bit n v = drop_bit n a"
  unfolding high_bits_eq bit_as_v4 using bit_imp_le_length [of v] bit_imp_le_length [of a] by auto

text \<open>The number of leading bits an entry fixes, of an address in the common space.\<close>

definition fixed_bits :: "IpAddr \<Rightarrow> nat option \<Rightarrow> nat" where
  "fixed_bits a prefix = (case a of V4 _ \<Rightarrow> 96 + unwrap_or prefix 32 | V6 _ \<Rightarrow> unwrap_or prefix 128)"

text \<open>What an entry of the trusted proxies means. An address with a prefix trusts exactly the peers that share its leading bits,
  whether the entry or the peer is written as an IPv4 address or as the mapped IPv6 address; a true IPv6 entry trusts no
  IPv4 peer, however short its prefix.\<close>

theorem trusted_net_is_a_prefix:
  assumes "split_prefix ap entry = Inr (a, prefix)" and "parse_net ap entry = Inr net"
  shows "trusts [net] ip \<longleftrightarrow> (is_v4 ip \<longrightarrow> is_v4 a)
    \<and> drop_bit (128 - fixed_bits a prefix) (as_v6 ip) = drop_bit (128 - fixed_bits a prefix) (as_v6 a)"
proof -
  have net: "bind_sum (unmapped a prefix) (\<lambda>(addr, prefix). net_of addr prefix) = Inr net"
    using assms by (simp add: parse_net_def)
  consider (four) v p where "net = NetV4 (v AND shifted_mask (32 - p)) (shifted_mask (32 - p))" "to_canonical a = V4 v" "fixed_bits a prefix = 96 + p"
    | (six) v where "net = NetV6 (v AND shifted_mask (128 - fixed_bits a prefix)) (shifted_mask (128 - fixed_bits a prefix))"
        "a = V6 v" "to_canonical a = V6 v"
  proof (cases a)
    case (V4 v)
    then show ?thesis using net four [of v "unwrap_or prefix 32"]
      by (auto simp: unmapped_def net_of_def fixed_bits_def to_canonical_def Let_def split: if_splits)
  next
    case (V6 v)
    show ?thesis
    proof (cases "to_ipv4_mapped v")
      case None
      then show ?thesis using net six [of v] V6
        by (auto simp: unmapped_def net_of_def fixed_bits_def to_canonical_def Let_def split: if_splits)
    next
      case (Some x)
      then show ?thesis using net V6 four [of x 32] four [of x "the prefix - 96"]
        by (auto simp: unmapped_def net_of_def fixed_bits_def to_canonical_def Let_def split: if_splits option.splits)
    qed
  qed
  then show ?thesis
  proof cases
    case four
    have a: "is_v4 a" "as_v6 a = as_v6 (V4 v)" using four(2) as_v6_canonical [of a] by (simp_all add: is_v4_def)
    show ?thesis
    proof (cases ip rule: canonical_cases)
      case (v4 w)
      then show ?thesis using a by (simp add: trusts_def net_contains_def four(1) four(3) masked_eq_iff high_bits_v4)
    next
      case (v6 w)
      have "drop_bit 32 w \<noteq> drop_bit 32 (as_v6 (V4 v))"
      proof
        assume "drop_bit 32 w = drop_bit 32 (as_v6 (V4 v))"
        then have "w = as_v6 (V4 (ucast w))"
          by (intro bit_word_eqI) (auto simp: high_bits_eq bit_as_v4 bit_ucast_iff)
        then show False using v6(4) by blast
      qed
      then have "drop_bit (32 - p) w \<noteq> drop_bit (32 - p) (as_v6 (V4 v))" unfolding high_bits_eq by (meson diff_le_self le_trans)
      then show ?thesis using a v6 by (simp add: trusts_def net_contains_def four(1) four(3))
    qed
  next
    case six
    have a: "\<not> is_v4 a" "as_v6 a = v" using six(2,3) by (simp_all add: is_v4_def as_v6_def)
    show ?thesis
    proof (cases ip rule: canonical_cases)
      case (v4 w)
      then show ?thesis using a by (simp add: trusts_def net_contains_def six(1))
    next
      case (v6 w)
      then show ?thesis using a by (simp add: trusts_def net_contains_def six(1) masked_eq_iff)
    qed
  qed
qed

definition demo_parser :: addr_parser where
  "demo_parser = \<lparr>ap_ip = \<lambda>s. if s = ''10.0.0.0'' then Some (V4 0x0A000000) else if s = ''9.9.9.9'' then Some (V4 0x09090909)
       else if s = ''10.1.1.1'' then Some (V4 0x0A010101) else None,
     ap_socket = \<lambda>_. None, ap_u32 = \<lambda>s. if s = ''8'' then Some 8 else None\<rparr>"

definition ten :: Net where
  "ten = NetV4 (0x0A000000 AND shifted_mask 24) (shifted_mask 24)"

lemma demo_net: "split_prefix demo_parser ''10.0.0.0/8'' = Inr (V4 0x0A000000, Some 8)" "parse_net demo_parser ''10.0.0.0/8'' = Inr ten"
  by (simp_all add: split_prefix_def parse_net_def unmapped_def net_of_def demo_parser_def ten_def Let_def)

theorem trusted_net_is_a_prefix_witness:
  "trusts [ten] (V4 0x0A010101) \<and> trusts [ten] (V6 0xFFFF0A010101) \<and> \<not> trusts [ten] (V4 0x09090909)"
  unfolding trusted_net_is_a_prefix [OF demo_net]
  by (simp add: fixed_bits_def is_v4_def to_canonical_def to_ipv4_mapped_def as_v6_def mask_eq_exp_minus_1)

section \<open>A client cannot choose its address\<close>

lemma walk_trusted:
  assumes "list_all (\<lambda>hop. \<exists>ip. parse_hop ap (trim hop) = Some ip \<and> trusts nets ip) later"
  shows "walk_hops ap nets peer (later @ hops) = walk_hops ap nets peer hops"
  using assms by (induction later) (auto simp: trusts_def)

lemma walk_outcome: "walk_hops ap nets peer hops = peer \<or> \<not> trusts nets (walk_hops ap nets peer hops)"
  by (induction hops) (auto split: option.split)


lemma trusts_ten: "trusts [ten] (V4 v) \<longleftrightarrow> drop_bit 24 v = 0x0A"
  by (simp add: trusts_def net_contains_def ten_def to_canonical_def masked_eq_iff)


end
