(* ===== verification/Throttle.thy ===== *)
theory Throttle
  imports ClientAddr
begin

text \<open>
  The throttles of the server: token buckets (\<open>crates/domarinn-server/src/ratelimit.rs\<close>), the attempts at a password with
  their locks (\<open>storage/attempts.rs\<close>) and the guard over both (\<open>accounts/guard.rs\<close>). The hash map of buckets is the list of
  its entries; the selection of the fullest ones, which leaves their order open, is an argument. A table is a map from keys
  to rows; a statement of SQL is the change it makes. Times of the attempts are milliseconds, an \<open>i64\<close> is an \<open>int\<close>.
\<close>

section \<open>Model\<close>

subsection \<open>Token buckets (\<open>ratelimit.rs\<close>)\<close>

record Bucket =
  bk_tokens :: f64
  bk_last :: instant

record TokenBuckets =
  tb_buckets :: "(string \<times> Bucket) list"
  tb_capacity :: f64
  tb_refill_per_sec :: f64
  tb_max_tracked :: nat

definition buckets_new :: "u32 \<Rightarrow> u32 \<Rightarrow> nat \<Rightarrow> TokenBuckets" where
  "buckets_new per_minute burst max_tracked = \<lparr>tb_buckets = [], tb_capacity = real (max burst 1),
     tb_refill_per_sec = real (max per_minute 1) / 60, tb_max_tracked = max max_tracked 1\<rparr>"

definition as_secs :: "duration \<Rightarrow> f64" where
  "as_secs d = real d / 10 ^ 9"

definition refilled :: "f64 \<Rightarrow> instant \<Rightarrow> instant \<Rightarrow> f64 \<Rightarrow> f64 \<Rightarrow> f64" where
  "refilled tokens since now per_sec capacity = min (tokens + as_secs (now - since) * per_sec) capacity"

definition bucket_level :: "TokenBuckets \<Rightarrow> instant \<Rightarrow> Bucket \<Rightarrow> f64" where
  "bucket_level tb now b = refilled (bk_tokens b) (bk_last b) now (tb_refill_per_sec tb) (tb_capacity tb)"

definition eviction_batch :: "nat \<Rightarrow> nat" where
  "eviction_batch max_tracked = max (max_tracked div 10) 1"

definition EPSILON :: f64 where "EPSILON = 1 / 2 ^ 52"

definition evict_fullest ::
  "(nat \<Rightarrow> (f64 \<times> string) list \<Rightarrow> (f64 \<times> string) list) \<Rightarrow> TokenBuckets \<Rightarrow> nat \<Rightarrow> instant \<Rightarrow> (string \<times> Bucket) list
   \<Rightarrow> (string \<times> Bucket) list" where
  "evict_fullest select tb excess now buckets =
     (let batch = min excess (length buckets)
      in if batch = 0 then buckets
         else let levels = map (\<lambda>(key, b). (bucket_level tb now b, key)) buckets;
                  doomed = map snd (take batch (select (batch - 1) levels))
              in filter (\<lambda>(key, _). key \<notin> set doomed) buckets)"

definition make_room ::
  "(nat \<Rightarrow> (f64 \<times> string) list \<Rightarrow> (f64 \<times> string) list) \<Rightarrow> string \<Rightarrow> instant \<Rightarrow> TokenBuckets \<Rightarrow> (string \<times> Bucket) list" where
  "make_room select key now tb =
     (if length (tb_buckets tb) \<ge> tb_max_tracked tb \<and> map_of (tb_buckets tb) key = None
      then let buckets = filter (\<lambda>(_, b). bucket_level tb now b < tb_capacity tb - EPSILON) (tb_buckets tb);
               target = tb_max_tracked tb - eviction_batch (tb_max_tracked tb)
           in if length buckets > target then evict_fullest select tb (length buckets - target) now buckets else buckets
      else tb_buckets tb)"

fun entry_set :: "string \<Rightarrow> Bucket \<Rightarrow> (string \<times> Bucket) list \<Rightarrow> (string \<times> Bucket) list" where
  "entry_set k b [] = [(k, b)]"
| "entry_set k b ((k', b') # es) = (if k = k' then (k, b) # es else (k', b') # entry_set k b es)"

definition bucket_take ::
  "(nat \<Rightarrow> (f64 \<times> string) list \<Rightarrow> (f64 \<times> string) list) \<Rightarrow> string \<Rightarrow> instant \<Rightarrow> TokenBuckets \<Rightarrow> (duration + unit) \<times> TokenBuckets" where
  "bucket_take select key now tb =
     (let buckets = make_room select key now tb;
          bucket = unwrap_or (map_of buckets key) \<lparr>bk_tokens = tb_capacity tb, bk_last = now\<rparr>;
          tokens = bucket_level tb now bucket;
          put = (\<lambda>t. tb\<lparr>tb_buckets := entry_set key \<lparr>bk_tokens = t, bk_last = now\<rparr> buckets\<rparr>)
      in if tokens \<ge> 1 then (Inr (), put (tokens - 1))
         else (Inl (nat \<lceil>max (of_int \<lceil>(1 - tokens) / tb_refill_per_sec tb\<rceil>) (1 :: f64)\<rceil> * 10 ^ 9), put tokens))"

subsection \<open>Attempts (\<open>attempts.rs\<close>)\<close>

definition ATTEMPT_WINDOW_MS :: int where "ATTEMPT_WINDOW_MS = 15 * 60 * 1000"

definition LOCKOUT_ESCALATION_MS :: int where "LOCKOUT_ESCALATION_MS = 24 * 60 * 60 * 1000"

record AttemptPolicy =
  at_max_failures :: int
  at_lock_base_ms :: int
  at_lock_cap_ms :: int

datatype AttemptVerdict = Allowed | Locked int

record AttemptRow =
  ar_failures :: int
  ar_window_start :: int
  ar_locked_until :: int
  ar_lockouts :: int
  ar_lockout_window_start :: int

definition i64_max :: int where "i64_max = 2 ^ 63 - 1"

definition lock_duration_ms :: "int \<Rightarrow> AttemptPolicy \<Rightarrow> int" where
  "lock_duration_ms lock_ordinal policy =
     (let shift = nat (min 20 (max 0 (lock_ordinal - 1)))
      in min (max (- i64_max - 1) (min i64_max (at_lock_base_ms policy * 2 ^ shift))) (at_lock_cap_ms policy))"

text \<open>The row the upsert leaves.\<close>

definition upsert_attempt :: "int \<Rightarrow> AttemptRow option \<Rightarrow> AttemptRow" where
  "upsert_attempt now row = (case row of
       None \<Rightarrow> \<lparr>ar_failures = 1, ar_window_start = now, ar_locked_until = 0, ar_lockouts = 0, ar_lockout_window_start = 0\<rparr>
     | Some r \<Rightarrow> r\<lparr>
         ar_failures := (if ar_locked_until r > now then ar_failures r
           else if ar_window_start r + ATTEMPT_WINDOW_MS \<le> now then 1 else ar_failures r + 1),
         ar_window_start := (if ar_locked_until r \<le> now \<and> ar_window_start r + ATTEMPT_WINDOW_MS \<le> now then now
           else ar_window_start r)\<rparr>)"

definition begin_login_attempt ::
  "string \<Rightarrow> int \<Rightarrow> AttemptPolicy \<Rightarrow> (string \<Rightarrow> AttemptRow option) \<Rightarrow> AttemptVerdict \<times> (string \<Rightarrow> AttemptRow option)" where
  "begin_login_attempt key now policy table =
     (let row = upsert_attempt now (table key)
      in if ar_locked_until row > now then (Locked (ar_locked_until row - now), table(key \<mapsto> row))
         else if ar_failures row \<le> at_max_failures policy then (Allowed, table(key \<mapsto> row))
         else let chain_expired = (ar_lockouts row = 0 \<or> ar_lockout_window_start row + LOCKOUT_ESCALATION_MS \<le> now);
                  ordinal = (if chain_expired then 1 else ar_lockouts row + 1);
                  until = now + lock_duration_ms ordinal policy
              in (Locked (until - now), table(key \<mapsto> row\<lparr>ar_failures := 0, ar_window_start := now, ar_locked_until := until,
                    ar_lockouts := ordinal, ar_lockout_window_start := now\<rparr>)))"

definition clear_login_attempts :: "string \<Rightarrow> (string \<Rightarrow> AttemptRow option) \<Rightarrow> (string \<Rightarrow> AttemptRow option)" where
  "clear_login_attempts key table = table(key := None)"

definition prunable :: "int \<Rightarrow> AttemptRow \<Rightarrow> bool" where
  "prunable now r \<longleftrightarrow> ar_locked_until r \<le> now \<and> ar_window_start r + ATTEMPT_WINDOW_MS \<le> now
     \<and> (ar_lockouts r = 0 \<or> ar_lockout_window_start r + LOCKOUT_ESCALATION_MS \<le> now)"

definition prune_login_attempts :: "int \<Rightarrow> (string \<Rightarrow> AttemptRow option) \<Rightarrow> (string \<Rightarrow> AttemptRow option)" where
  "prune_login_attempts now table = (\<lambda>key. Option.bind (table key) (\<lambda>r. then_some (\<not> prunable now r) r))"

text \<open>A secret is minted once; the candidate is fresh random bytes in hexadecimal. The table keeps the value and its time.\<close>

definition server_secret ::
  "string \<Rightarrow> string \<Rightarrow> int \<Rightarrow> (string \<Rightarrow> (string \<times> int) option) \<Rightarrow> string option \<times> (string \<Rightarrow> (string \<times> int) option)" where
  "server_secret name candidate now table =
     (let table = (if table name = None then table(name \<mapsto> (candidate, now)) else table) in (map_option fst (table name), table))"

subsection \<open>The guard (\<open>guard.rs\<close>)\<close>

definition UNTRUSTED :: AttemptPolicy where
  "UNTRUSTED = \<lparr>at_max_failures = 10, at_lock_base_ms = 5 * 60000, at_lock_cap_ms = 60 * 60000\<rparr>"

definition DEVICE :: AttemptPolicy where
  "DEVICE = \<lparr>at_max_failures = 10, at_lock_base_ms = 15 * 60000, at_lock_cap_ms = 15 * 60000\<rparr>"

definition PASSWORD_CHANGE :: AttemptPolicy where
  "PASSWORD_CHANGE = \<lparr>at_max_failures = 5, at_lock_base_ms = 15 * 60000, at_lock_cap_ms = 15 * 60000\<rparr>"

definition account_key :: "(string \<Rightarrow> string) \<Rightarrow> string \<Rightarrow> string" where
  "account_key sha256_hex username = ''account:'' @ sha256_hex (trim username)"

definition device_key :: "string \<Rightarrow> string" where
  "device_key nonce = ''device:'' @ nonce"

definition password_change_key :: "string \<Rightarrow> string" where
  "password_change_key i = ''pwchange:'' @ i"

text \<open>The wait before another attempt.\<close>

definition begin_attempt ::
  "string \<Rightarrow> AttemptPolicy \<Rightarrow> int \<Rightarrow> (string \<Rightarrow> AttemptRow option) \<Rightarrow> duration option \<times> (string \<Rightarrow> AttemptRow option)" where
  "begin_attempt key policy now table =
     (let (verdict, table) = begin_login_attempt key now policy table
      in (case verdict of Allowed \<Rightarrow> None | Locked wait \<Rightarrow> Some (nat wait * 1000000), table))"

datatype Refusal = RefusedClient | RefusedUntrusted | RefusedDevice | RefusedPasswordChange

definition refusal_message :: "Refusal \<Rightarrow> string \<Rightarrow> string" where
  "refusal_message r wait = (case r of
       RefusedClient \<Rightarrow> ''too many sign-in attempts from your network address; try again in '' @ wait
     | RefusedUntrusted \<Rightarrow> ''too many failed sign-in attempts for this account from unrecognised browsers; try again in '' @ wait
         @ '', or sign in from a browser you'' @ [CHR 0x27] @ ''ve used before''
     | RefusedDevice \<Rightarrow> ''too many failed sign-in attempts from this browser; try again in '' @ wait
     | RefusedPasswordChange \<Rightarrow> ''too many failed password attempts; try again in '' @ wait)"

definition human_wait :: "nat \<Rightarrow> string" where
  "human_wait wait_secs =
     (let secs = max wait_secs 1
      in if secs < 60 then show_nat secs @ '' '' @ (if secs = 1 then ''second'' else ''seconds'')
         else let mins = (secs + 59) div 60 in show_nat mins @ '' '' @ (if mins = 1 then ''minute'' else ''minutes''))"

text \<open>The refusal: its status, its message and the \<open>Retry-After\<close> it carries.\<close>

definition throttled :: "Refusal \<Rightarrow> duration \<Rightarrow> nat \<times> string \<times> nat" where
  "throttled r wait =
     (let secs = nat \<lceil>max (of_int \<lceil>as_secs wait\<rceil>) (1 :: f64)\<rceil> in (429, refusal_message r (human_wait secs), secs))"

definition CLIENT_PER_MINUTE :: u32 where "CLIENT_PER_MINUTE = 10"
definition CLIENT_BURST :: u32 where "CLIENT_BURST = 10"
definition CLIENT_MAX_TRACKED :: nat where "CLIENT_MAX_TRACKED = 100000"

definition client_limiter :: TokenBuckets where
  "client_limiter = buckets_new CLIENT_PER_MINUTE CLIENT_BURST CLIENT_MAX_TRACKED"

definition check_client ::
  "(nat \<Rightarrow> (f64 \<times> string) list \<Rightarrow> (f64 \<times> string) list) \<Rightarrow> IpAddr option \<Rightarrow> instant \<Rightarrow> TokenBuckets
   \<Rightarrow> (nat \<times> string \<times> nat + unit) \<times> TokenBuckets" where
  "check_client select client now tb = (case client of
       None \<Rightarrow> (Inr (), tb)
     | Some ip \<Rightarrow> (let (r, tb) = bucket_take select (client_bucket ip) now tb in (map_sum (throttled RefusedClient) id r, tb)))"


section \<open>Buckets stay bounded\<close>

text \<open>What the selection of the standard library leaves unchanged.\<close>

definition permutes_levels :: "(nat \<Rightarrow> (f64 \<times> string) list \<Rightarrow> (f64 \<times> string) list) \<Rightarrow> bool" where
  "permutes_levels select \<longleftrightarrow> (\<forall>n levels. mset (select n levels) = mset levels)"

definition buckets_ok :: "TokenBuckets \<Rightarrow> bool" where
  "buckets_ok tb \<longleftrightarrow> 1 \<le> tb_max_tracked tb \<and> 1 \<le> tb_capacity tb \<and> 0 < tb_refill_per_sec tb \<and> distinct (map fst (tb_buckets tb))
     \<and> length (tb_buckets tb) \<le> tb_max_tracked tb
     \<and> (\<forall>b \<in> snd ` set (tb_buckets tb). 0 \<le> bk_tokens b \<and> bk_tokens b \<le> tb_capacity tb)"

lemma entry_set_keys: "fst ` set (entry_set k b es) = insert k (fst ` set es)"
  by (induction k b es rule: entry_set.induct) (simp_all add: insert_commute)

lemma entry_set_length: "length (entry_set k b es) = (if k \<in> fst ` set es then length es else Suc (length es))"
  by (induction k b es rule: entry_set.induct) simp_all

lemma entry_set_distinct: "distinct (map fst es) \<Longrightarrow> distinct (map fst (entry_set k b es))"
  by (induction es) (auto simp: entry_set_keys)

lemma entry_set_values: "snd ` set (entry_set k b es) \<subseteq> insert b (snd ` set es)"
  by (induction k b es rule: entry_set.induct) (simp, simp, blast)

lemma entry_set_map: "map_of (entry_set k b es) = (map_of es)(k \<mapsto> b)"
  by (induction es) (auto simp: fun_eq_iff)

lemma length_without:
  assumes "distinct (map fst es)" and "D \<subseteq> fst ` set es"
  shows "length (filter (\<lambda>(k, _). k \<notin> D) es) = length es - card D"
proof -
  have "length (filter (\<lambda>(k, _). k \<notin> D) es) + length (filter (\<lambda>(k, _). k \<in> D) es) = length es"
    by (induction es) auto
  moreover have "length (filter (\<lambda>(k, _). k \<in> D) es) = card (fst ` set (filter (\<lambda>(k, _). k \<in> D) es))"
    using assms(1) by (metis distinct_card distinct_map_filter length_map set_map)
  moreover have "fst ` set (filter (\<lambda>(k, _). k \<in> D) es) = D" using assms(2) by force
  ultimately show ?thesis by simp
qed

lemma evict_length:
  assumes "permutes_levels select" and "distinct (map fst es)"
  shows "length (evict_fullest select tb excess now es) = length es - min excess (length es)"
proof -
  let ?levels = "map (\<lambda>(key, b). (bucket_level tb now b, key)) es"
  let ?n = "min excess (length es)"
  let ?chosen = "map snd (select (?n - 1) ?levels)"
  have perm: "mset (select (?n - 1) ?levels) = mset ?levels" using assms(1) by (simp add: permutes_levels_def)
  have keys: "map snd ?levels = map fst es" by auto
  have "mset ?chosen = mset (map snd ?levels)" using arg_cong [OF perm, of "image_mset snd"] by (simp only: mset_map)
  then have "mset ?chosen = mset (map fst es)" by (simp only: keys)
  note chosen = this
  have names: "distinct ?chosen" "set ?chosen = fst ` set es" "length ?chosen = length es"
    using mset_eq_imp_distinct_iff [OF chosen] assms(2) mset_eq_setD [OF chosen] mset_eq_length [OF chosen] by simp_all
  have "card (set (take ?n ?chosen)) = ?n" using names by (simp add: distinct_card)
  moreover have "set (take ?n ?chosen) \<subseteq> fst ` set es" using names(2) set_take_subset by fast
  ultimately show ?thesis
    using length_without [OF assms(2), of "set (take ?n ?chosen)"] by (simp add: evict_fullest_def Let_def take_map)
qed

lemma evict_sub: "set (evict_fullest select tb excess now es) \<subseteq> set es"
  by (auto simp: evict_fullest_def Let_def)

lemma evict_distinct: "distinct (map fst es) \<Longrightarrow> distinct (map fst (evict_fullest select tb excess now es))"
  by (auto simp: evict_fullest_def Let_def intro: distinct_map_filter)

lemma make_room_ok:
  assumes "permutes_levels select" and "buckets_ok tb"
  shows "set (make_room select key now tb) \<subseteq> set (tb_buckets tb)" and "distinct (map fst (make_room select key now tb))"
    and "length (make_room select key now tb) \<le> tb_max_tracked tb"
    and "map_of (make_room select key now tb) key = None \<Longrightarrow> length (make_room select key now tb) < tb_max_tracked tb"
proof -
  let ?idle = "filter (\<lambda>(_, b). bucket_level tb now b < tb_capacity tb - EPSILON) (tb_buckets tb)"
  let ?target = "tb_max_tracked tb - eviction_batch (tb_max_tracked tb)"
  have ok: "distinct (map fst (tb_buckets tb))" "length (tb_buckets tb) \<le> tb_max_tracked tb" "1 \<le> tb_max_tracked tb"
    using assms(2) by (auto simp: buckets_ok_def)
  have distinct: "distinct (map fst ?idle)" using ok(1) by (rule distinct_map_filter)
  have target: "?target < tb_max_tracked tb" using ok(3) by (auto simp: eviction_batch_def)
  have len: "length (evict_fullest select tb (length ?idle - ?target) now ?idle) = ?target" if "?target < length ?idle"
    using that evict_length [OF assms(1) distinct] by simp
  show "set (make_room select key now tb) \<subseteq> set (tb_buckets tb)"
    using evict_sub [of select tb "length ?idle - ?target" now ?idle] by (auto simp: make_room_def Let_def)
  show "distinct (map fst (make_room select key now tb))"
    using ok(1) distinct evict_distinct [OF distinct] by (auto simp: make_room_def Let_def)
  have swept: "length (make_room select key now tb) < tb_max_tracked tb"
    if "length (tb_buckets tb) \<ge> tb_max_tracked tb \<and> map_of (tb_buckets tb) key = None"
    using that len target by (auto simp: make_room_def Let_def not_less intro: le_less_trans)
  have kept: "make_room select key now tb = tb_buckets tb"
    if "\<not> (length (tb_buckets tb) \<ge> tb_max_tracked tb \<and> map_of (tb_buckets tb) key = None)"
    unfolding make_room_def using that by (rule if_not_P)
  show "length (make_room select key now tb) \<le> tb_max_tracked tb"
    using swept kept ok(2) by (metis less_imp_le)
  show "map_of (make_room select key now tb) key = None \<Longrightarrow> length (make_room select key now tb) < tb_max_tracked tb"
    using swept kept by (metis not_le)
qed

text \<open>C24: The memory of a limiter is bounded whatever keys the network invents: whatever it is asked, it never tracks more keys than
  its bound, each key once, and every bucket holds between none and a burst of tokens.\<close>

theorem buckets_stay_bounded:
  assumes "permutes_levels select" and "buckets_ok tb"
  shows "buckets_ok (snd (bucket_take select key now tb)) \<and> buckets_ok (buckets_new per_minute burst max_tracked)"
proof
  note room = make_room_ok [OF assms, of key now]
  let ?b = "unwrap_or (map_of (make_room select key now tb) key) \<lparr>bk_tokens = tb_capacity tb, bk_last = now\<rparr>"
  let ?level = "bucket_level tb now ?b"
  have old: "0 \<le> bk_tokens b \<and> bk_tokens b \<le> tb_capacity tb" if "b \<in> snd ` set (make_room select key now tb)" for b
    using that room(1) assms(2) by (auto simp: buckets_ok_def)
  have "0 \<le> bk_tokens ?b"
  proof (cases "map_of (make_room select key now tb) key")
    case (Some b)
    then have "b \<in> snd ` set (make_room select key now tb)" by (force dest: map_of_SomeD)
    then show ?thesis using old Some by simp
  qed (use assms(2) in \<open>simp add: buckets_ok_def\<close>)
  then have level: "0 \<le> ?level" "?level \<le> tb_capacity tb"
    using assms(2) by (auto simp: bucket_level_def refilled_def buckets_ok_def as_secs_def)
  have len: "length (entry_set key \<lparr>bk_tokens = t, bk_last = now\<rparr> (make_room select key now tb)) \<le> tb_max_tracked tb" for t
    using room(3,4) by (auto simp: entry_set_length map_of_eq_None_iff)
  have vals: "0 \<le> bk_tokens b \<and> bk_tokens b \<le> tb_capacity tb"
    if "b \<in> snd ` set (entry_set key \<lparr>bk_tokens = t, bk_last = now\<rparr> (make_room select key now tb))" "0 \<le> t" "t \<le> tb_capacity tb" for b t
  proof -
    from that(1) have "b = \<lparr>bk_tokens = t, bk_last = now\<rparr> \<or> b \<in> snd ` set (make_room select key now tb)"
      using entry_set_values by fast
    then show ?thesis using old that(2,3) by auto
  qed
  obtain t where t: "snd (bucket_take select key now tb) = tb\<lparr>tb_buckets := entry_set key \<lparr>bk_tokens = t, bk_last = now\<rparr> (make_room select key now tb)\<rparr>"
      "0 \<le> t" "t \<le> tb_capacity tb"
  proof (cases "?level \<ge> 1")
    case True
    then show ?thesis using that [of "?level - 1"] level by (simp add: bucket_take_def Let_def)
  next
    case False
    then show ?thesis using that [of ?level] level by (simp add: bucket_take_def Let_def)
  qed
  show "buckets_ok (snd (bucket_take select key now tb))"
    unfolding t(1) buckets_ok_def
  proof (intro conjI ballI)
    fix b assume "b \<in> snd ` set (tb_buckets (tb\<lparr>tb_buckets := entry_set key \<lparr>bk_tokens = t, bk_last = now\<rparr> (make_room select key now tb)\<rparr>))"
    then have "b \<in> snd ` set (entry_set key \<lparr>bk_tokens = t, bk_last = now\<rparr> (make_room select key now tb))" by simp
    from vals [OF this t(2,3)] show "0 \<le> bk_tokens b"
      and "bk_tokens b \<le> tb_capacity (tb\<lparr>tb_buckets := entry_set key \<lparr>bk_tokens = t, bk_last = now\<rparr> (make_room select key now tb)\<rparr>)"
      by simp_all
  qed (use assms(2) entry_set_distinct [OF room(2)] len in \<open>simp_all add: buckets_ok_def\<close>)
  show "buckets_ok (buckets_new per_minute burst max_tracked)" by (auto simp: buckets_ok_def buckets_new_def)
qed


theorem buckets_stay_bounded_witness:
  "buckets_ok (snd (bucket_take (\<lambda>_ levels. levels) ''k'' 0 (buckets_new 10 10 1)))"
proof -
  have "permutes_levels (\<lambda>_ levels. levels)" by (simp add: permutes_levels_def)
  moreover have "buckets_ok (buckets_new 10 10 1)" by (simp add: buckets_ok_def buckets_new_def)
  ultimately show ?thesis using buckets_stay_bounded by blast
qed

section \<open>The rate a key is held to\<close>

text \<open>How many of a sequence of requests a key is granted.\<close>

fun granted :: "(nat \<Rightarrow> (f64 \<times> string) list \<Rightarrow> (f64 \<times> string) list) \<Rightarrow> string \<Rightarrow> TokenBuckets \<Rightarrow> (string \<times> instant) list \<Rightarrow> nat" where
  "granted select k tb [] = 0"
| "granted select k tb ((key, now) # rs) = (let (r, tb') = bucket_take select key now tb
     in (if key = k \<and> r = Inr () then 1 else 0) + granted select k tb' rs)"

definition level_at :: "TokenBuckets \<Rightarrow> string \<Rightarrow> instant \<Rightarrow> f64" where
  "level_at tb k t = (case map_of (tb_buckets tb) k of Some b \<Rightarrow> bucket_level tb t b | None \<Rightarrow> tb_capacity tb)"

lemma as_secs_add: "as_secs (a + b) = as_secs a + as_secs b"
  by (simp add: as_secs_def add_divide_distrib)

lemma as_secs_mono: "a \<le> b \<Longrightarrow> as_secs a \<le> as_secs b"
  by (simp add: as_secs_def divide_right_mono)

lemma level_later:
  assumes "0 < tb_refill_per_sec tb" and "t \<le> now"
  shows "level_at tb k now \<le> level_at tb k t + as_secs (now - t) * tb_refill_per_sec tb"
proof -
  have "as_secs (now - since) * tb_refill_per_sec tb \<le> as_secs (t - since) * tb_refill_per_sec tb + as_secs (now - t) * tb_refill_per_sec tb" for since
  proof -
    have "as_secs (now - since) \<le> as_secs (t - since) + as_secs (now - t)"
      unfolding as_secs_add [symmetric] by (rule as_secs_mono) simp
    then show ?thesis using assms(1) by (simp add: mult_right_mono flip: distrib_right)
  qed
  note more = this
  have "0 \<le> as_secs (now - t) * tb_refill_per_sec tb" using assms(1) by (simp add: as_secs_def)
  then show ?thesis
    using more by (auto simp: level_at_def bucket_level_def refilled_def min_def split: option.split) (smt (verit))+
qed

lemma take_tracked:
  assumes "length (tb_buckets tb) < tb_max_tracked tb \<or> map_of (tb_buckets tb) key \<noteq> None"
  shows "bucket_take select key now tb =
    (if level_at tb key now \<ge> 1 then (Inr (), tb\<lparr>tb_buckets := entry_set key \<lparr>bk_tokens = level_at tb key now - 1, bk_last = now\<rparr> (tb_buckets tb)\<rparr>)
     else (Inl (nat \<lceil>max (of_int \<lceil>(1 - level_at tb key now) / tb_refill_per_sec tb\<rceil>) (1 :: f64)\<rceil> * 10 ^ 9),
       tb\<lparr>tb_buckets := entry_set key \<lparr>bk_tokens = level_at tb key now, bk_last = now\<rparr> (tb_buckets tb)\<rparr>))"
proof -
  have "make_room select key now tb = tb_buckets tb" using assms by (auto simp: make_room_def)
  moreover have "bucket_level tb now (unwrap_or (map_of (tb_buckets tb) key) \<lparr>bk_tokens = tb_capacity tb, bk_last = now\<rparr>) = level_at tb key now"
    by (simp add: level_at_def bucket_level_def refilled_def as_secs_def split: option.split)
  ultimately show ?thesis by (simp add: bucket_take_def Let_def)
qed

lemma level_set:
  assumes "t \<le> tb_capacity tb"
  shows "level_at (tb\<lparr>tb_buckets := entry_set key \<lparr>bk_tokens = t, bk_last = now\<rparr> (tb_buckets tb)\<rparr>) k now = (if k = key then t else level_at tb k now)"
  using assms by (simp add: level_at_def entry_set_map bucket_level_def refilled_def as_secs_def min_def split: option.split)

lemma level_le: "level_at tb k now \<le> tb_capacity tb"
  by (simp add: level_at_def bucket_level_def refilled_def split: option.split)

lemma level_grows:
  assumes "0 < tb_refill_per_sec tb" and "t \<le> now"
  shows "level_at tb k t \<le> level_at tb k now"
proof -
  have "as_secs (t - since) * tb_refill_per_sec tb \<le> as_secs (now - since) * tb_refill_per_sec tb" for since
    using assms by (intro mult_right_mono as_secs_mono) auto
  then show ?thesis by (auto simp: level_at_def bucket_level_def refilled_def min_def split: option.split) (smt (verit))
qed

lemma granted_bound:
  assumes "0 < tb_refill_per_sec tb" and "sorted (map snd reqs)" and "\<forall>r \<in> set reqs. t \<le> snd r \<and> snd r \<le> T" and "t \<le> T"
    and "0 \<le> level_at tb k t" and "card (fst ` set (tb_buckets tb) \<union> fst ` set reqs) \<le> tb_max_tracked tb"
    and "distinct (map fst (tb_buckets tb))"
  shows "real (granted select k tb reqs) \<le> level_at tb k t + as_secs (T - t) * tb_refill_per_sec tb"
  using assms
proof (induction reqs arbitrary: tb t)
  case Nil
  have "0 \<le> as_secs (T - t) * tb_refill_per_sec tb" using Nil(1) by (simp add: as_secs_def)
  then show ?case using Nil(5) by simp
next
  case (Cons r rs)
  obtain key now where r: "r = (key, now)" by fastforce
  have now: "t \<le> now" "now \<le> T" using Cons.prems(3) r by auto
  let ?keys = "fst ` set (tb_buckets tb)"
  have "map_of (tb_buckets tb) key \<noteq> None \<or> length (tb_buckets tb) < tb_max_tracked tb"
  proof (cases "key \<in> ?keys")
    case False
    have "Suc (length (tb_buckets tb)) = card (insert key ?keys)" using False Cons.prems(7) by (metis card_insert_disjoint distinct_card finite_imageI finite_set length_map set_map)
    also have "\<dots> \<le> card (?keys \<union> fst ` set (r # rs))" by (rule card_mono) (auto simp: r)
    finally show ?thesis using Cons.prems(6) by simp
  qed (simp add: map_of_eq_None_iff)
  then have room: "length (tb_buckets tb) < tb_max_tracked tb \<or> map_of (tb_buckets tb) key \<noteq> None" by blast
  obtain t' res where tb': "bucket_take select key now tb = (res, tb\<lparr>tb_buckets := entry_set key \<lparr>bk_tokens = t', bk_last = now\<rparr> (tb_buckets tb)\<rparr>)"
      "t' = (if res = Inr () then level_at tb key now - 1 else level_at tb key now)" "res = Inr () \<longleftrightarrow> level_at tb key now \<ge> 1"
    unfolding take_tracked [OF room] by (cases "level_at tb key now \<ge> 1") auto
  let ?tb' = "tb\<lparr>tb_buckets := entry_set key \<lparr>bk_tokens = t', bk_last = now\<rparr> (tb_buckets tb)\<rparr>"
  have t': "t' \<le> tb_capacity tb" using tb'(2) level_le [of tb key now] by (auto split: if_splits)
  have level: "level_at ?tb' k now = (if k = key then t' else level_at tb k now)" by (rule level_set [OF t'])
  have at_now: "0 \<le> level_at tb k now" using level_grows [OF Cons.prems(1) now(1), of k] Cons.prems(5) by linarith
  have nonneg: "0 \<le> level_at ?tb' k now" using level at_now tb'(2,3) by (auto split: if_splits)
  have "real (granted select k ?tb' rs) \<le> level_at ?tb' k now + as_secs (T - now) * tb_refill_per_sec ?tb'"
  proof (rule Cons.IH)
    show "\<forall>r \<in> set rs. now \<le> snd r \<and> snd r \<le> T" using Cons.prems(2,3) r by auto
    show "card (fst ` set (tb_buckets ?tb') \<union> fst ` set rs) \<le> tb_max_tracked ?tb'"
      using Cons.prems(6) by (simp add: entry_set_keys r insert_commute Un_commute)
  qed (use Cons.prems(1,2,7) now(2) nonneg in \<open>simp_all add: entry_set_distinct\<close>)
  then have ih: "real (granted select k ?tb' rs) \<le> level_at ?tb' k now + as_secs (T - now) * tb_refill_per_sec tb" by simp
  have step: "real (granted select k tb (r # rs)) = (if key = k \<and> res = Inr () then 1 else 0) + real (granted select k ?tb' rs)"
    by (simp add: r tb'(1))
  have "real (granted select k tb (r # rs)) \<le> level_at tb k now + as_secs (T - now) * tb_refill_per_sec tb"
    using ih level tb'(2) unfolding step by (auto split: if_splits)
  also have "\<dots> \<le> level_at tb k t + as_secs (now - t) * tb_refill_per_sec tb + as_secs (T - now) * tb_refill_per_sec tb"
    using level_later [OF Cons.prems(1) now(1), of k] by simp
  also have "\<dots> = level_at tb k t + as_secs (T - t) * tb_refill_per_sec tb"
    using now by (simp add: distrib_right [symmetric] as_secs_add [symmetric])
  finally show ?case .
qed



text \<open>A client that honours \<open>Retry-After\<close> succeeds: once a refused key has waited as long as it was told, at least a second, its
  next request is granted, if nothing else happened to its bucket meanwhile.\<close>

theorem retry_after_is_enough:
  assumes "buckets_ok tb" and "bucket_take select key now tb = (Inl wait, tb')" and "now + wait \<le> later"
  shows "fst (bucket_take select key later tb') = Inr () \<and> 10 ^ 9 \<le> wait"
proof -
  define level where "level = bucket_level tb now (unwrap_or (map_of (make_room select key now tb) key) \<lparr>bk_tokens = tb_capacity tb, bk_last = now\<rparr>)"
  define secs where "secs = max (of_int \<lceil>(1 - level) / tb_refill_per_sec tb\<rceil>) (1 :: f64)"
  have ok: "1 \<le> tb_capacity tb" "0 < tb_refill_per_sec tb" using assms(1) by (auto simp: buckets_ok_def)
  have level: "level < 1" and wait: "wait = nat \<lceil>secs\<rceil> * 10 ^ 9"
    and tb': "tb' = tb\<lparr>tb_buckets := entry_set key \<lparr>bk_tokens = level, bk_last = now\<rparr> (make_room select key now tb)\<rparr>"
    using assms(2) by (auto simp: bucket_take_def Let_def level_def secs_def split: if_splits)
  have "(1 - level) / tb_refill_per_sec tb \<le> secs" "1 \<le> secs" unfolding secs_def by linarith+
  moreover have "secs \<le> as_secs wait" unfolding wait by (simp add: as_secs_def) linarith
  ultimately have long: "(1 - level) / tb_refill_per_sec tb \<le> as_secs wait" and "1 \<le> nat \<lceil>secs\<rceil>" by linarith+
  have "as_secs wait \<le> as_secs (later - now)" using assms(3) by (intro as_secs_mono) simp
  with long have "(1 - level) / tb_refill_per_sec tb \<le> as_secs (later - now)" by linarith
  then have "1 \<le> level + as_secs (later - now) * tb_refill_per_sec tb" using ok(2) by (simp add: pos_divide_le_eq)
  then have "1 \<le> level_at tb' key later" using ok(1) by (simp add: level_at_def tb' entry_set_map bucket_level_def refilled_def)
  moreover have "map_of (tb_buckets tb') key \<noteq> None" by (simp add: tb' entry_set_map)
  ultimately have "fst (bucket_take select key later tb') = Inr ()" by (subst take_tracked) simp_all
  moreover have "10 ^ 9 \<le> wait" using \<open>1 \<le> nat \<lceil>secs\<rceil>\<close> by (simp add: wait)
  ultimately show ?thesis ..
qed

theorem retry_after_is_enough_witness:
  "\<exists>wait tb'. bucket_take (\<lambda>_ levels. levels) ''a'' 0 ((buckets_new 60 1 4)\<lparr>tb_buckets := [(''a'', \<lparr>bk_tokens = 0, bk_last = 0\<rparr>)]\<rparr>) = (Inl wait, tb')
    \<and> fst (bucket_take (\<lambda>_ levels. levels) ''a'' wait tb') = Inr ()"
proof -
  let ?tb = "(buckets_new 60 1 4)\<lparr>tb_buckets := [(''a'', \<lparr>bk_tokens = 0, bk_last = 0\<rparr>)]\<rparr>"
  have ok: "buckets_ok ?tb" by (simp add: buckets_ok_def buckets_new_def)
  obtain wait tb' where take: "bucket_take (\<lambda>_ levels. levels) ''a'' 0 ?tb = (Inl wait, tb')"
    by (simp add: bucket_take_def make_room_def buckets_new_def bucket_level_def refilled_def as_secs_def Let_def)
  from retry_after_is_enough [OF ok take, of wait] take show ?thesis by auto
qed

section \<open>Guesses are bounded\<close>

text \<open>How many of a sequence of attempts at a key, none of which succeeds, are allowed.\<close>

fun allowed :: "string \<Rightarrow> AttemptPolicy \<Rightarrow> (string \<Rightarrow> AttemptRow option) \<Rightarrow> int list \<Rightarrow> int" where
  "allowed key policy table [] = 0"
| "allowed key policy table (now # ts) = (let (verdict, table) = begin_login_attempt key now policy table
     in (if verdict = Allowed then 1 else 0) + allowed key policy table ts)"

lemma lock_duration_exact:
  assumes "0 < at_lock_base_ms policy" and "at_lock_base_ms policy \<le> at_lock_cap_ms policy" and "at_lock_cap_ms policy \<le> i64_max"
  shows "lock_duration_ms n policy = min (at_lock_base_ms policy * 2 ^ nat (min 20 (max 0 (n - 1)))) (at_lock_cap_ms policy)"
proof -
  have "0 < at_lock_base_ms policy * 2 ^ nat (min 20 (max 0 (n - 1)))" using assms(1) by simp
  moreover have "- i64_max - 1 < 0" by (simp add: i64_max_def)
  ultimately show ?thesis using assms(3) by (simp add: lock_duration_ms_def Let_def min_def max_def)
qed

lemma lock_duration_base:
  assumes "0 < at_lock_base_ms policy" and "at_lock_base_ms policy \<le> at_lock_cap_ms policy" and "at_lock_cap_ms policy \<le> i64_max"
  shows "at_lock_base_ms policy \<le> lock_duration_ms n policy"
proof -
  have "at_lock_base_ms policy * 1 \<le> at_lock_base_ms policy * 2 ^ nat (min 20 (max 0 (n - 1)))"
    using assms(1) by (intro mult_left_mono) simp_all
  then show ?thesis using assms by (simp add: lock_duration_exact)
qed

text \<open>What a key may still be allowed up to a time \<open>horizon\<close> once a new window or lock begins at \<open>x\<close>.\<close>

definition quota :: "int \<Rightarrow> int \<Rightarrow> int \<Rightarrow> int \<Rightarrow> int" where
  "quota m limit horizon x = (if x \<le> horizon then 2 * limit * (1 + (horizon - x) div m) else 0)"

lemma quota_step: "0 < m \<Longrightarrow> x \<le> horizon \<Longrightarrow> 0 \<le> limit \<Longrightarrow> 2 * limit + quota m limit horizon (x + m) \<le> quota m limit horizon x"
proof -
  assume m: "0 < m" and x: "x \<le> horizon" and l: "0 \<le> limit"
  show ?thesis
  proof (cases "x + m \<le> horizon")
    case True
    have "(horizon - x) div m = ((horizon - (x + m)) + m) div m" by simp
    also have "\<dots> = (horizon - (x + m)) div m + 1" using m by (intro div_add_self2) simp
    finally have "(horizon - (x + m)) div m = (horizon - x) div m - 1" by simp
    then show ?thesis using True x by (simp add: quota_def algebra_simps)
  next
    case False
    have "0 \<le> (horizon - x) div m" using m x by (simp add: pos_imp_zdiv_nonneg_iff)
    then show ?thesis using False x l by (simp add: quota_def algebra_simps)
  qed
qed


lemma quota_mono:
  assumes "0 < m" and "0 \<le> limit" and "x \<le> y"
  shows "quota m limit horizon y \<le> quota m limit horizon x" and "0 \<le> quota m limit horizon x"
proof -
  show "quota m limit horizon y \<le> quota m limit horizon x" "0 \<le> quota m limit horizon x"
    using assms zdiv_mono1 [of "horizon - y" "horizon - x" m] pos_imp_zdiv_nonneg_iff [of m "horizon - x"]
    by (auto simp: quota_def intro!: mult_left_mono mult_nonneg_nonneg)
qed

text \<open>The same for a row: what its window still holds, and the windows and locks that can follow. Before its lock ends nothing is
  allowed.\<close>

definition next_period :: "int \<Rightarrow> int \<Rightarrow> int \<Rightarrow> int \<Rightarrow> int \<Rightarrow> int" where
  "next_period m limit horizon start x = max (quota m limit horizon x - limit) (quota m limit horizon (max x (start + m)))"

definition row_quota :: "int \<Rightarrow> AttemptPolicy \<Rightarrow> int \<Rightarrow> int \<Rightarrow> AttemptRow option \<Rightarrow> int" where
  "row_quota m policy horizon t row = (case row of
       None \<Rightarrow> quota m (at_max_failures policy) horizon t
     | Some r \<Rightarrow> (let x = max t (ar_locked_until r)
         in if x > horizon then 0 else max 0 (at_max_failures policy - ar_failures r)
              + next_period m (at_max_failures policy) horizon (ar_window_start r) x))"

lemma next_period_bounds:
  assumes "0 < m" and "0 \<le> limit" and "x \<le> now"
  shows "quota m limit horizon now - limit \<le> next_period m limit horizon start x"
    and "start + m \<le> now \<Longrightarrow> quota m limit horizon now \<le> next_period m limit horizon start x"
    and "next_period m limit horizon start now \<le> next_period m limit horizon start x"
    and "now \<le> horizon \<Longrightarrow> limit + next_period m limit horizon now now \<le> quota m limit horizon now"
proof -
  note mono = quota_mono(1) [OF assms(1,2)]
  have g: "quota m limit horizon now \<le> quota m limit horizon x" using mono assms(3) by blast
  then show "quota m limit horizon now - limit \<le> next_period m limit horizon start x" by (simp add: next_period_def)
  show "quota m limit horizon now \<le> next_period m limit horizon start x" if "start + m \<le> now"
    using mono [of "max x (start + m)" now] that assms(3) by (simp add: next_period_def max.coboundedI2)
  have "quota m limit horizon (max now (start + m)) \<le> quota m limit horizon (max x (start + m))" using assms(3) by (intro mono) simp
  then show "next_period m limit horizon start now \<le> next_period m limit horizon start x"
    using g by (auto simp: next_period_def intro: max.coboundedI1 max.coboundedI2)
  show "limit + next_period m limit horizon now now \<le> quota m limit horizon now" if "now \<le> horizon"
    using quota_step [OF assms(1) that assms(2)] assms(1,2) by (simp add: next_period_def max_def)
qed

lemma lock_spends:
  assumes "0 < m" and "0 \<le> at_max_failures policy" and "now + m \<le> ar_locked_until r" and "ar_failures r = 0" and "ar_window_start r = now"
    and "now \<le> horizon"
  shows "row_quota m policy horizon now (Some r) \<le> quota m (at_max_failures policy) horizon now - at_max_failures policy"
proof -
  have step: "2 * at_max_failures policy + quota m (at_max_failures policy) horizon (now + m) \<le> quota m (at_max_failures policy) horizon now"
    by (rule quota_step [OF assms(1,6,2)])
  have x: "max now (ar_locked_until r) = ar_locked_until r" using assms(1,3) by simp
  have "quota m (at_max_failures policy) horizon (ar_locked_until r) \<le> quota m (at_max_failures policy) horizon (now + m)"
    by (rule quota_mono(1) [OF assms(1,2,3)])
  moreover have "0 \<le> quota m (at_max_failures policy) horizon (now + m)" by (rule quota_mono(2) [OF assms(1,2) order_refl])
  moreover have "max (ar_locked_until r) (now + m) = ar_locked_until r" using assms(3) by simp
  moreover have "max (v - at_max_failures policy) v = v" for v using assms(2) by simp
  ultimately show ?thesis
    using step assms(2,4,5) by (simp add: row_quota_def x Let_def next_period_def)
qed

lemma attempt_spends:
  assumes "0 < m" and "m \<le> ATTEMPT_WINDOW_MS" and "0 \<le> at_max_failures policy"
    and "\<And>n. m \<le> lock_duration_ms n policy" and "t \<le> now" and "now \<le> horizon" and "0 \<le> now"
  shows "(if fst (begin_login_attempt key now policy table) = Allowed then 1 else 0)
      + row_quota m policy horizon now (snd (begin_login_attempt key now policy table) key) \<le> row_quota m policy horizon t (table key)"
proof -
  let ?M = "at_max_failures policy"
  let ?g = "quota m ?M horizon"
  define row where "row = upsert_attempt now (table key)"
  have lock: "row_quota m policy horizon now (Some (row\<lparr>ar_failures := 0, ar_window_start := now, ar_locked_until := now + lock_duration_ms n policy,
      ar_lockouts := n, ar_lockout_window_start := now\<rparr>)) \<le> ?g now - ?M" for n
    by (rule lock_spends [OF assms(1,3) _ _ _ assms(6)]) (use assms(4) in simp_all)
  have spent: "(if fst (begin_login_attempt key now policy table) = Allowed then 1 else 0)
      + row_quota m policy horizon now (snd (begin_login_attempt key now policy table) key)
    \<le> (if ar_failures row \<le> ?M then 1 + row_quota m policy horizon now (Some row) else ?g now - ?M)" if "ar_locked_until row \<le> now"
    using that lock by (auto simp: begin_login_attempt_def Let_def row_def [symmetric])
  note bounds = next_period_bounds [OF assms(1,3)]
  have fresh: "(if ar_failures row \<le> ?M then 1 + row_quota m policy horizon now (Some row) else ?g now - ?M) \<le> ?g now"
    if "ar_failures row = 1" "ar_window_start row = now" "ar_locked_until row \<le> now"
    using that assms(3,6) bounds(4) [OF order_refl assms(6)] by (simp add: row_quota_def Let_def max_def)
  show ?thesis
  proof (cases "table key")
    case None
    then have row: "ar_failures row = 1" "ar_window_start row = now" "ar_locked_until row = 0" by (simp_all add: row_def upsert_attempt_def)
    have "?g now \<le> ?g t" by (rule quota_mono(1) [OF assms(1,3,5)])
    then show ?thesis using spent fresh row None assms(7) by (simp add: row_quota_def)
  next
    case (Some r)
    show ?thesis
    proof (cases "ar_locked_until r > now")
      case True
      then have "begin_login_attempt key now policy table = (Locked (ar_locked_until r - now), table(key \<mapsto> r))"
        by (simp add: begin_login_attempt_def upsert_attempt_def Some)
      moreover have "max now (ar_locked_until r) = max t (ar_locked_until r)" using True assms(5) by simp
      ultimately show ?thesis using Some by (simp add: row_quota_def Let_def)
    next
      case False
      let ?x = "max t (ar_locked_until r)"
      have x: "?x \<le> now" "\<not> ?x > horizon" using False assms(5,6) by auto
      have rhs: "row_quota m policy horizon t (table key) = max 0 (?M - ar_failures r) + next_period m ?M horizon (ar_window_start r) ?x"
        using x(2) by (simp add: row_quota_def Some Let_def)
      have locked: "ar_locked_until row \<le> now" using False by (simp add: row_def upsert_attempt_def Some)
      show ?thesis
      proof (cases "ar_window_start r + ATTEMPT_WINDOW_MS \<le> now")
        case True
        then have "ar_failures row = 1" "ar_window_start row = now" using False by (simp_all add: row_def upsert_attempt_def Some)
        note fresh [OF this locked]
        moreover have "?g now \<le> next_period m ?M horizon (ar_window_start r) ?x" using True assms(2) x(1) by (intro bounds(2)) simp_all
        ultimately show ?thesis using spent [OF locked] rhs by linarith
      next
        case False2: False
        then have row: "ar_failures row = ar_failures r + 1" "ar_window_start row = ar_window_start r" using False
          by (simp_all add: row_def upsert_attempt_def Some)
        have new: "row_quota m policy horizon now (Some row) = max 0 (?M - (ar_failures r + 1)) + next_period m ?M horizon (ar_window_start r) now"
          using locked assms(6) row by (simp add: row_quota_def Let_def max_def)
        show ?thesis using spent [OF locked] rhs new row bounds(1,3) [OF x(1), where horizon = horizon and start = "ar_window_start r"]
          by (auto split: if_splits)
      qed
    qed
  qed
qed

lemma begin_other_key: "k \<noteq> key \<Longrightarrow> snd (begin_login_attempt key now policy table) k = table k"
  by (simp add: begin_login_attempt_def Let_def)

lemma allowed_quota:
  assumes "0 < m" and "m \<le> ATTEMPT_WINDOW_MS" and "0 \<le> at_max_failures policy" and "\<And>n. m \<le> lock_duration_ms n policy" and "0 \<le> t"
  shows "sorted moments \<Longrightarrow> \<forall>now \<in> set moments. t \<le> now \<and> now \<le> horizon \<Longrightarrow> allowed key policy table moments \<le> row_quota m policy horizon t (table key)"
  using assms(5)
proof (induction moments arbitrary: t table)
  case Nil
  have "0 \<le> quota m (at_max_failures policy) horizon x" for x by (rule quota_mono(2) [OF assms(1,3) order_refl])
  then have "0 \<le> next_period m (at_max_failures policy) horizon start x" for start x by (simp add: next_period_def max.coboundedI2)
  then show ?case using \<open>\<And>x. 0 \<le> quota m (at_max_failures policy) horizon x\<close>
    by (simp add: row_quota_def Let_def add_nonneg_nonneg split: option.split)
next
  case (Cons now ts)
  have now: "t \<le> now" "now \<le> horizon" "0 \<le> now" using Cons.prems by auto
  have "allowed key policy (snd (begin_login_attempt key now policy table)) ts
      \<le> row_quota m policy horizon now (snd (begin_login_attempt key now policy table) key)"
    by (rule Cons.IH) (use Cons.prems now in auto)
  then show ?case using attempt_spends [OF assms(1-4) now, of key table] by (auto simp: case_prod_beta)
qed

text \<open>C20: Guessing a password is bounded. Whatever state an account's row is in, of the attempts at it that do not succeed no more are
  allowed in any stretch of time than three times the limit of the policy and twice that limit for every shortest lock (or
  window, if that is shorter) that fits into it, however the attempts are timed.\<close>

theorem guessing_is_bounded:
  assumes "0 \<le> at_max_failures policy" and "0 < at_lock_base_ms policy" and "at_lock_base_ms policy \<le> at_lock_cap_ms policy"
    and "at_lock_cap_ms policy \<le> i64_max" and "sorted attempts" and "attempts \<noteq> []" and "0 \<le> hd attempts"
    and "\<And>r. table key = Some r \<Longrightarrow> 0 \<le> ar_failures r"
  shows "allowed key policy table attempts
    \<le> at_max_failures policy * (3 + 2 * ((last attempts - hd attempts) div min (at_lock_base_ms policy) ATTEMPT_WINDOW_MS))"
proof -
  let ?m = "min (at_lock_base_ms policy) ATTEMPT_WINDOW_MS"
  let ?M = "at_max_failures policy"
  let ?g = "quota ?m ?M (last attempts)"
  have m: "0 < ?m" "?m \<le> ATTEMPT_WINDOW_MS" using assms(2) by (simp_all add: ATTEMPT_WINDOW_MS_def)
  have base: "?m \<le> lock_duration_ms n policy" for n using lock_duration_base [OF assms(2-4), of n] by simp
  have span: "\<forall>now \<in> set attempts. hd attempts \<le> now \<and> now \<le> last attempts"
    using assms(5,6) by (metis in_set_conv_nth hd_conv_nth last_conv_nth sorted_nth_mono diff_less length_greater_0_conv less_Suc_eq_le Suc_pred' zero_less_one zero_le less_imp_diff_less)
  have "allowed key policy table attempts \<le> row_quota ?m policy (last attempts) (hd attempts) (table key)"
    by (rule allowed_quota [OF m assms(1) base assms(7,5) span])
  also have "\<dots> \<le> ?M + ?g (hd attempts)"
  proof (cases "table key")
    case None
    then show ?thesis using assms(1) by (simp add: row_quota_def)
  next
    case (Some r)
    let ?x = "max (hd attempts) (ar_locked_until r)"
    note mono = quota_mono [OF m(1) assms(1), where horizon = "last attempts"]
    have "next_period ?m ?M (last attempts) (ar_window_start r) ?x \<le> ?g (hd attempts)"
      using mono(1) [of "hd attempts" ?x] mono(1) [of "hd attempts" "max ?x (ar_window_start r + ?m)"] assms(1)
      by (simp add: next_period_def)
    moreover have "0 \<le> ?M + ?g (hd attempts)" using mono(2) [OF order_refl] assms(1) by simp
    moreover have "max 0 (?M - ar_failures r) \<le> ?M" using assms(1,8) Some by simp
    ultimately show ?thesis
      using add_mono [of "max 0 (?M - ar_failures r)" ?M] by (simp add: row_quota_def Some Let_def)
  qed
  also have "\<dots> = ?M * (3 + 2 * ((last attempts - hd attempts) div ?m))"
    using span assms(6) by (simp add: quota_def algebra_simps)
  finally show ?thesis .
qed

theorem guessing_is_bounded_witness:
  "allowed ''a'' UNTRUSTED (\<lambda>_. None) [0, 1000, 600000] \<le> 10 * (3 + 2 * 2)"
  using guessing_is_bounded [of UNTRUSTED "[0, 1000, 600000]" "\<lambda>_. None" "''a''"]
  by (simp add: UNTRUSTED_def i64_max_def ATTEMPT_WINDOW_MS_def del: allowed.simps)

text \<open>A lock doubles with every one that follows within a day of the last, from the base of its policy up to its cap, and never
  beyond.\<close>

theorem locks_escalate:
  assumes "0 < at_lock_base_ms policy" and "at_lock_base_ms policy \<le> at_lock_cap_ms policy" and "at_lock_cap_ms policy \<le> i64_max"
    and "n \<le> 20"
  shows "lock_duration_ms (int n + 1) policy = min (at_lock_base_ms policy * 2 ^ n) (at_lock_cap_ms policy)"
  using assms(4) by (simp add: lock_duration_exact [OF assms(1-3)])

section \<open>Pruning is invisible\<close>

datatype AttemptOp = Attempt string AttemptPolicy | Success string | Prune

text \<open>The verdicts of a sequence of timed operations.\<close>

fun attempt_ops :: "(string \<Rightarrow> AttemptRow option) \<Rightarrow> (int \<times> AttemptOp) list \<Rightarrow> AttemptVerdict list" where
  "attempt_ops table [] = []"
| "attempt_ops table ((now, op) # rest) = (case op of
       Attempt key policy \<Rightarrow> (let (verdict, table) = begin_login_attempt key now policy table in verdict # attempt_ops table rest)
     | Success key \<Rightarrow> attempt_ops (clear_login_attempts key table) rest
     | Prune \<Rightarrow> attempt_ops (prune_login_attempts now table) rest)"

text \<open>Two rows that no attempt from a time on can tell apart.\<close>

definition window_over :: "int \<Rightarrow> AttemptRow option \<Rightarrow> bool" where
  "window_over t row \<longleftrightarrow> (case row of None \<Rightarrow> True | Some r \<Rightarrow> ar_window_start r + ATTEMPT_WINDOW_MS \<le> t)"

definition lock_over :: "int \<Rightarrow> AttemptRow option \<Rightarrow> bool" where
  "lock_over t row \<longleftrightarrow> (case row of None \<Rightarrow> True | Some r \<Rightarrow> ar_locked_until r \<le> t)"

definition chain_over :: "int \<Rightarrow> AttemptRow option \<Rightarrow> bool" where
  "chain_over t row \<longleftrightarrow> (case row of None \<Rightarrow> True | Some r \<Rightarrow> ar_lockouts r = 0 \<or> ar_lockout_window_start r + LOCKOUT_ESCALATION_MS \<le> t)"

definition alike_rows :: "int \<Rightarrow> AttemptRow option \<Rightarrow> AttemptRow option \<Rightarrow> bool" where
  "alike_rows t a b \<longleftrightarrow>
     (window_over t a \<and> window_over t b \<or> (\<exists>r s. a = Some r \<and> b = Some s \<and> ar_failures r = ar_failures s \<and> ar_window_start r = ar_window_start s))
   \<and> (lock_over t a \<and> lock_over t b \<or> (\<exists>r s. a = Some r \<and> b = Some s \<and> ar_locked_until r = ar_locked_until s))
   \<and> (chain_over t a \<and> chain_over t b \<or> (\<exists>r s. a = Some r \<and> b = Some s \<and> ar_lockouts r = ar_lockouts s
        \<and> ar_lockout_window_start r = ar_lockout_window_start s))"

lemmas over_defs = window_over_def lock_over_def chain_over_def

lemma alike_later: "alike_rows t a b \<Longrightarrow> t \<le> now \<Longrightarrow> alike_rows now a b"
  by (fastforce simp: alike_rows_def over_defs split: option.splits)

lemma alike_refl: "alike_rows t a a"
  by (cases a) (auto simp: alike_rows_def over_defs)

lemma prunable_over: "prunable now r \<longleftrightarrow> window_over now (Some r) \<and> lock_over now (Some r) \<and> chain_over now (Some r)"
  by (auto simp: prunable_def over_defs)

lemma alike_pruned: "alike_rows now a b \<Longrightarrow> alike_rows now (Option.bind a (\<lambda>r. then_some (\<not> prunable now r) r)) b"
  by (cases a) (auto simp: alike_rows_def prunable_over over_defs split: option.splits)

lemma alike_attempt:
  assumes "alike_rows now (A key) (B key)" and "0 \<le> now"
  shows "fst (begin_login_attempt key now policy A) = fst (begin_login_attempt key now policy B)
    \<and> alike_rows now (snd (begin_login_attempt key now policy A) key) (snd (begin_login_attempt key now policy B) key)"
proof -
  let ?a = "upsert_attempt now (A key)" and ?b = "upsert_attempt now (B key)"
  have row: "alike_rows now (Some ?a) (Some ?b)"
    using assms by (cases "A key"; cases "B key") (auto simp: alike_rows_def upsert_attempt_def over_defs ATTEMPT_WINDOW_MS_def)
  have lock: "ar_locked_until ?a > now \<longleftrightarrow> ar_locked_until ?b > now" "ar_locked_until ?a > now \<Longrightarrow> ar_locked_until ?a = ar_locked_until ?b"
    using row by (auto simp: alike_rows_def lock_over_def)
  have chain: "chain_over now (Some ?a) \<longleftrightarrow> chain_over now (Some ?b)" "\<not> chain_over now (Some ?a) \<Longrightarrow> ar_lockouts ?a = ar_lockouts ?b"
    using row by (auto simp: alike_rows_def chain_over_def)
  have fail: "ar_failures ?a = ar_failures ?b" if "\<not> ar_locked_until ?a > now"
    using assms that lock(1)
    by (cases "A key"; cases "B key") (auto simp: alike_rows_def upsert_attempt_def over_defs split: if_splits)
  have attempt: "begin_login_attempt key now policy T = (let row = upsert_attempt now (T key);
      ordinal = (if chain_over now (Some row) then 1 else ar_lockouts row + 1)
    in if ar_locked_until row > now then (Locked (ar_locked_until row - now), T(key \<mapsto> row))
       else if ar_failures row \<le> at_max_failures policy then (Allowed, T(key \<mapsto> row))
       else (Locked (lock_duration_ms ordinal policy), T(key \<mapsto> row\<lparr>ar_failures := 0, ar_window_start := now,
         ar_locked_until := now + lock_duration_ms ordinal policy, ar_lockouts := ordinal, ar_lockout_window_start := now\<rparr>)))" for T
    by (simp add: begin_login_attempt_def chain_over_def Let_def)
  show ?thesis
  proof (cases "ar_locked_until ?a > now")
    case True
    then show ?thesis using row lock by (simp add: attempt Let_def)
  next
    case False
    note same = fail [OF False] lock(1) False
    show ?thesis
    proof (cases "ar_failures ?b \<le> at_max_failures policy")
      case True
      then show ?thesis using row same by (simp add: attempt Let_def)
    next
      case over: False
      have "(if chain_over now (Some ?a) then 1 else ar_lockouts ?a + 1) = (if chain_over now (Some ?b) then 1 else ar_lockouts ?b + 1)"
        using chain by auto
      then show ?thesis using same over by (simp add: attempt Let_def alike_rows_def del: if_split)
    qed
  qed
qed

lemma attempt_ops_alike:
  assumes "\<And>key. alike_rows t (A key) (B key)" and "sorted (map fst ops)" and "\<forall>op \<in> set ops. t \<le> fst op" and "0 \<le> t"
  shows "attempt_ops A ops = attempt_ops B (filter (\<lambda>(_, op). op \<noteq> Prune) ops)"
  using assms
proof (induction ops arbitrary: t A B)
  case (Cons timed ops)
  obtain now op where timed: "timed = (now, op)" by fastforce
  have now: "t \<le> now" "0 \<le> now" using Cons.prems(3,4) timed by auto
  have later: "\<forall>op \<in> set ops. now \<le> fst op" "sorted (map fst ops)" using Cons.prems(2) timed by auto
  have alike: "alike_rows now (A key) (B key)" for key using alike_later [OF Cons.prems(1) now(1)] .
  note ih = Cons.IH [OF _ later(2,1) now(2)]
  show ?case
  proof (cases op)
    case (Attempt key policy)
    have "alike_rows now (snd (begin_login_attempt key now policy A) k) (snd (begin_login_attempt key now policy B) k)" for k
      using alike_attempt [where A = A and B = B and key = key and policy = policy, OF alike now(2)] alike [of k] begin_other_key [of k key now policy] by (cases "k = key") simp_all
    from ih [OF this] alike_attempt [where A = A and B = B and key = key and policy = policy, OF alike now(2)] show ?thesis
      by (simp add: timed Attempt case_prod_beta)
  next
    case (Success key)
    have "alike_rows now (clear_login_attempts key A k) (clear_login_attempts key B k)" for k
      using alike [of k] alike_refl by (simp add: clear_login_attempts_def)
    from ih [OF this] show ?thesis by (simp add: timed Success)
  next
    case Prune
    have "alike_rows now (prune_login_attempts now A k) (B k)" for k
      unfolding prune_login_attempts_def by (rule alike_pruned [OF alike])
    from ih [OF this] show ?thesis by (simp add: timed Prune)
  qed
qed simp

text \<open>C22: Pruning the table changes nothing a caller can see: leaving out every prune of a history of attempts, successes and prunes, in
  the order of their times, leaves every verdict as it was.\<close>

theorem prune_is_invisible:
  assumes "sorted (map fst ops)" and "\<forall>op \<in> set ops. 0 \<le> fst op"
  shows "attempt_ops table ops = attempt_ops table (filter (\<lambda>(_, op). op \<noteq> Prune) ops)"
  by (rule attempt_ops_alike [OF alike_refl assms order_refl])

theorem prune_is_invisible_witness:
  "attempt_ops (\<lambda>_. None) [(0, Attempt ''a'' DEVICE), (900000, Prune), (900001, Attempt ''a'' DEVICE)]
   = attempt_ops (\<lambda>_. None) [(0, Attempt ''a'' DEVICE), (900001, Attempt ''a'' DEVICE)]"
  by (subst prune_is_invisible) simp_all

end
