(* ===== verification/Spec2Isabelle.thy ===== *)
theory Spec2Isabelle
  imports RunDriver HttpProvider Graders Throttle
begin

text \<open>
  Verification of the core of domarinn, an evaluation engine for language model suites (Rust, \<open>src/crates\<close>).

  A suite names providers, prompts and tests. A run expands the tests, plans one cell for every provider, prompt, test and
  repetition, renders each cell, asks its provider through a cache, judges the answer by assertions and reports one case
  per cell, a summary and the provenance of the run. Two runs can be compared and several can be combined.

  \<^bold>\<open>Theories and the code they model\<close> (files of \<open>domarinn-core/src\<close> unless another crate is named).

  \<^item> \<open>Prelude\<close>: strings as lists of characters, saturating and wrapping arithmetic, sums, ordered maps and the lemma
    collections every theory uses. \<open>Json\<close>: JSON values, canonical JSON and the cache keys (\<open>cache_key.rs\<close>).
    \<open>Values\<close>: the types of results (\<open>domarinn-types\<close>). \<open>Template\<close>, \<open>Render\<close>: values, vars, history, prompts and the
    \<open>file://\<close> sandbox (\<open>val.rs\<close>, \<open>template.rs\<close>, \<open>render.rs\<close>, \<open>sandbox.rs\<close>, \<open>config_history.rs\<close>).
    \<open>Config\<close>: provider, request and grader blocks. \<open>Pricing\<close>: rates and costs (\<open>pricing.rs\<close>).
  \<^item> \<open>Asserts\<close>: the local assertions and their negation (\<open>asserts.rs\<close>, \<open>assertion.rs\<close>, \<open>jsonschema_cache.rs\<close>).
    \<open>Scoring\<close>: the verdict of a case (\<open>scoring.rs\<close>). \<open>GraderCache\<close>: the cached exchange with a grader
    (\<open>request_cache.rs\<close>). \<open>RunnerAsserts\<close>: both passes over the assertions of a case (\<open>runner_asserts.rs\<close>).
  \<^item> \<open>Cache\<close>, \<open>Disk\<close>: cache entries, the backend interface and the layered, read-only and disk stores (\<open>cache.rs\<close> and
    \<open>domarinn-cache\<close>). \<open>CallCache\<close>: the read-through call (\<open>runner_cache.rs\<close>, \<open>cache_adopt.rs\<close>, \<open>empty_policy.rs\<close>).
  \<^item> \<open>Provider\<close>, \<open>RateLimit\<close>, \<open>Retry\<close>, \<open>Fallback\<close>: the provider interface, the limiter, the retry loop and the chain of
    fallbacks with the filters (\<open>provider.rs\<close>, \<open>rate_limit.rs\<close>, \<open>retry.rs\<close>, \<open>runner_fallback.rs\<close>, \<open>filter.rs\<close>).
    \<open>Requests\<close>: what a vendor provider sends and what of it enters the key (\<open>request_cfg.rs\<close>, \<open>net.rs\<close>).
    \<open>ChatWire\<close>, \<open>Vendors\<close>: conversations with tool calls and the two vendor clients (\<open>chat_wire.rs\<close>, \<open>anthropic.rs\<close>,
    \<open>openai.rs\<close>). \<open>HttpProvider\<close>: the templated client (\<open>http_provider.rs\<close>). \<open>Exec\<close>: child processes, the exec protocol and
    provider, program digests (\<open>exec.rs\<close>, \<open>domarinn-protocol\<close>, \<open>exec_provider.rs\<close>, \<open>cache_migrate.rs\<close>).
  \<^item> \<open>Judge\<close>: the judge of a rubric, its message, request and verdict (\<open>grader.rs\<close>, \<open>grader_llm.rs\<close>). \<open>Graders\<close>: the default
    grader with the exec, rubric and similar assertions and the verdicts of older versions (\<open>grader.rs\<close>, \<open>embeddings.rs\<close>,
    \<open>cache_migrate.rs\<close>).
  \<^item> \<open>Resolve\<close>: test sources, globs, \<open>$file\<close> and \<open>$digest\<close> values and matrices (\<open>resolve.rs\<close>, \<open>filevars.rs\<close>,
    \<open>matrix.rs\<close>). \<open>Planning\<close>: generators, the cells of a run and the diagnosis of an empty one (\<open>generate.rs\<close>,
    \<open>empty_run.rs\<close>, \<open>runner.rs\<close>). \<open>Preflight\<close>: the credential check (\<open>preflight.rs\<close>).
  \<^item> \<open>RunnerCell\<close>: one cell (\<open>runner_cell.rs\<close>, \<open>runner_result.rs\<close>). \<open>RunDriver\<close>: the whole run and its digests
    (\<open>runner.rs\<close>, \<open>digests.rs\<close>). \<open>Summary\<close>, \<open>Stats\<close>, \<open>Compare\<close>: the summary, its statistics, diffs, blame and
    composites (\<open>summary.rs\<close>, \<open>stats.rs\<close>, \<open>diff.rs\<close>, \<open>domarinn-types/src/change.rs\<close>, \<open>composite.rs\<close>).
    \<open>Provenance\<close>: what a run records of its origin (\<open>provenance.rs\<close>).
  \<^item> \<open>ClientAddr\<close>, \<open>Throttle\<close> (\<open>domarinn-server/src\<close>): who a request comes from, behind trusted proxies, and which origins
    may write (\<open>clientip.rs\<close>, \<open>csrf.rs\<close>, \<open>mcp/ratelimit.rs\<close>); the token buckets and the lockout of sign-in attempts
    (\<open>ratelimit.rs\<close>, \<open>storage/attempts.rs\<close>, \<open>accounts/guard.rs\<close>). Addresses are words, the attempts table is a map from
    keys to rows, and each SQL statement is the change it makes to that map.

  \<^bold>\<open>State and interaction.\<close> A cell transforms a \<open>World\<close>: the cache backend, the state of the run (the memo of the
  schema cache, the migration probe and its counters), the limiter, the abort flag and the outside world, an arbitrary
  type that providers, graders and generators act on. A provider is a record of functions, a cache backend a record of
  operations on its own state; the laws the runner relies on are the locale \<open>cache_backend\<close>, interpreted on the disk
  store and its wrappers. The calls nest as in the code: \<open>suite_run\<close> prepares (\<open>prepare_run\<close>), then steps a pool of at most
  \<open>concurrency\<close> cells (\<open>pool_step\<close>); a step finishes a cell by \<open>run_cell\<close>, which goes through \<open>ask_cell\<close>, \<open>call_chain\<close>,
  \<open>call_with_cache\<close> and \<open>with_retry_limited\<close> and then \<open>evaluate_asserts\<close>.

  \<^bold>\<open>What the lemmas show.\<close> A run ends under every schedule with one case per planned cell, and an offline run leaves the world
  alone; the plan is exactly the matrix its filters leave; a passing case passed every assertion; a replayed answer was
  stored for the same request; keys identify requests and contain no secret; rendering and loading depend on nothing outside
  the suite; skipping assertions never changes a verdict; retries, limits, costs and statistics keep their bounds; summaries,
  diffs and digests do not depend on orders that mean nothing. Two requests with one key are one call on the wire, tool calls
  keep their ids through a conversation, a judge's template decides alone where texts are pasted, scores are shares, and the
  default grader keeps the law an offline run puts on its grader. On the server, no hop a client writes itself changes who it is
  taken for, buckets never grant more than their rate, and guesses at one account stay bounded however they are spread. Failing branches are values: \<open>Inl\<close> of an error, \<open>None\<close> for a
  panic. Theorems about code that departs from its documentation are named in the findings of the manifest.

  \<^bold>\<open>Numbers, bounds and fuel.\<close> Unsigned integers are natural numbers with the saturation, wrap-around (\<open>mod 2 ^ 64\<close>) or
  truncation of each operation written out; \<open>f64\<close> is the reals, so rounding is not modelled; durations and instants are
  nanoseconds. Loops are structural or have a measure: the retry loop its remaining attempts, the re-ask loop \<open>MAX_REASKS\<close>, a
  pool of \<open>n\<close> cells exactly \<open>2 n\<close> steps. \<open>BRANCH_LOOKBACK\<close> bounds the runs a composite looks at. Strings are lists of
  characters up to U+00FF; dashes and ellipses of messages are written in ASCII. The substitution in a judge's template is a
  \<open>partial_function\<close>, proved to end for the keys it is called with.

  \<^bold>\<open>Parameters.\<close> Code that is not in the repository is an argument: SHA-256 and BLAKE3 (\<open>hashing\<close>), serde encodings, the
  template engine, regular expressions, JSON Schema, globbing, CSV and YAML readers, the file system, the clock and the child
  processes, the parsers of addresses and the partial sort that evicts buckets. A theorem that needs something of them states it as a hypothesis and has a witness with a concrete instance.

  \<^bold>\<open>Not modelled.\<close> The interleaving inside a cell (a cell is one step of the pool; the two embeddings of a \<open>similar\<close> assertion
  follow one another), progress events and logging. The network and the processes themselves: an HTTP client and a child
  process are functions of the world that answer in every way the code distinguishes. The provider factory and the remote cache
  stores. The YAML loader, its validation messages and environment interpolation. The command line's output. Of the
  server: routes, the SQL storage of runs and accounts, and sign-on.
\<close>

end
